(* ===== verification/Lfs_Prelude.thy ===== *)
theory Lfs_Prelude
  imports Main "HOL-Library.Word"
begin

text \<open>
  Shared vocabulary of the development: the machine integers of the code, addresses, the C string
  operations it takes from \<^verbatim>\<open>string.h\<close>, the outcome type of code that can fail or not
  return, and the generic lemmas on words, lists and outcomes that the component theories use.

  A piece of imperative code is a \<open>prog\<close>: a function of the state it runs in. \<open>None\<close> says that it
  does not return (it loops or blocks for ever when nothing else runs), \<open>Some (Inl f)\<close> that it has
  undefined behaviour of kind \<open>f\<close>, and \<open>Some (Inr (x, s))\<close> that it returns \<open>x\<close> in state \<open>s\<close>.
\<close>

unbundle bit_operations_syntax

subsection \<open>Machine integers and addresses\<close>

type_synonym u8 = "8 word"
type_synonym u32 = "32 word"
type_synonym u64 = "64 word"

text \<open>Addresses are 64-bit words; address 0 is \<^verbatim>\<open>nullptr\<close>.\<close>

type_synonym addr = "64 word"

abbreviation nullptr :: addr where
  "nullptr \<equiv> 0"

named_theorems word_bounds \<open>bounds and increments of machine words read as naturals\<close>

lemma unat_inc [word_bounds]:
  fixes w v :: "'a::len word"
  assumes "w < v"
  shows "unat (w + 1) = Suc (unat w)"
proof -
  have "unat w < unat v" using assms by (simp add: word_less_nat_alt)
  then have "Suc (unat w) < 2 ^ LENGTH('a)"
    using unsigned_less [of v, where ?'a = nat] by linarith
  then show ?thesis by (simp add: unat_word_ariths)
qed

lemma unat_sub_le [word_bounds]:
  fixes w v :: "'a::len word"
  assumes "w \<le> v"
  shows "unat (v - w) = unat v - unat w"
  using assms by (rule unat_sub)

lemma unat_add_small [word_bounds]:
  fixes w v :: "'a::len word"
  assumes "unat w + unat v < 2 ^ LENGTH('a)"
  shows "unat (w + v) = unat w + unat v"
  using assms by (simp add: unat_word_ariths)

lemma unat_mult_small [word_bounds]:
  fixes w v :: "'a::len word"
  assumes "unat w * unat v < 2 ^ LENGTH('a)"
  shows "unat (w * v) = unat w * unat v"
  using assms by (simp add: unat_word_ariths)

lemma unat_of_nat_small [word_bounds]:
  assumes "n < 2 ^ LENGTH('a::len)"
  shows "unat (of_nat n :: 'a word) = n"
  using assms by (simp add: unsigned_of_nat take_bit_nat_eq_self)

lemma sint_of_nat_small: "n < 2 ^ 63 \<Longrightarrow> sint (of_nat n :: u64) = int n"
  by (simp add: signed_of_nat signed_take_bit_int_eq_self)

subsection \<open>C strings\<close>

text \<open>
  A C string is modelled by its characters up to the terminator (\<open>string\<close>); a \<^verbatim>\<open>char\<close> array by
  all its bytes, the terminator included. \<open>c_at\<close> reads a string at an index: past the last
  character stands the terminator.
\<close>

abbreviation NUL :: char where
  "NUL \<equiv> CHR 0x00"

definition c_at :: "string \<Rightarrow> nat \<Rightarrow> char" where
  "c_at s i = (if i < length s then s ! i else NUL)"

definition cstr :: "char list \<Rightarrow> string" where
  "cstr buf = takeWhile (\<lambda>c. c \<noteq> NUL) buf"

text \<open>A string proper holds no terminator among its characters.\<close>

definition c_string :: "string \<Rightarrow> bool" where
  "c_string s \<longleftrightarrow> NUL \<notin> set s"

text \<open>
  \<^verbatim>\<open>strstr\<close>: the offset of the first occurrence of the second string in the first one, or
  \<open>None\<close> for a null result.
\<close>

fun is_prefix_at :: "string \<Rightarrow> string \<Rightarrow> bool" where
  "is_prefix_at [] s = True"
| "is_prefix_at (c # p) [] = False"
| "is_prefix_at (c # p) (d # s) = (c = d \<and> is_prefix_at p s)"

fun strstr :: "string \<Rightarrow> string \<Rightarrow> nat option" where
  "strstr [] needle = (if needle = [] then Some 0 else None)"
| "strstr (c # hay) needle =
     (if is_prefix_at needle (c # hay) then Some 0 else map_option Suc (strstr hay needle))"

lemma is_prefix_at_iff: "is_prefix_at p s \<longleftrightarrow> (\<exists>t. s = p @ t)"
  by (induction p s rule: is_prefix_at.induct) auto

lemma strstr_0_iff: "strstr hay needle = Some 0 \<longleftrightarrow> (\<exists>t. hay = needle @ t)"
proof (cases hay)
  case Nil
  then show ?thesis by simp
next
  case (Cons c h)
  have "strstr (c # h) needle = Some 0 \<longleftrightarrow> is_prefix_at needle (c # h)"
    by auto
  then show ?thesis by (simp only: Cons is_prefix_at_iff)
qed

lemma c_at_append1 [simp]: "i < length s \<Longrightarrow> c_at (s @ t) i = c_at s i"
  by (simp add: c_at_def nth_append)

lemma c_at_append2 [simp]: "c_at (s @ t) (length s + i) = c_at t i"
  by (simp add: c_at_def)

lemma c_at_Cons_0 [simp]: "c_at (c # s) 0 = c"
  by (simp add: c_at_def)

lemma c_at_Cons_Suc [simp]: "c_at (c # s) (Suc i) = c_at s i"
  by (simp add: c_at_def)

lemma c_at_Nil [simp]: "c_at [] i = NUL"
  by (simp add: c_at_def)

lemma c_at_drop: "c_at (drop r s) i = c_at s (r + i)"
  by (auto simp: c_at_def)

lemma c_at_ne_NUL: "c_at s i \<noteq> NUL \<Longrightarrow> i < length s"
  by (auto simp: c_at_def split: if_splits)

lemma cstr_terminated: "c_string s \<Longrightarrow> cstr (s @ NUL # t) = s"
  by (induction s) (auto simp: cstr_def c_string_def)

lemma c_string_cstr [simp]: "c_string (cstr buf)"
  by (auto simp: cstr_def c_string_def dest: set_takeWhileD)

lemma c_string_Nil [simp]: "c_string []"
  and c_string_Cons [simp]: "c_string (c # s) \<longleftrightarrow> c \<noteq> NUL \<and> c_string s"
  and c_string_append [simp]: "c_string (s @ t) \<longleftrightarrow> c_string s \<and> c_string t"
  by (auto simp: c_string_def)

end
