(* ===== verification/Shared_Types.thy ===== *)
theory Shared_Types
  imports Lfs_Prelude
begin

text \<open>
  The enumerations of \<^verbatim>\<open>src/shared_types.h\<close> and the operation codes of
  \<^verbatim>\<open>src/FileContext.cpp\<close>. Enumerations that the code only compares are datatypes with the
  source's constructors; the mount permissions, which the code combines bitwise, are 32-bit words.
\<close>

datatype lfs_error_code_t =
    LFS_OK
  | LFS_GENERIC_ERROR
  | LFS_NOT_FOUND
  | LFS_UNSUPPORTED
  | LFS_ALREADY_EXISTS
  | LFS_PERMISSIONS_ERROR
  | LFS_OUT_OF_SPACE
  | LFS_INVALID_DEVICE
  | LFS_OUT_OF_WORK_ITEMS

datatype lfs_write_mode_t =
    LFS_WRITE_TRUNCATE
  | LFS_WRITE_APPEND
  | LFS_WRITE_SEGMENT

datatype lfs_callback_buffer_action_t =
    LFS_DO_NOT_FREE_BUFFER
  | LFS_FREE_BUFFER

datatype lfs_file_operation_t =
    LFS_OP_EXISTS
  | LFS_OP_SIZE
  | LFS_OP_READ
  | LFS_OP_WRITE
  | LFS_OP_APPEND
  | LFS_OP_WRITE_SEGMENT
  | LFS_OP_DELETE
  | LFS_OP_CREATE_DIR
  | LFS_OP_DELETE_DIR

subsection \<open>Mount permissions\<close>

definition LFS_MOUNT_DEFAULT :: u32 where
  "LFS_MOUNT_DEFAULT = 0"

definition LFS_MOUNT_READ :: u32 where
  "LFS_MOUNT_READ = push_bit 0 1"

definition LFS_MOUNT_WRITE_FILE :: u32 where
  "LFS_MOUNT_WRITE_FILE = push_bit 1 1"

definition LFS_MOUNT_DELETE_FILE :: u32 where
  "LFS_MOUNT_DELETE_FILE = push_bit 2 1"

definition LFS_MOUNT_CREATE_DIR :: u32 where
  "LFS_MOUNT_CREATE_DIR = push_bit 3 1"

definition LFS_MOUNT_DELETE_DIR :: u32 where
  "LFS_MOUNT_DELETE_DIR = push_bit 4 1"

definition LFS_MOUNT_WRITE :: u32 where
  "LFS_MOUNT_WRITE =
     LFS_MOUNT_WRITE_FILE OR LFS_MOUNT_DELETE_FILE OR LFS_MOUNT_CREATE_DIR OR LFS_MOUNT_DELETE_DIR"

definition LFS_MOUNT_ALL_PERMISSIONS :: u32 where
  "LFS_MOUNT_ALL_PERMISSIONS = LFS_MOUNT_READ OR LFS_MOUNT_WRITE"

lemmas mount_permission_defs =
  LFS_MOUNT_DEFAULT_def LFS_MOUNT_READ_def LFS_MOUNT_WRITE_FILE_def LFS_MOUNT_DELETE_FILE_def
  LFS_MOUNT_CREATE_DIR_def LFS_MOUNT_DELETE_DIR_def LFS_MOUNT_WRITE_def
  LFS_MOUNT_ALL_PERMISSIONS_def

text \<open>A permission is one bit, so a mask has it exactly when the conjunction is not zero.\<close>

lemma perm_bit_test:
  fixes p :: u32
  assumes "k < 32"
  shows "p AND push_bit k 1 \<noteq> 0 \<longleftrightarrow> bit p k"
proof -
  have "p AND push_bit k 1 = (if bit p k then push_bit k 1 else 0)"
    by (auto intro!: bit_eqI simp: bit_simps)
  moreover have "push_bit k 1 \<noteq> (0::u32)"
    using assms by (simp add: bit_eq_iff) (auto simp: bit_simps)
  ultimately show ?thesis by simp
qed

lemma mount_permission_values:
  "LFS_MOUNT_READ = 1" "LFS_MOUNT_WRITE_FILE = 2" "LFS_MOUNT_DELETE_FILE = 4"
  "LFS_MOUNT_CREATE_DIR = 8" "LFS_MOUNT_DELETE_DIR = 16" "LFS_MOUNT_WRITE = 30"
  "LFS_MOUNT_ALL_PERMISSIONS = 31"
  by (simp_all add: mount_permission_defs)

end
