(* ===== verification/Semaphore.thy ===== *)
theory Semaphore
  imports Lfs_Prelude
begin

text \<open>
  The counting semaphore of \<^verbatim>\<open>src/util/Semaphore.h\<close>. \<open>sem_notify\<close> and \<open>sem_wait\<close> are the
  bodies of the two critical sections; \<open>sem_wait\<close> is \<open>None\<close> while the caller would block on the
  condition variable.
\<close>

record semaphore =
  sem_value :: u32

definition sem_new :: "u32 \<Rightarrow> semaphore" where
  "sem_new value = \<lparr>sem_value = value\<rparr>"

definition sem_notify :: "semaphore \<Rightarrow> semaphore" where
  "sem_notify s = s\<lparr>sem_value := sem_value s + 1\<rparr>"

definition sem_wait :: "semaphore \<Rightarrow> semaphore option" where
  "sem_wait s = (if sem_value s = 0 then None else Some (s\<lparr>sem_value := sem_value s - 1\<rparr>))"

lemma sem_wait_blocks_iff: "sem_wait s = None \<longleftrightarrow> sem_value s = 0"
  by (simp add: sem_wait_def)

lemma sem_wait_notify: "sem_value s \<noteq> - 1 \<Longrightarrow> sem_wait (sem_notify s) = Some s"
  by (auto simp: sem_wait_def sem_notify_def eq_neg_iff_add_eq_0)

end
