(* ===== verification/Outcome.thy ===== *)
theory Outcome
  imports Lfs_Prelude
begin

text \<open>
  Imperative code as state-passing programs. A program may return, run into undefined behaviour (a
  \<open>fault\<close>), or not return at all; sequencing stops at the first fault and at the first program that
  does not return, as the machine does.
\<close>

datatype fault =
    NullCall          \<comment> \<open>call through a null function pointer\<close>
  | NullDeref         \<comment> \<open>access through a null or dangling pointer\<close>
  | OutOfBounds       \<comment> \<open>access outside an array\<close>
  | Terminated        \<comment> \<open>an exception nobody catches ends the program\<close>

type_synonym ('a, 's) prog = "'s \<Rightarrow> (fault + 'a \<times> 's) option"

definition ret :: "'a \<Rightarrow> ('a, 's) prog" where
  "ret x s = Some (Inr (x, s))"

definition fail_with :: "fault \<Rightarrow> ('a, 's) prog" where
  "fail_with e s = Some (Inl e)"

definition diverge :: "('a, 's) prog" where
  "diverge s = None"

definition andThen :: "('a, 's) prog \<Rightarrow> ('a \<Rightarrow> ('b, 's) prog) \<Rightarrow> ('b, 's) prog" where
  "andThen m k s =
     (case m s of
        None \<Rightarrow> None
      | Some (Inl e) \<Rightarrow> Some (Inl e)
      | Some (Inr (x, s')) \<Rightarrow> k x s')"

text \<open>Reading the state, and replacing it by a function of it.\<close>

definition gets :: "('s \<Rightarrow> 'a) \<Rightarrow> ('a, 's) prog" where
  "gets f s = Some (Inr (f s, s))"

definition modify :: "('s \<Rightarrow> 's) \<Rightarrow> (unit, 's) prog" where
  "modify f s = Some (Inr ((), f s))"

text \<open>A call through a function pointer, which may be null.\<close>

definition call_ptr :: "'f option \<Rightarrow> ('f \<Rightarrow> ('a, 's) prog) \<Rightarrow> ('a, 's) prog" where
  "call_ptr fp k = (case fp of None \<Rightarrow> fail_with NullCall | Some f \<Rightarrow> k f)"

text \<open>A program on one part of a pair of states, the other part kept.\<close>

definition on_snd :: "('a, 'w) prog \<Rightarrow> ('a, 'c \<times> 'w) prog" where
  "on_snd m s =
     (case m (snd s) of
        None \<Rightarrow> None
      | Some (Inl e) \<Rightarrow> Some (Inl e)
      | Some (Inr (x, w)) \<Rightarrow> Some (Inr (x, (fst s, w))))"

text \<open>A program returns from a state when it ends without fault.\<close>

definition returns :: "('a, 's) prog \<Rightarrow> 's \<Rightarrow> bool" where
  "returns m s \<longleftrightarrow> (\<exists>x t. m s = Some (Inr (x, t)))"

named_theorems prog_simps \<open>evaluation of programs\<close>

lemma ret_eq [prog_simps]: "ret x s = Some (Inr (x, s))"
  by (simp add: ret_def)

lemma fail_eq [prog_simps]: "fail_with e s = Some (Inl e)"
  by (simp add: fail_with_def)

lemma diverge_eq [prog_simps]: "diverge s = None"
  by (simp add: diverge_def)

lemma gets_eq [prog_simps]: "gets f s = Some (Inr (f s, s))"
  by (simp add: gets_def)

lemma modify_eq [prog_simps]: "modify f s = Some (Inr ((), f s))"
  by (simp add: modify_def)

lemma call_ptr_None [prog_simps]: "call_ptr None k = fail_with NullCall"
  and call_ptr_Some [prog_simps]: "call_ptr (Some f) k = k f"
  by (simp_all add: call_ptr_def)

lemma andThen_ret_left [prog_simps]: "andThen (ret x) k = k x"
  by (rule ext) (simp add: andThen_def ret_def)

lemma andThen_fail_left [prog_simps]: "andThen (fail_with e) k = fail_with e"
  by (rule ext) (simp add: andThen_def fail_with_def)

lemma andThen_ret_right [simp]: "andThen m ret = m"
  by (rule ext) (simp add: andThen_def ret_def split: option.splits sum.splits)

lemma andThen_ret_unit [simp]: "andThen m (\<lambda>_. ret ()) = m"
  by (rule ext) (simp add: andThen_def ret_def split: option.splits sum.splits)

lemma andThen_assoc: "andThen (andThen m k) h = andThen m (\<lambda>x. andThen (k x) h)"
  by (rule ext) (simp add: andThen_def split: option.splits sum.splits prod.splits)

lemma andThen_cases [prog_simps]:
  "m s = None \<Longrightarrow> andThen m k s = None"
  "m s = Some (Inl e) \<Longrightarrow> andThen m k s = Some (Inl e)"
  "m s = Some (Inr (x, s')) \<Longrightarrow> andThen m k s = k x s'"
  by (simp_all add: andThen_def)

lemma on_snd_cases [prog_simps]:
  "m w = None \<Longrightarrow> on_snd m (c, w) = None"
  "m w = Some (Inl e) \<Longrightarrow> on_snd m (c, w) = Some (Inl e)"
  "m w = Some (Inr (x, w')) \<Longrightarrow> on_snd m (c, w) = Some (Inr (x, (c, w')))"
  by (simp_all add: on_snd_def)

lemma andThen_returnD:
  "andThen m k s = Some (Inr (y, u)) \<Longrightarrow> \<exists>x t. m s = Some (Inr (x, t)) \<and> k x t = Some (Inr (y, u))"
  by (auto simp: andThen_def split: option.splits sum.splits)

lemma on_snd_returnD:
  "on_snd m s = Some (Inr (y, u)) \<Longrightarrow> \<exists>w. m (snd s) = Some (Inr (y, w)) \<and> u = (fst s, w)"
  by (auto simp: on_snd_def split: option.splits sum.splits)

text \<open>
  Sequencing is monotone in the programs it runs, so loops may be defined with
  \<^theory_text>\<open>partial_function (option)\<close>.
\<close>

lemma andThen_mono [partial_function_mono]:
  fixes B :: "('x \<Rightarrow> 'y option) \<Rightarrow> ('a, 's) prog"
    and C :: "'a \<Rightarrow> ('x \<Rightarrow> 'y option) \<Rightarrow> ('b, 's) prog"
  assumes "\<And>t. mono_option (\<lambda>f. B f t)"
    and "\<And>y t. mono_option (\<lambda>f. C y f t)"
  shows "mono_option (\<lambda>f. andThen (B f) (\<lambda>y. C y f) s)"
proof (rule monotoneI)
  fix f g :: "'x \<Rightarrow> 'y option"
  assume le: "fun_ord option_ord f g"
  have B: "option_ord (B f t) (B g t)" for t
    using assms(1) le by (rule monotoneD [of _ _ _ f g])
  have C: "option_ord (C y f t) (C y g t)" for y t
    using assms(2) le by (rule monotoneD [of _ _ _ f g])
  show "option_ord (andThen (B f) (\<lambda>y. C y f) s) (andThen (B g) (\<lambda>y. C y g) s)"
  proof (cases "B f s")
    case None
    then show ?thesis by (simp add: andThen_def flat_ord_def)
  next
    case (Some r)
    with B [of s] have "B g s = Some r" by (simp add: flat_ord_def)
    with Some C show ?thesis
      by (cases r) (auto simp: andThen_def flat_ord_def split: prod.splits)
  qed
qed

end
