(* ===== verification/Queue_Interface.thy ===== *)
theory Queue_Interface
  imports Outcome
begin

text \<open>
  The contract of the work queue: what the context relies on when it submits work items and when the
  processing thread fetches them. A bounded queue is a state with a list of \<open>contents\<close>; a push
  stores at the end unless the queue is full, a pop takes from the front or returns the default. The
  consequences for whole sequences of operations are proved once here, from the contract.
\<close>

datatype 'a queue_op = Push 'a | Pop

datatype 'a queue_answer = Pushed bool | Popped 'a

text \<open>A sequence of operations on an implementation, with the answers it gives.\<close>

fun queue_run :: "('a \<Rightarrow> (bool \<times> bool, 'q) prog) \<Rightarrow> ('a, 'q) prog \<Rightarrow> 'a queue_op list
    \<Rightarrow> ('a queue_answer list, 'q) prog" where
  "queue_run push pop [] = ret []"
| "queue_run push pop (Push v # ops) =
     andThen (push v) (\<lambda>(done, notify).
     andThen (queue_run push pop ops) (\<lambda>answers. ret (Pushed done # answers)))"
| "queue_run push pop (Pop # ops) =
     andThen pop (\<lambda>x.
     andThen (queue_run push pop ops) (\<lambda>answers. ret (Popped x # answers)))"

text \<open>The same sequence on a list bounded by \<open>n\<close>: the specification.\<close>

fun queue_spec :: "nat \<Rightarrow> 'a \<Rightarrow> 'a queue_op list \<Rightarrow> 'a list \<Rightarrow> 'a queue_answer list \<times> 'a list" where
  "queue_spec n d [] xs = ([], xs)"
| "queue_spec n d (Push v # ops) xs =
     (if length xs < n
      then let (answers, ys) = queue_spec n d ops (xs @ [v]) in (Pushed True # answers, ys)
      else let (answers, ys) = queue_spec n d ops xs in (Pushed False # answers, ys))"
| "queue_spec n d (Pop # ops) xs =
     (case xs of
        [] \<Rightarrow> let (answers, ys) = queue_spec n d ops [] in (Popped d # answers, ys)
      | x # xs' \<Rightarrow> let (answers, ys) = queue_spec n d ops xs' in (Popped x # answers, ys))"

locale bounded_queue =
  fixes push :: "'a \<Rightarrow> (bool \<times> bool, 'q) prog"
    and pop :: "'a \<Rightarrow> ('a, 'q) prog"
    and contents :: "'q \<Rightarrow> 'a list"
    and capacity :: "'q \<Rightarrow> nat"
    and notifies :: "'q \<Rightarrow> bool"
    and invar :: "'q \<Rightarrow> bool"
  assumes push_room: "invar q \<Longrightarrow> length (contents q) < capacity q \<Longrightarrow>
      \<exists>q'. push v q = Some (Inr ((True, contents q = [] \<and> notifies q), q'))
        \<and> contents q' = contents q @ [v] \<and> capacity q' = capacity q
        \<and> notifies q' = notifies q \<and> invar q'"
    and push_full: "invar q \<Longrightarrow> \<not> length (contents q) < capacity q \<Longrightarrow>
      push v q = Some (Inr ((False, False), q))"
    and pop_item: "invar q \<Longrightarrow> contents q = x # xs \<Longrightarrow>
      \<exists>q'. pop d q = Some (Inr (x, q')) \<and> contents q' = xs \<and> capacity q' = capacity q
        \<and> notifies q' = notifies q \<and> invar q'"
    and pop_empty: "invar q \<Longrightarrow> contents q = [] \<Longrightarrow> pop d q = Some (Inr (d, q))"
begin

text \<open>Every sequence of operations answers as the list does, and never faults or blocks.\<close>

lemma run_refines:
  assumes "invar q"
  shows "\<exists>q'. queue_run push (pop d) ops q
      = Some (Inr (fst (queue_spec (capacity q) d ops (contents q)), q'))
    \<and> contents q' = snd (queue_spec (capacity q) d ops (contents q))
    \<and> capacity q' = capacity q \<and> invar q'"
  using assms
proof (induction ops arbitrary: q)
  case Nil
  then show ?case by (simp add: prog_simps)
next
  case (Cons op ops)
  show ?case
  proof (cases op)
    case (Push v)
    show ?thesis
    proof (cases "length (contents q) < capacity q")
      case True
      with push_room [OF Cons.prems, of v] obtain q1 n where
        q1: "push v q = Some (Inr ((True, n), q1))" "contents q1 = contents q @ [v]"
          "capacity q1 = capacity q" "invar q1" by blast
      from Cons.IH [OF q1(4)] True Push show ?thesis
        by (auto simp: q1 prog_simps split: prod.splits)
    next
      case False
      from Cons.IH [OF Cons.prems] False Push show ?thesis
        by (auto simp: push_full [OF Cons.prems False] prog_simps split: prod.splits)
    qed
  next
    case Pop
    show ?thesis
    proof (cases "contents q")
      case Nil
      from Cons.IH [OF Cons.prems] Nil Pop show ?thesis
        by (auto simp: pop_empty [OF Cons.prems Nil] prog_simps split: prod.splits)
    next
      case (Cons x xs)
      with pop_item [OF Cons.prems(1), of x xs d] obtain q1 where
        q1: "pop d q = Some (Inr (x, q1))" "contents q1 = xs"
          "capacity q1 = capacity q" "invar q1" by blast
      from Cons.IH [OF q1(4)] \<open>contents q = x # xs\<close> Pop show ?thesis
        by (auto simp: q1 prog_simps split: prod.splits)
    qed
  qed
qed

text \<open>A queue never holds more than its capacity.\<close>

lemma push_keeps_bound:
  assumes "invar q" "length (contents q) \<le> capacity q" "push v q = Some (Inr (r, q'))"
  shows "length (contents q') \<le> capacity q'"
proof (cases "length (contents q) < capacity q")
  case True
  with push_room [OF assms(1), of v] assms(3) show ?thesis by auto
next
  case False
  with push_full [OF assms(1), of v] assms show ?thesis by auto
qed

end

end
