(* ===== verification/Ring_Buffer.thy ===== *)
theory Ring_Buffer
  imports Queue_Interface Semaphore
begin

text \<open>
  The fixed-capacity ring buffer of \<^verbatim>\<open>src/util/RingBuffer.h\<close>, with the array, the two positions
  and the \<open>full\<close> flag of the code. \<open>rb_push_locked\<close> and \<open>rb_pop\<close> are the bodies of the critical
  sections; the blocking loop of \<open>push\<close> around the first is \<open>rb_push\<close>. The abstraction
  \<open>rb_contents\<close> reads the buffer as the list of the items it holds, oldest first; every operation is
  shown to act on that list as the operation of a queue.
\<close>

record 'a ring_buffer =
  rb_buffer :: "'a list"
  rb_capacity :: u64
  rb_readPos :: u64
  rb_writePos :: u64
  rb_full :: bool
  rb_semaphore :: bool      \<comment> \<open>whether a semaphore was passed to the constructor\<close>

text \<open>
  The default constructor leaves the buffer pointer unset (no array), and the other one takes an
  array from the allocator: \<open>raw\<close> is what that memory holds.
\<close>

definition rb_default :: "'a ring_buffer" where
  "rb_default = \<lparr>rb_buffer = [], rb_capacity = 0, rb_readPos = 0, rb_writePos = 0,
     rb_full = True, rb_semaphore = False\<rparr>"

definition rb_new :: "'a list \<Rightarrow> u64 \<Rightarrow> bool \<Rightarrow> 'a ring_buffer" where
  "rb_new raw capacity sem = \<lparr>rb_buffer = raw, rb_capacity = capacity, rb_readPos = 0,
     rb_writePos = 0, rb_full = False, rb_semaphore = sem\<rparr>"

text \<open>
  The critical section of \<^verbatim>\<open>push\<close>: the result says whether the item was stored (\<^verbatim>\<open>done\<close>)
  and whether the semaphore is to be notified.
\<close>

definition rb_push_locked :: "'a \<Rightarrow> (bool \<times> bool, 'a ring_buffer) prog" where
  "rb_push_locked v rb =
     (if \<not> rb_full rb then
        let notify = (rb_writePos rb = rb_readPos rb);
            wp = rb_writePos rb + 1;
            wp' = (if wp = rb_capacity rb then 0 else wp)
        in if unat (rb_writePos rb) < length (rb_buffer rb) then
             Some (Inr ((True, notify \<and> rb_semaphore rb),
               rb\<lparr>rb_buffer := (rb_buffer rb)[unat (rb_writePos rb) := v],
                  rb_writePos := wp',
                  rb_full := (if wp' = rb_readPos rb then True else rb_full rb)\<rparr>))
           else Some (Inl OutOfBounds)
      else Some (Inr ((False, False), rb)))"

text \<open>
  \<^verbatim>\<open>push\<close> retries until the item is stored. With no other thread running a full buffer stays
  full, so the call does not return.
\<close>

partial_function (option) rb_push :: "'a \<Rightarrow> 'a ring_buffer \<Rightarrow> (fault + bool \<times> 'a ring_buffer) option"
  where
  "rb_push v rb =
     (if rb_full rb then rb_push v rb
      else andThen (rb_push_locked v)
             (\<lambda>(done, notify) rb'. if done then ret notify rb' else rb_push v rb') rb)"

definition rb_pop :: "'a \<Rightarrow> ('a, 'a ring_buffer) prog" where
  "rb_pop defaultValue rb =
     (if rb_full rb \<or> rb_readPos rb \<noteq> rb_writePos rb then
        let oldReadPos = rb_readPos rb;
            rp = rb_readPos rb + 1;
            rp' = (if rp = rb_capacity rb then 0 else rp)
        in if unat oldReadPos < length (rb_buffer rb) then
             Some (Inr (rb_buffer rb ! unat oldReadPos, rb\<lparr>rb_readPos := rp', rb_full := False\<rparr>))
           else Some (Inl OutOfBounds)
      else Some (Inr (defaultValue, rb)))"

definition rb_getCapacity :: "'a ring_buffer \<Rightarrow> u64" where
  "rb_getCapacity rb = rb_capacity rb"

definition rb_getCount :: "'a ring_buffer \<Rightarrow> u64" where
  "rb_getCount rb =
     (if rb_full rb then rb_capacity rb
      else if rb_readPos rb \<le> rb_writePos rb then rb_writePos rb - rb_readPos rb
      else rb_capacity rb - rb_readPos rb + rb_writePos rb)"

subsection \<open>The queue a ring buffer stands for\<close>

text \<open>The array index \<open>i\<close> places after \<open>r\<close> in a ring of \<open>c\<close> places.\<close>

definition ring_index :: "nat \<Rightarrow> nat \<Rightarrow> nat \<Rightarrow> nat" where
  "ring_index c r i = (if r + i < c then r + i else r + i - c)"

definition rb_count :: "'a ring_buffer \<Rightarrow> nat" where
  "rb_count rb =
     (let c = unat (rb_capacity rb); r = unat (rb_readPos rb); w = unat (rb_writePos rb)
      in if rb_full rb then c else if r \<le> w then w - r else c - r + w)"

definition rb_contents :: "'a ring_buffer \<Rightarrow> 'a list" where
  "rb_contents rb =
     map (\<lambda>i. rb_buffer rb ! ring_index (unat (rb_capacity rb)) (unat (rb_readPos rb)) i)
       [0..<rb_count rb]"

definition rb_inv :: "'a ring_buffer \<Rightarrow> bool" where
  "rb_inv rb \<longleftrightarrow>
     length (rb_buffer rb) = unat (rb_capacity rb)
     \<and> rb_readPos rb < rb_capacity rb \<and> rb_writePos rb < rb_capacity rb
     \<and> (rb_full rb \<longrightarrow> rb_readPos rb = rb_writePos rb)"

lemma length_rb_contents [simp]: "length (rb_contents rb) = rb_count rb"
  by (simp add: rb_contents_def)

lemma ring_index_less: "r < c \<Longrightarrow> i \<le> c \<Longrightarrow> ring_index c r i < c"
  by (auto simp: ring_index_def)

lemma ring_index_eq_iff:
  "r < c \<Longrightarrow> i < c \<Longrightarrow> j < c \<Longrightarrow> ring_index c r i = ring_index c r j \<longleftrightarrow> i = j"
  by (auto simp: ring_index_def)

lemma rb_inv_nat:
  assumes "rb_inv rb"
  shows "unat (rb_readPos rb) < unat (rb_capacity rb)"
    and "unat (rb_writePos rb) < unat (rb_capacity rb)"
    and "rb_full rb \<Longrightarrow> unat (rb_readPos rb) = unat (rb_writePos rb)"
    and "length (rb_buffer rb) = unat (rb_capacity rb)"
  using assms by (auto simp: rb_inv_def word_less_nat_alt)

lemma rb_count_le: "rb_inv rb \<Longrightarrow> rb_count rb \<le> unat (rb_capacity rb)"
  using rb_inv_nat [of rb] by (auto simp: rb_count_def Let_def)

lemma rb_count_less: "rb_inv rb \<Longrightarrow> \<not> rb_full rb \<Longrightarrow> rb_count rb < unat (rb_capacity rb)"
  using rb_inv_nat [of rb] by (auto simp: rb_count_def Let_def)

text \<open>The write position is \<open>count\<close> places after the read position.\<close>

lemma rb_writePos_index:
  "rb_inv rb \<Longrightarrow> unat (rb_writePos rb) =
     ring_index (unat (rb_capacity rb)) (unat (rb_readPos rb)) (rb_count rb)"
  using rb_inv_nat [of rb] by (auto simp: rb_count_def ring_index_def Let_def)

lemma rb_empty_iff:
  "rb_inv rb \<Longrightarrow> rb_contents rb = [] \<longleftrightarrow> \<not> rb_full rb \<and> rb_readPos rb = rb_writePos rb"
  using rb_inv_nat [of rb]
  by (auto simp: rb_count_def Let_def word_unat_eq_iff simp flip: length_0_conv)

lemma rb_full_iff:
  "rb_inv rb \<Longrightarrow> rb_full rb \<longleftrightarrow> length (rb_contents rb) = unat (rb_capacity rb)"
  using rb_count_less [of rb] by (auto simp: rb_count_def Let_def)

text \<open>The wrapping increment of a position.\<close>

lemma wrap_inc:
  fixes p c :: u64
  assumes "p < c"
  shows "unat (if p + 1 = c then 0 else p + 1)
    = (if Suc (unat p) = unat c then 0 else Suc (unat p))"
    and "(if p + 1 = c then 0 else p + 1) < c"
  using assms unat_inc [OF assms]
  by (auto simp: word_unat_eq_iff word_less_nat_alt)

subsection \<open>The operations on the contents\<close>

lemma rb_push_locked_full: "rb_full rb \<Longrightarrow> rb_push_locked v rb = Some (Inr ((False, False), rb))"
  by (simp add: rb_push_locked_def)

lemma rb_push_locked_room:
  assumes inv: "rb_inv rb" and room: "\<not> rb_full rb"
  shows "\<exists>rb'. rb_push_locked v rb
      = Some (Inr ((True, rb_contents rb = [] \<and> rb_semaphore rb), rb'))
    \<and> rb_contents rb' = rb_contents rb @ [v] \<and> rb_capacity rb' = rb_capacity rb
    \<and> rb_semaphore rb' = rb_semaphore rb \<and> rb_inv rb'"
proof -
  let ?c = "unat (rb_capacity rb)" and ?r = "unat (rb_readPos rb)" and ?w = "unat (rb_writePos rb)"
  let ?wp = "if rb_writePos rb + 1 = rb_capacity rb then 0 else rb_writePos rb + 1"
  let ?rb' = "rb\<lparr>rb_buffer := (rb_buffer rb)[?w := v], rb_writePos := ?wp,
    rb_full := (if ?wp = rb_readPos rb then True else rb_full rb)\<rparr>"
  note n = rb_inv_nat [OF inv]
  from inv have wc: "rb_writePos rb < rb_capacity rb" by (simp add: rb_inv_def)
  have push: "rb_push_locked v rb
      = Some (Inr ((True, rb_contents rb = [] \<and> rb_semaphore rb), ?rb'))"
    using room n by (auto simp: rb_push_locked_def Let_def rb_empty_iff [OF inv])
  have count: "rb_count ?rb' = Suc (rb_count rb)"
    using n(1,2) room
    by (auto simp: rb_count_def Let_def wrap_inc [OF wc] word_unat_eq_iff [of ?wp])
  have contents: "rb_contents ?rb' = rb_contents rb @ [v]"
  proof (rule nth_equalityI)
    show "length (rb_contents ?rb') = length (rb_contents rb @ [v])" by (simp add: count)
    fix i
    assume "i < length (rb_contents ?rb')"
    then have i: "i < Suc (rb_count rb)" by (simp add: count)
    have less: "rb_count rb < ?c" by (rule rb_count_less [OF inv room])
    have w: "?w = ring_index ?c ?r (rb_count rb)" by (rule rb_writePos_index [OF inv])
    have "rb_contents ?rb' ! i = (rb_buffer rb)[?w := v] ! ring_index ?c ?r i"
      using i count by (simp add: rb_contents_def del: upt_Suc)
    also have "\<dots> = (if i = rb_count rb then v else rb_buffer rb ! ring_index ?c ?r i)"
      using i less n w by (auto simp: nth_list_update ring_index_less ring_index_eq_iff)
    also have "\<dots> = (rb_contents rb @ [v]) ! i"
      using i by (auto simp: rb_contents_def nth_append less_Suc_eq)
    finally show "rb_contents ?rb' ! i = (rb_contents rb @ [v]) ! i" .
  qed
  have "rb_inv ?rb'"
    using inv wrap_inc(2) [OF wc] room by (auto simp: rb_inv_def)
  with push contents show ?thesis by auto
qed

lemma rb_pop_empty: "rb_inv rb \<Longrightarrow> rb_contents rb = [] \<Longrightarrow> rb_pop d rb = Some (Inr (d, rb))"
  by (simp add: rb_pop_def rb_empty_iff)

lemma rb_pop_item:
  assumes inv: "rb_inv rb" and items: "rb_contents rb = x # xs"
  shows "\<exists>rb'. rb_pop d rb = Some (Inr (x, rb'))
    \<and> rb_contents rb' = xs \<and> rb_capacity rb' = rb_capacity rb
    \<and> rb_semaphore rb' = rb_semaphore rb \<and> rb_inv rb'"
proof -
  let ?c = "unat (rb_capacity rb)" and ?r = "unat (rb_readPos rb)"
  let ?rp = "if rb_readPos rb + 1 = rb_capacity rb then 0 else rb_readPos rb + 1"
  let ?rb' = "rb\<lparr>rb_readPos := ?rp, rb_full := False\<rparr>"
  note n = rb_inv_nat [OF inv]
  from inv have rc: "rb_readPos rb < rb_capacity rb" by (simp add: rb_inv_def)
  from items have ne: "rb_full rb \<or> rb_readPos rb \<noteq> rb_writePos rb"
    using rb_empty_iff [OF inv] by auto
  from items have cnt: "rb_count rb = Suc (length xs)"
    by (metis length_Cons length_rb_contents)
  have "x = rb_contents rb ! 0" by (simp add: items)
  then have x: "x = rb_buffer rb ! ?r"
    using n(1) by (simp add: rb_contents_def cnt ring_index_def del: upt_Suc)
  have pop: "rb_pop d rb = Some (Inr (x, ?rb'))"
    using ne n by (simp add: rb_pop_def Let_def x)
  have count: "rb_count ?rb' = length xs"
    using n(1,2,3) cnt ne
    by (auto simp: rb_count_def Let_def wrap_inc [OF rc] unat_inc [OF rc] word_unat_eq_iff split: if_splits)
  have contents: "rb_contents ?rb' = xs"
  proof (rule nth_equalityI)
    show "length (rb_contents ?rb') = length xs" by (simp add: count)
    fix i
    assume "i < length (rb_contents ?rb')"
    then have i: "i < length xs" by (simp add: count)
    have "xs ! i = rb_contents rb ! Suc i" by (simp add: items)
    also have "\<dots> = rb_buffer rb ! ring_index ?c ?r (Suc i)"
      using i by (simp add: rb_contents_def cnt del: upt_Suc)
    also have "ring_index ?c ?r (Suc i) = ring_index ?c (unat ?rp) i"
      using n(1) i cnt rb_count_le [OF inv] by (auto simp: ring_index_def wrap_inc [OF rc])
    finally show "rb_contents ?rb' ! i = xs ! i"
      using i by (simp add: rb_contents_def count)
  qed
  have "rb_inv ?rb'" using inv wrap_inc(2) [OF rc] by (auto simp: rb_inv_def)
  with pop contents show ?thesis by auto
qed

interpretation rq: bounded_queue rb_push_locked rb_pop rb_contents
  "\<lambda>rb. unat (rb_capacity rb)" rb_semaphore rb_inv
proof unfold_locales
  fix q :: "'a ring_buffer" and v :: 'a
  assume inv: "rb_inv q"
  show "\<exists>q'. rb_push_locked v q
        = Some (Inr ((True, rb_contents q = [] \<and> rb_semaphore q), q'))
      \<and> rb_contents q' = rb_contents q @ [v] \<and> unat (rb_capacity q') = unat (rb_capacity q)
      \<and> rb_semaphore q' = rb_semaphore q \<and> rb_inv q'"
    if "length (rb_contents q) < unat (rb_capacity q)"
    using rb_push_locked_room [OF inv] that rb_full_iff [OF inv] by fastforce
  show "rb_push_locked v q = Some (Inr ((False, False), q))"
    if "\<not> length (rb_contents q) < unat (rb_capacity q)"
    using that rb_count_less [OF inv] by (auto intro: rb_push_locked_full)
next
  fix q :: "'a ring_buffer" and d x :: 'a and xs
  assume inv: "rb_inv q"
  show "\<exists>q'. rb_pop d q = Some (Inr (x, q')) \<and> rb_contents q' = xs
      \<and> unat (rb_capacity q') = unat (rb_capacity q) \<and> rb_semaphore q' = rb_semaphore q \<and> rb_inv q'"
    if "rb_contents q = x # xs"
    using rb_pop_item [OF inv that, of d] by auto
  show "rb_pop d q = Some (Inr (d, q))" if "rb_contents q = []"
    using inv that by (rule rb_pop_empty)
qed

lemma rb_new_inv: "0 < capacity \<Longrightarrow> length raw = unat capacity \<Longrightarrow> rb_inv (rb_new raw capacity sem)"
  by (simp add: rb_inv_def rb_new_def)

lemma rb_new_contents [simp]: "rb_contents (rb_new raw capacity sem) = []"
  by (simp add: rb_contents_def rb_count_def rb_new_def)

lemma rb_new_fields [simp]:
  "rb_capacity (rb_new raw capacity sem) = capacity"
  "rb_semaphore (rb_new raw capacity sem) = sem"
  by (simp_all add: rb_new_def)

text \<open>With room, the blocking push returns at once and says whether the consumer is to be woken.\<close>

lemma rb_push_room:
  assumes "rb_inv rb" "\<not> rb_full rb"
  shows "\<exists>rb'. rb_push v rb = Some (Inr (rb_contents rb = [] \<and> rb_semaphore rb, rb'))
    \<and> rb_contents rb' = rb_contents rb @ [v] \<and> rb_capacity rb' = rb_capacity rb
    \<and> rb_semaphore rb' = rb_semaphore rb \<and> rb_inv rb'"
  using rb_push_locked_room [OF assms, of v] assms(2)
  by (auto simp: rb_push.simps [of v rb] prog_simps)

lemma rb_push_Some_room: "rb_push v rb = Some r \<Longrightarrow> \<not> rb_full rb"
proof (rule rb_push.raw_induct [where P = "\<lambda>v rb r. \<not> rb_full rb"])
  fix push :: "'a \<Rightarrow> 'a ring_buffer \<Rightarrow> (fault + bool \<times> 'a ring_buffer) option" and v rb y
  assume "\<And>v rb y. push v rb = Some y \<Longrightarrow> \<not> rb_full rb"
    and "(if rb_full rb then push v rb
      else andThen (rb_push_locked v)
        (\<lambda>(done, notify) rb'. if done then ret notify rb' else push v rb') rb) = Some y"
  then show "\<not> rb_full rb" by (auto split: if_splits)
qed

subsection \<open>Properties\<close>

text \<open>
  C1: a ring buffer built by the constructor is a first-in first-out queue. Any sequence of pushes
  and pops on it, through as many turns of the ring as it takes, runs without fault and gives the
  answers of a list bounded by the capacity: pushes are stored in order and refused exactly when the
  list is full, and pops give the oldest item, or the default when there is none.
\<close>

theorem ring_buffer_is_queue:
  assumes "0 < capacity" and "length raw = unat capacity"
  shows "\<exists>rb'. queue_run rb_push_locked (rb_pop d) ops (rb_new raw capacity sem)
      = Some (Inr (fst (queue_spec (unat capacity) d ops []), rb'))
    \<and> rb_contents rb' = snd (queue_spec (unat capacity) d ops []) \<and> rb_inv rb'"
  using rq.run_refines [OF rb_new_inv [OF assms, of sem], of d ops] by auto

lemma ring_buffer_is_queue_witness:
  "\<exists>rb'. queue_run rb_push_locked (rb_pop 0)
        [Push 1, Push 2, Push 3, Pop, Push 4, Pop, Pop, Pop] (rb_new [7, 7] 2 True)
      = Some (Inr ([Pushed True, Pushed True, Pushed False, Popped 1, Pushed True, Popped 2,
          Popped 4, Popped (0::nat)], rb'))
    \<and> rb_contents rb' = []"
  using ring_buffer_is_queue [of 2 "[7, 7::nat]" 0
      "[Push 1, Push 2, Push 3, Pop, Push 4, Pop, Pop, Pop]" True]
  by auto

text \<open>
  In every well-formed state the reported count is the number of items held (the subtraction on
  64-bit positions never wraps), and it never exceeds the capacity.
\<close>

theorem ring_buffer_count:
  assumes "rb_inv rb"
  shows "unat (rb_getCount rb) = length (rb_contents rb) \<and> rb_getCount rb \<le> rb_getCapacity rb"
proof -
  note n = rb_inv_nat [OF assms]
  have "unat (rb_getCount rb) = rb_count rb"
  proof (cases "rb_full rb \<or> rb_readPos rb \<le> rb_writePos rb")
    case True
    then show ?thesis
      by (auto simp: rb_getCount_def rb_count_def Let_def unat_sub_le word_le_nat_alt)
  next
    case False
    with n have "unat (rb_capacity rb - rb_readPos rb) + unat (rb_writePos rb) < unat (rb_capacity rb)"
      by (auto simp: unat_sub_le word_le_nat_alt)
    then have "unat (rb_capacity rb - rb_readPos rb) + unat (rb_writePos rb) < 2 ^ 64"
      using unsigned_less [of "rb_capacity rb", where ?'a = nat] by simp
    with False n show ?thesis
      by (simp add: rb_getCount_def rb_count_def Let_def unat_add_small unat_sub_le word_le_nat_alt)
  qed
  then show ?thesis
    using rb_count_le [OF assms] by (simp add: rb_getCapacity_def word_le_nat_alt)
qed

lemma ring_buffer_count_witness:
  "unat (rb_getCount (\<lparr>rb_buffer = ''abc'', rb_capacity = 3, rb_readPos = 2, rb_writePos = 1,
     rb_full = False, rb_semaphore = True\<rparr>)) = 2"
  using ring_buffer_count [of "\<lparr>rb_buffer = ''abc'', rb_capacity = 3, rb_readPos = 2,
      rb_writePos = 1, rb_full = False, rb_semaphore = True\<rparr>"]
  by (simp add: rb_inv_def rb_count_def)

text \<open>
  \<^verbatim>\<open>push\<close> returns exactly when the buffer has room; it then appends the item and asks for a
  notification of the consumer exactly when the buffer was empty before. On a full buffer it spins:
  with no other thread running it never returns.
\<close>

theorem push_returns_iff_room:
  assumes "rb_inv rb"
  shows "(if rb_full rb then rb_push v rb = None
     else \<exists>rb'. rb_push v rb = Some (Inr (rb_contents rb = [] \<and> rb_semaphore rb, rb'))
       \<and> rb_contents rb' = rb_contents rb @ [v] \<and> rb_inv rb')"
  using rb_push_room [OF assms, of v] rb_push_Some_room [of v rb] by (cases "rb_push v rb") auto

lemma push_returns_iff_room_witness:
  "rb_push 5 (\<lparr>rb_buffer = [3], rb_capacity = 1, rb_readPos = 0, rb_writePos = 0,
     rb_full = True, rb_semaphore = True\<rparr>) = (None :: (fault + bool \<times> nat ring_buffer) option)"
  using push_returns_iff_room [of "\<lparr>rb_buffer = [3::nat], rb_capacity = 1, rb_readPos = 0,
      rb_writePos = 0, rb_full = True, rb_semaphore = True\<rparr>" 5]
  by (simp add: rb_inv_def)

text \<open>
  The constructor accepts capacity 0, but the buffer it makes claims to have room: the first push
  writes outside the (empty) array.
\<close>

theorem zero_capacity_push_faults:
  "rb_push_locked v (rb_new [] 0 sem) = Some (Inl OutOfBounds)"
  by (simp add: rb_push_locked_def rb_new_def Let_def)

end
