(* ===== verification/Pool_Interface.thy ===== *)
theory Pool_Interface
  imports Outcome
begin

text \<open>
  The contract of a pool of slots: what the context relies on when it takes and returns work items.
  A pool is a state with a set of free addresses; an allocation takes a free one or answers
  \<open>nullptr\<close> when there is none, a release puts one back. The consequences for runs of allocations
  are proved once here, from the contract.
\<close>

text \<open>A run of allocations: the addresses in the order they are handed out.\<close>

fun alloc_run :: "('p \<Rightarrow> addr \<times> 'p) \<Rightarrow> nat \<Rightarrow> 'p \<Rightarrow> addr list \<times> 'p" where
  "alloc_run alloc 0 p = ([], p)"
| "alloc_run alloc (Suc n) p =
     (let (v, p1) = alloc p; (vs, p2) = alloc_run alloc n p1 in (v # vs, p2))"

locale slot_pool =
  fixes alloc :: "'p \<Rightarrow> addr \<times> 'p"
    and free :: "addr \<Rightarrow> 'p \<Rightarrow> 'p"
    and slots :: "'p \<Rightarrow> addr set"
    and free_slots :: "'p \<Rightarrow> addr set"
    and invar :: "'p \<Rightarrow> bool"
  assumes alloc_some: "invar p \<Longrightarrow> free_slots p \<noteq> {} \<Longrightarrow> alloc p = (v, p') \<Longrightarrow>
      v \<in> free_slots p \<and> free_slots p' = free_slots p - {v} \<and> slots p' = slots p \<and> invar p'"
    and alloc_none: "invar p \<Longrightarrow> free_slots p = {} \<Longrightarrow> alloc p = (nullptr, p)"
    and free_slot: "invar p \<Longrightarrow> v \<in> slots p \<Longrightarrow>
      free_slots (free v p) = insert v (free_slots p) \<and> slots (free v p) = slots p \<and> invar (free v p)"
    and free_sub: "invar p \<Longrightarrow> free_slots p \<subseteq> slots p"
    and slots_finite: "invar p \<Longrightarrow> finite (slots p)"
    and slots_not_null: "invar p \<Longrightarrow> nullptr \<notin> slots p"
begin

text \<open>The slots handed out and not returned yet.\<close>

definition used :: "'p \<Rightarrow> addr set" where
  "used p = slots p - free_slots p"

lemma alloc_result:
  assumes "invar p" "alloc p = (v, p')"
  shows "(v = nullptr \<longleftrightarrow> free_slots p = {}) \<and> invar p' \<and> slots p' = slots p
    \<and> used p' = (if v = nullptr then used p else insert v (used p))"
proof (cases "free_slots p = {}")
  case True
  with alloc_none assms show ?thesis by auto
next
  case False
  have v: "v \<in> free_slots p" "free_slots p' = free_slots p - {v}" "slots p' = slots p" "invar p'"
    using alloc_some [OF assms(1) False assms(2)] by auto
  then have "v \<in> slots p" using free_sub [OF assms(1)] by auto
  with v slots_not_null [OF assms(1)] False show ?thesis by (auto simp: used_def)
qed

lemma alloc_fresh:
  assumes "invar p" "alloc p = (v, p')" "v \<noteq> nullptr"
  shows "v \<in> slots p \<and> v \<notin> used p"
proof -
  from assms have "free_slots p \<noteq> {}" using alloc_result by blast
  with alloc_some [OF assms(1) _ assms(2)] free_sub [OF assms(1)] show ?thesis
    by (auto simp: used_def)
qed

lemma free_used:
  assumes "invar p" "v \<in> used p"
  shows "used (free v p) = used p - {v} \<and> invar (free v p) \<and> slots (free v p) = slots p"
  using free_slot [OF assms(1), of v] assms(2) by (auto simp: used_def)

text \<open>An allocation undone by its release: the same slots are free as before.\<close>

lemma alloc_free:
  assumes "invar p" "alloc p = (v, p')" "v \<noteq> nullptr"
  shows "free_slots (free v p') = free_slots p \<and> invar (free v p')"
proof -
  from assms have ne: "free_slots p \<noteq> {}" using alloc_result by blast
  note a = alloc_some [OF assms(1) ne assms(2)]
  then have "v \<in> slots p'" using free_sub [OF assms(1)] by auto
  with free_slot [of p' v] a show ?thesis by auto
qed

text \<open>
  As many allocations as there are free slots succeed, with distinct addresses; every later one fails.
\<close>

lemma allocs_exhaust:
  assumes "invar p" "n \<le> card (free_slots p)" "alloc_run alloc n p = (vs, p')"
  shows "distinct vs \<and> set vs \<subseteq> free_slots p \<and> free_slots p' = free_slots p - set vs
    \<and> length vs = n \<and> invar p'"
  using assms
proof (induction n arbitrary: p vs)
  case 0
  then show ?case by auto
next
  case (Suc n)
  obtain v p1 ws where v: "alloc p = (v, p1)" and ws: "alloc_run alloc n p1 = (ws, p')" and vs: "vs = v # ws"
    using Suc.prems(3) by (auto split: prod.splits)
  have fin: "finite (free_slots p)"
    using free_sub slots_finite Suc.prems(1) finite_subset by blast
  have ne: "free_slots p \<noteq> {}" using Suc.prems(2) by auto
  note a = alloc_some [OF Suc.prems(1) ne v]
  have "n \<le> card (free_slots p1)" using a Suc.prems(2) fin by (auto simp: card_Diff_singleton)
  from Suc.IH [OF _ this ws] a vs show ?case by auto
qed

end

end
