(* ===== verification/Pool_Allocator.thy ===== *)
theory Pool_Allocator
  imports Pool_Interface "HOL-Library.Signed_Division"
begin

text \<open>
  The pool allocator of \<^verbatim>\<open>src/util/PoolAllocator.h\<close>: a block of \<open>capacity\<close> objects of
  \<^verbatim>\<open>sizeof(T)\<close> bytes and a bitmask with one bit per object, set while the object is available. The
  block and the mask come from the user's allocator; the model takes the block's address and keeps the
  mask as the list of its 32-bit words. The objects themselves are kept by the user of the pool (the
  work items, in theory \<open>File_Context\<close>), so \<open>alloc\<close> is the part up to the placement \<^verbatim>\<open>new\<close> and
  \<open>free\<close> the part after the destructor.
\<close>

record pool =
  pl_storage :: addr
  pl_objSize :: u64
  pl_bitmask :: "u32 list"
  pl_capacity :: u64
  pl_bitmaskCount :: u64

text \<open>\<^verbatim>\<open>lldiv\<close>: division of signed integers that truncates towards zero.\<close>

definition lldiv :: "int \<Rightarrow> int \<Rightarrow> int \<times> int" where
  "lldiv a b = (a sdiv b, a smod b)"

text \<open>The last word of the mask: \<^verbatim>\<open>newBitmask |= 1 << i\<close> for each of the remaining objects.\<close>

definition pl_partial_mask :: "nat \<Rightarrow> u32" where
  "pl_partial_mask r = fold (\<lambda>i m. m OR push_bit i 1) [0..<r] 0"

definition pl_new :: "addr \<Rightarrow> u64 \<Rightarrow> u64 \<Rightarrow> pool" where
  "pl_new storage objSize capacity =
     (let (quot, rem) = lldiv (sint capacity) 32
      in \<lparr>pl_storage = storage, pl_objSize = objSize,
          pl_bitmask = replicate (nat quot) 0xFFFFFFFF
            @ (if rem \<noteq> 0 then [pl_partial_mask (nat rem)] else []),
          pl_capacity = capacity,
          pl_bitmaskCount = word_of_int (quot + (if rem \<noteq> 0 then 1 else 0))\<rparr>)"

text \<open>\<^verbatim>\<open>ffs\<close>: one plus the index of the least significant bit that is set, 0 for no bit.\<close>

definition ffs :: "u32 \<Rightarrow> nat" where
  "ffs w = (case List.find (bit w) [0..<32] of None \<Rightarrow> 0 | Some i \<Rightarrow> Suc i)"

definition pl_getCapacity :: "pool \<Rightarrow> u64" where
  "pl_getCapacity p = pl_capacity p"

definition pl_alloc :: "pool \<Rightarrow> addr \<times> pool" where
  "pl_alloc p =
     (case List.find (\<lambda>i. pl_bitmask p ! i \<noteq> 0) [0..<unat (pl_bitmaskCount p)] of
        None \<Rightarrow> (nullptr, p)
      | Some i \<Rightarrow>
          let bit = ffs (pl_bitmask p ! i) - 1;
              index = of_nat i * 32 + of_nat bit
          in (pl_storage p + index * pl_objSize p,
              p\<lparr>pl_bitmask := (pl_bitmask p)[i := pl_bitmask p ! i AND NOT (push_bit bit 1)]\<rparr>))"

definition pl_free :: "addr \<Rightarrow> pool \<Rightarrow> pool" where
  "pl_free v p =
     (if v = nullptr \<or> v < pl_storage p \<or> v \<ge> pl_storage p + pl_capacity p * pl_objSize p then p
      else
        let index = (v - pl_storage p) div pl_objSize p;
            (quot, rem) = lldiv (sint index) 32
        in p\<lparr>pl_bitmask := (pl_bitmask p)[nat quot := pl_bitmask p ! nat quot OR push_bit (nat rem) 1]\<rparr>)"

subsection \<open>Well-formed pools\<close>

text \<open>
  The block lies in the address space and is not at address 0, its objects have a size, there are
  fewer than \<open>2\<^sup>6\<^sup>3\<close> of them, the mask has one bit for each, and the bits beyond the capacity are clear.
\<close>

definition pl_bit :: "pool \<Rightarrow> nat \<Rightarrow> bool" where
  "pl_bit p k = bit (pl_bitmask p ! (k div 32)) (k mod 32)"

definition pl_inv :: "pool \<Rightarrow> bool" where
  "pl_inv p \<longleftrightarrow>
     pl_storage p \<noteq> nullptr \<and> pl_objSize p \<noteq> 0
     \<and> unat (pl_storage p) + unat (pl_capacity p) * unat (pl_objSize p) < 2 ^ 64
     \<and> unat (pl_capacity p) < 2 ^ 63
     \<and> length (pl_bitmask p) = (unat (pl_capacity p) + 31) div 32
     \<and> unat (pl_bitmaskCount p) = length (pl_bitmask p)
     \<and> (\<forall>k < 32 * length (pl_bitmask p). pl_bit p k \<longrightarrow> k < unat (pl_capacity p))"

definition pl_addr :: "pool \<Rightarrow> nat \<Rightarrow> addr" where
  "pl_addr p k = pl_storage p + of_nat k * pl_objSize p"

definition pl_slots :: "pool \<Rightarrow> addr set" where
  "pl_slots p = pl_addr p ` {..<unat (pl_capacity p)}"

definition pl_free_slots :: "pool \<Rightarrow> addr set" where
  "pl_free_slots p = pl_addr p ` {k. k < unat (pl_capacity p) \<and> pl_bit p k}"

text \<open>Addresses of slots, read as naturals, do not wrap; so different slots have different addresses.\<close>

lemma unat_pl_addr:
  assumes "pl_inv p" "k \<le> unat (pl_capacity p)"
  shows "unat (pl_addr p k) = unat (pl_storage p) + k * unat (pl_objSize p)"
proof -
  have le: "k * unat (pl_objSize p) \<le> unat (pl_capacity p) * unat (pl_objSize p)"
    using assms(2) by simp
  have bound: "unat (pl_storage p) + unat (pl_capacity p) * unat (pl_objSize p) < 2 ^ 64"
    using assms(1) by (simp add: pl_inv_def)
  have k: "unat (of_nat k :: u64) = k"
    using assms(2) unsigned_less [of "pl_capacity p", where ?'a = nat]
    by (intro unat_of_nat_small) simp
  have "unat (of_nat k :: u64) * unat (pl_objSize p) < 2 ^ LENGTH(64)"
    unfolding k by (rule le_less_trans [OF le]) (use bound in simp)
  then have "unat (of_nat k * pl_objSize p) = k * unat (pl_objSize p)"
    by (simp only: unat_mult_small k)
  moreover have "unat (pl_storage p) + k * unat (pl_objSize p) < 2 ^ 64"
    using le bound by linarith
  ultimately show ?thesis
    unfolding pl_addr_def by (subst unat_add_small) simp_all
qed

lemma pl_addr_eq_iff:
  assumes "pl_inv p" "j \<le> unat (pl_capacity p)" "k \<le> unat (pl_capacity p)"
  shows "pl_addr p j = pl_addr p k \<longleftrightarrow> j = k"
proof -
  have "unat (pl_objSize p) \<noteq> 0"
    using assms(1) by (auto simp: pl_inv_def unat_eq_0)
  then show ?thesis
    using assms by (simp add: word_unat_eq_iff unat_pl_addr)
qed

lemma pl_addr_not_null:
  assumes "pl_inv p" "k \<le> unat (pl_capacity p)"
  shows "pl_addr p k \<noteq> nullptr"
proof -
  have "unat (pl_storage p) \<noteq> 0" using assms(1) by (auto simp: pl_inv_def unat_eq_0)
  then show ?thesis using unat_pl_addr [OF assms] by (auto simp: word_unat_eq_iff)
qed

lemma lldiv_nonneg: "0 \<le> a \<Longrightarrow> lldiv a 32 = (a div 32, a mod 32)"
  by (cases "a = 0") (simp_all add: lldiv_def signed_divide_int_def signed_modulo_int_def)

lemma mask_length_bound: "k < 32 * ((c + 31) div 32) \<Longrightarrow> k div 32 < (c + 31) div (32::nat)"
  by (simp add: less_mult_imp_div_less mult.commute)

lemma slot_in_mask: "k < c \<Longrightarrow> k < 32 * ((c + 31) div (32::nat))"
  by presburger

lemma ffs_bit:
  assumes "w \<noteq> 0"
  shows "ffs w - 1 < 32 \<and> bit w (ffs w - 1)"
proof -
  from assms obtain n where "bit w n" by (auto simp: bit_eq_iff)
  moreover from this have "n < 32" using bit_imp_le_length [of w n] by simp
  ultimately obtain i where "List.find (bit w) [0..<32] = Some i"
    by (cases "List.find (bit w) [0..<32]") (auto simp: find_None_iff)
  moreover from this have "i < 32" "bit w i" by (auto simp: find_Some_iff)
  ultimately show ?thesis by (simp add: ffs_def)
qed

lemma bit_clear: "n < 32 \<Longrightarrow> bit (w AND NOT (2 ^ b) :: u32) n \<longleftrightarrow> bit w n \<and> n \<noteq> b"
  by (auto simp: bit_simps)

lemma bit_set: "n < 32 \<Longrightarrow> bit (w OR 2 ^ b :: u32) n \<longleftrightarrow> bit w n \<or> n = b"
  by (auto simp: bit_simps)

text \<open>The effect of an update of one mask word on the bits of the pool.\<close>

lemma pl_bit_clear:
  assumes "i < length (pl_bitmask p)" "b < 32" "k < 32 * length (pl_bitmask p)"
  shows "pl_bit (p\<lparr>pl_bitmask := (pl_bitmask p)[i := pl_bitmask p ! i AND NOT (push_bit b 1)]\<rparr>) k
    \<longleftrightarrow> pl_bit p k \<and> k \<noteq> 32 * i + b"
proof (cases "k div 32 = i")
  case True
  with assms(2) have "k mod 32 = b \<longleftrightarrow> k = 32 * i + b" by presburger
  with True assms(1) show ?thesis by (simp add: pl_bit_def bit_clear)
next
  case False
  then show ?thesis using assms by (auto simp: pl_bit_def)
qed

lemma pl_bit_set:
  assumes "i < length (pl_bitmask p)" "b < 32" "k < 32 * length (pl_bitmask p)"
  shows "pl_bit (p\<lparr>pl_bitmask := (pl_bitmask p)[i := pl_bitmask p ! i OR push_bit b 1]\<rparr>) k
    \<longleftrightarrow> pl_bit p k \<or> k = 32 * i + b"
proof (cases "k div 32 = i")
  case True
  with assms(2) have "k mod 32 = b \<longleftrightarrow> k = 32 * i + b" by presburger
  with True assms(1) show ?thesis by (simp add: pl_bit_def bit_set)
next
  case False
  then show ?thesis using assms by (auto simp: pl_bit_def)
qed

lemma pl_addr_update [simp]: "pl_addr (p\<lparr>pl_bitmask := m\<rparr>) k = pl_addr p k"
  by (simp add: pl_addr_def)

lemma pl_inv_mask:
  assumes "pl_inv p" "length m = length (pl_bitmask p)"
    and "\<And>k. k < 32 * length m \<Longrightarrow> pl_bit (p\<lparr>pl_bitmask := m\<rparr>) k \<Longrightarrow> k < unat (pl_capacity p)"
  shows "pl_inv (p\<lparr>pl_bitmask := m\<rparr>)"
  using assms by (auto simp: pl_inv_def)

lemma pl_inv_mask_length:
  assumes "pl_inv p" "k < unat (pl_capacity p)"
  shows "k < 32 * length (pl_bitmask p)" "k div 32 < length (pl_bitmask p)"
  using assms slot_in_mask [OF assms(2)] mask_length_bound [of k "unat (pl_capacity p)"]
  by (auto simp: pl_inv_def)

subsection \<open>Allocation and release on the free slots\<close>

lemma pl_free_slots_empty_iff:
  assumes "pl_inv p"
  shows "pl_free_slots p = {} \<longleftrightarrow> (\<forall>i < length (pl_bitmask p). pl_bitmask p ! i = 0)"
proof
  assume none: "pl_free_slots p = {}"
  show "\<forall>i < length (pl_bitmask p). pl_bitmask p ! i = 0"
  proof (intro allI impI, rule ccontr)
    fix i
    assume i: "i < length (pl_bitmask p)" and ne: "pl_bitmask p ! i \<noteq> 0"
    let ?k = "32 * i + (ffs (pl_bitmask p ! i) - 1)"
    from ffs_bit [OF ne] have "pl_bit p ?k" and "?k < 32 * length (pl_bitmask p)"
      using i by (auto simp: pl_bit_def)
    with assms have "?k < unat (pl_capacity p)" by (auto simp: pl_inv_def)
    with \<open>pl_bit p ?k\<close> none show False by (auto simp: pl_free_slots_def)
  qed
next
  assume zero: "\<forall>i < length (pl_bitmask p). pl_bitmask p ! i = 0"
  show "pl_free_slots p = {}"
    using pl_inv_mask_length [OF assms] zero by (auto simp: pl_free_slots_def pl_bit_def)
qed

lemma pl_alloc_none:
  assumes "pl_inv p" "pl_free_slots p = {}"
  shows "pl_alloc p = (nullptr, p)"
proof -
  have "List.find (\<lambda>i. pl_bitmask p ! i \<noteq> 0) [0..<unat (pl_bitmaskCount p)] = None"
    using assms pl_free_slots_empty_iff [OF assms(1)] by (auto simp: find_None_iff pl_inv_def)
  then show ?thesis by (simp add: pl_alloc_def)
qed

text \<open>An allocation takes the lowest free index and clears its bit, and no other.\<close>

lemma pl_alloc_index:
  assumes inv: "pl_inv p" and ne: "pl_free_slots p \<noteq> {}"
  shows "\<exists>k m. pl_alloc p = (pl_addr p k, p\<lparr>pl_bitmask := m\<rparr>) \<and> k < unat (pl_capacity p)
    \<and> pl_bit p k \<and> length m = length (pl_bitmask p)
    \<and> (\<forall>j < 32 * length m. pl_bit (p\<lparr>pl_bitmask := m\<rparr>) j \<longleftrightarrow> pl_bit p j \<and> j \<noteq> k)"
proof -
  let ?bm = "pl_bitmask p"
  from ne obtain i0 where i0: "i0 < length ?bm" "?bm ! i0 \<noteq> 0"
    using pl_free_slots_empty_iff [OF inv] by auto
  have cnt: "unat (pl_bitmaskCount p) = length ?bm" using inv by (simp add: pl_inv_def)
  obtain i where i: "List.find (\<lambda>i. ?bm ! i \<noteq> 0) [0..<length ?bm] = Some i"
    using i0 by (cases "List.find (\<lambda>i. ?bm ! i \<noteq> 0) [0..<length ?bm]") (auto simp: find_None_iff)
  then have il: "i < length ?bm" and inz: "?bm ! i \<noteq> 0" by (auto simp: find_Some_iff)
  let ?b = "ffs (?bm ! i) - 1" and ?m = "?bm[i := ?bm ! i AND NOT (push_bit (ffs (?bm ! i) - 1) 1)]"
  let ?k = "32 * i + ?b"
  note f = ffs_bit [OF inz]
  have bit: "pl_bit p ?k" and kl: "?k < 32 * length ?bm"
    using f il by (auto simp: pl_bit_def)
  then have kc: "?k < unat (pl_capacity p)" using inv by (auto simp: pl_inv_def)
  have "(of_nat i * 32 + of_nat ?b :: u64) = of_nat ?k" by (simp add: mult.commute)
  with i cnt have "pl_alloc p = (pl_addr p ?k, p\<lparr>pl_bitmask := ?m\<rparr>)"
    by (simp add: pl_alloc_def pl_addr_def Let_def mult.commute)
  moreover have "\<forall>j < 32 * length ?m. pl_bit (p\<lparr>pl_bitmask := ?m\<rparr>) j \<longleftrightarrow> pl_bit p j \<and> j \<noteq> ?k"
    using pl_bit_clear [OF il, of ?b] f by simp
  ultimately show ?thesis using kc bit by (intro exI [of _ ?k] exI [of _ ?m]) simp
qed

lemma pl_alloc_some:
  assumes inv: "pl_inv p" and ne: "pl_free_slots p \<noteq> {}" and a: "pl_alloc p = (v, p')"
  shows "v \<in> pl_free_slots p \<and> pl_free_slots p' = pl_free_slots p - {v} \<and> pl_slots p' = pl_slots p
    \<and> pl_inv p'"
proof -
  from pl_alloc_index [OF inv ne] a obtain k m where
    v: "v = pl_addr p k" and p': "p' = p\<lparr>pl_bitmask := m\<rparr>" and k: "k < unat (pl_capacity p)" "pl_bit p k"
    and len: "length m = length (pl_bitmask p)"
    and bits: "\<forall>j < 32 * length m. pl_bit (p\<lparr>pl_bitmask := m\<rparr>) j \<longleftrightarrow> pl_bit p j \<and> j \<noteq> k"
    by auto
  have "pl_bit p' j \<longleftrightarrow> pl_bit p j \<and> j \<noteq> k" if "j < unat (pl_capacity p)" for j
    using bits len p' pl_inv_mask_length(1) [OF inv that] by simp
  then have "pl_free_slots p' = pl_free_slots p - {v}"
    using pl_addr_eq_iff [OF inv] k(1) by (auto simp: pl_free_slots_def p' v)
  moreover have "pl_inv p'"
    unfolding p' by (rule pl_inv_mask [OF inv len]) (use bits inv len in \<open>auto simp: pl_inv_def\<close>)
  ultimately show ?thesis using k by (auto simp: v p' pl_free_slots_def pl_slots_def)
qed

text \<open>
  The index a released address stands for. An address inside the block that is not the start of an
  object stands for the object it lies in.
\<close>

lemma pl_free_index:
  assumes inv: "pl_inv p" and k: "k < unat (pl_capacity p)" and o: "unat off < unat (pl_objSize p)"
  shows "\<exists>m. pl_free (pl_addr p k + off) p = p\<lparr>pl_bitmask := m\<rparr> \<and> length m = length (pl_bitmask p)
    \<and> (\<forall>j < 32 * length m. pl_bit (p\<lparr>pl_bitmask := m\<rparr>) j \<longleftrightarrow> pl_bit p j \<or> j = k)"
proof -
  let ?v = "pl_addr p k + off" and ?s = "unat (pl_storage p)" and ?o = "unat (pl_objSize p)"
  let ?c = "unat (pl_capacity p)" and ?bm = "pl_bitmask p"
  have bound: "?s + ?c * ?o < 2 ^ 64" and c: "?c < 2 ^ 63" and o0: "?o \<noteq> 0" and s0: "?s \<noteq> 0"
    using inv by (auto simp: pl_inv_def unat_eq_0)
  have kc: "Suc k * ?o \<le> ?c * ?o" using k by (intro mult_le_mono1) simp
  have addr: "unat (pl_addr p k) = ?s + k * ?o" using unat_pl_addr [OF inv, of k] k by simp
  have "unat (pl_addr p k) + unat off < 2 ^ LENGTH(64)" using addr o kc bound by simp
  then have v: "unat ?v = ?s + k * ?o + unat off" by (simp add: unat_add_small addr)
  have "unat (pl_capacity p * pl_objSize p) = ?c * ?o"
    using bound by (intro unat_mult_small) simp
  then have end_addr: "unat (pl_storage p + pl_capacity p * pl_objSize p) = ?s + ?c * ?o"
    using bound by (subst unat_add_small) simp_all
  have guard: "\<not> (?v = nullptr \<or> ?v < pl_storage p \<or> ?v \<ge> pl_storage p + pl_capacity p * pl_objSize p)"
    using v o kc s0 by (auto simp: word_less_nat_alt word_le_nat_alt end_addr word_unat_eq_iff)
  have diff: "unat (?v - pl_storage p) = k * ?o + unat off"
    using v by (subst unat_sub_le) (auto simp: word_le_nat_alt)
  have "unat ((?v - pl_storage p) div pl_objSize p) = (k * ?o + unat off) div ?o"
    by (simp add: unat_div_distrib diff)
  also have "\<dots> = k" using o o0 by simp
  finally have idx: "(?v - pl_storage p) div pl_objSize p = of_nat k"
    by (metis of_nat_unat ucast_id)
  have "sint (of_nat k :: u64) = int k"
    using k c by (intro sint_of_nat_small) simp
  then have div: "lldiv (sint (of_nat k :: u64)) 32 = (int (k div 32), int (k mod 32))"
    by (simp add: lldiv_nonneg zdiv_int zmod_int)
  let ?m = "?bm[k div 32 := ?bm ! (k div 32) OR push_bit (k mod 32) 1]"
  have "pl_free ?v p = p\<lparr>pl_bitmask := ?m\<rparr>"
    unfolding pl_free_def using guard by (simp only: if_False Let_def idx div prod.case nat_int)
  moreover have "\<forall>j < 32 * length ?m. pl_bit (p\<lparr>pl_bitmask := ?m\<rparr>) j \<longleftrightarrow> pl_bit p j \<or> j = k"
    using pl_bit_set [OF pl_inv_mask_length(2) [OF inv k], of "k mod 32"] by simp
  ultimately show ?thesis by (intro exI [of _ ?m]) simp
qed

text \<open>What a release does to an address that is not in the block: nothing.\<close>

lemma pl_free_outside:
  assumes "pl_inv p"
    and "unat v < unat (pl_storage p)
      \<or> unat (pl_storage p) + unat (pl_capacity p) * unat (pl_objSize p) \<le> unat v"
  shows "pl_free v p = p"
proof -
  have "unat (pl_storage p) + unat (pl_capacity p) * unat (pl_objSize p) < 2 ^ 64"
    using assms(1) by (simp add: pl_inv_def)
  then have "unat (pl_storage p + pl_capacity p * pl_objSize p)
      = unat (pl_storage p) + unat (pl_capacity p) * unat (pl_objSize p)"
    by (subst unat_add_small, simp_all add: unat_mult_small)
  with assms(2) show ?thesis
    by (auto simp: pl_free_def word_less_nat_alt word_le_nat_alt)
qed

lemma pl_free_slot:
  assumes inv: "pl_inv p" and k: "k < unat (pl_capacity p)" and o: "unat off < unat (pl_objSize p)"
  shows "pl_free_slots (pl_free (pl_addr p k + off) p) = insert (pl_addr p k) (pl_free_slots p)
    \<and> pl_slots (pl_free (pl_addr p k + off) p) = pl_slots p \<and> pl_inv (pl_free (pl_addr p k + off) p)"
proof -
  from pl_free_index [OF inv k o] obtain m where
    f: "pl_free (pl_addr p k + off) p = p\<lparr>pl_bitmask := m\<rparr>" and len: "length m = length (pl_bitmask p)"
    and bits: "\<forall>j < 32 * length m. pl_bit (p\<lparr>pl_bitmask := m\<rparr>) j \<longleftrightarrow> pl_bit p j \<or> j = k"
    by auto
  have "pl_bit (p\<lparr>pl_bitmask := m\<rparr>) j \<longleftrightarrow> pl_bit p j \<or> j = k" if "j < unat (pl_capacity p)" for j
    using bits len pl_inv_mask_length(1) [OF inv that] by simp
  then have "pl_free_slots (p\<lparr>pl_bitmask := m\<rparr>) = insert (pl_addr p k) (pl_free_slots p)"
    using k by (auto simp: pl_free_slots_def)
  moreover have "pl_inv (p\<lparr>pl_bitmask := m\<rparr>)"
    by (rule pl_inv_mask [OF inv len]) (use bits inv len k in \<open>auto simp: pl_inv_def\<close>)
  ultimately show ?thesis by (simp add: f pl_slots_def)
qed

interpretation wp: slot_pool pl_alloc pl_free pl_slots pl_free_slots pl_inv
proof unfold_locales
  fix p p' v
  assume inv: "pl_inv p"
  show "v \<in> pl_free_slots p \<and> pl_free_slots p' = pl_free_slots p - {v} \<and> pl_slots p' = pl_slots p
      \<and> pl_inv p'"
    if "pl_free_slots p \<noteq> {}" "pl_alloc p = (v, p')"
    using pl_alloc_some [OF inv that] .
  show "pl_alloc p = (nullptr, p)" if "pl_free_slots p = {}"
    using pl_alloc_none [OF inv that] .
  show "pl_free_slots (pl_free v p) = insert v (pl_free_slots p) \<and> pl_slots (pl_free v p) = pl_slots p
      \<and> pl_inv (pl_free v p)"
    if "v \<in> pl_slots p"
  proof -
    from that obtain k where k: "k < unat (pl_capacity p)" "v = pl_addr p k" by (auto simp: pl_slots_def)
    have "unat (0::u64) < unat (pl_objSize p)" using inv by (auto simp: pl_inv_def unat_gt_0)
    from pl_free_slot [OF inv k(1) this] show ?thesis by (simp add: k(2))
  qed
  show "pl_free_slots p \<subseteq> pl_slots p" by (auto simp: pl_free_slots_def pl_slots_def)
  show "finite (pl_slots p)" by (simp add: pl_slots_def)
  show "nullptr \<notin> pl_slots p" using pl_addr_not_null [OF inv] by (fastforce simp: pl_slots_def)
qed

subsection \<open>The constructor\<close>

lemma bit_all_ones:
  assumes "n < 32"
  shows "bit (0xFFFFFFFF :: u32) n"
proof -
  have "(0xFFFFFFFF :: u32) = - 1" by simp
  then show ?thesis using assms by (simp only: bit_minus_1_iff) simp
qed

lemma bit_pl_partial_mask: "r \<le> 32 \<Longrightarrow> bit (pl_partial_mask r) n \<longleftrightarrow> n < r"
proof (induction r arbitrary: n)
  case 0
  then show ?case by (simp add: pl_partial_mask_def)
next
  case (Suc r)
  have mask: "pl_partial_mask (Suc r) = pl_partial_mask r OR push_bit r 1"
    by (simp add: pl_partial_mask_def)
  have one: "bit (push_bit r 1 :: u32) n \<longleftrightarrow> n = r" using Suc.prems by (auto simp: bit_simps)
  from Suc.IH [of n] Suc.prems show ?case
    unfolding mask bit_or_iff one by auto
qed

lemma ceil32: "n div 32 + (if n mod 32 \<noteq> 0 then 1 else 0) = (n + 31) div (32::nat)"
proof -
  define q r where "q = n div 32" and "r = n mod 32"
  have "n + 31 = r + 31 + 32 * q" by (simp add: q_def r_def)
  then have "(n + 31) div 32 = q + (r + 31) div 32" by simp
  moreover have "(r + 31) div 32 = (if r \<noteq> 0 then 1 else 0)"
    using mod_less_divisor [of 32 n] unfolding r_def [symmetric] by (auto intro: div_nat_eqI)
  ultimately show ?thesis by (simp add: q_def r_def)
qed

lemma pl_new_nat:
  assumes "sint capacity = int n"
  shows "pl_new storage objSize capacity = \<lparr>pl_storage = storage, pl_objSize = objSize,
      pl_bitmask = replicate (n div 32) 0xFFFFFFFF
        @ (if n mod 32 \<noteq> 0 then [pl_partial_mask (n mod 32)] else []),
      pl_capacity = capacity,
      pl_bitmaskCount = of_nat (n div 32 + (if n mod 32 \<noteq> 0 then 1 else 0))\<rparr>"
proof -
  have d: "lldiv (sint capacity) 32 = (int (n div 32), int (n mod 32))"
    by (simp add: assms lldiv_nonneg zdiv_int zmod_int)
  have w: "word_of_int (int (n div 32) + (if n mod 32 \<noteq> 0 then 1 else 0))
      = (of_nat (n div 32 + (if n mod 32 \<noteq> 0 then 1 else 0)) :: u64)"
    by (cases "n mod 32 = 0") simp_all
  have z: "int (n mod 32) \<noteq> 0 \<longleftrightarrow> n mod 32 \<noteq> 0" by simp
  show ?thesis
    unfolding pl_new_def d Let_def prod.case w nat_int z ..
qed

lemma pl_new_inv:
  assumes "storage \<noteq> nullptr" "objSize \<noteq> 0" "unat capacity < 2 ^ 63"
    and "unat storage + unat capacity * unat objSize < 2 ^ 64"
  shows "pl_inv (pl_new storage objSize capacity)
    \<and> pl_free_slots (pl_new storage objSize capacity) = pl_slots (pl_new storage objSize capacity)
    \<and> card (pl_slots (pl_new storage objSize capacity)) = unat capacity"
proof -
  let ?p = "pl_new storage objSize capacity"
  define c where "c = unat capacity"
  have c: "c < 2 ^ 63" "unat storage + c * unat objSize < 2 ^ 64"
    using assms(3,4) by (simp_all add: c_def)
  have "sint capacity = int c"
    using sint_of_nat_small [OF assms(3)] by (simp add: c_def)
  note new = pl_new_nat [OF this, of storage objSize]
  have len: "length (pl_bitmask ?p) = (c + 31) div 32"
    unfolding new ceil32 [symmetric] by simp
  have "(c + 31) div 32 < 2 ^ LENGTH(64)" using c(1) by simp
  then have cnt: "unat (pl_bitmaskCount ?p) = length (pl_bitmask ?p)"
    unfolding len unfolding new ceil32 by (simp add: unat_of_nat_small)
  have bits: "pl_bit ?p k \<longleftrightarrow> k < c" if "k < 32 * length (pl_bitmask ?p)" for k
  proof (cases "k div 32 < c div 32")
    case True
    have "bit (0xFFFFFFFF :: u32) (k mod 32)" by (rule bit_all_ones) simp
    with True have "pl_bit ?p k"
      unfolding new pl_bit_def by (simp only: pool.select_convs nth_append length_replicate
        if_True nth_replicate)
    moreover from True have "k < c" by (meson div_le_mono leD not_le_imp_less)
    ultimately show ?thesis by simp
  next
    case False
    moreover have "k div 32 < c div 32 + (if c mod 32 \<noteq> 0 then 1 else 0)"
      unfolding ceil32 using mask_length_bound that len by simp
    ultimately have k: "k div 32 = c div 32" and r: "c mod 32 \<noteq> 0"
      by (auto split: if_splits)
    from k have "k < c \<longleftrightarrow> k mod 32 < c mod 32"
      by (metis div_mult_mod_eq nat_add_left_cancel_less)
    then show ?thesis
      unfolding new pl_bit_def using k r by (simp add: nth_append bit_pl_partial_mask)
  qed
  have fields: "pl_storage ?p = storage" "pl_objSize ?p = objSize" "pl_capacity ?p = capacity"
    unfolding new by simp_all
  have inv: "pl_inv ?p"
    unfolding pl_inv_def fields c_def [symmetric] using assms(1,2) c len cnt bits by simp
  have "pl_bit ?p k" if "k < c" for k
    using bits [of k] that len slot_in_mask [OF that] by simp
  then have "pl_free_slots ?p = pl_slots ?p"
    by (auto simp: pl_free_slots_def pl_slots_def fields c_def)
  moreover have "inj_on (pl_addr ?p) {..<c}"
    using pl_addr_eq_iff [OF inv] by (auto simp: inj_on_def fields c_def)
  then have "card (pl_slots ?p) = unat capacity"
    by (simp add: pl_slots_def fields card_image c_def)
  ultimately show ?thesis using inv by blast
qed

text \<open>Two pools that differ at most in their masks, with the same bits, are the same pool.\<close>

lemma pl_eqI:
  assumes "p' = p\<lparr>pl_bitmask := m\<rparr>" "length m = length (pl_bitmask p)"
    and "\<And>k. k < 32 * length m \<Longrightarrow> pl_bit p' k \<longleftrightarrow> pl_bit p k"
  shows "p' = p"
proof -
  have "m ! i = pl_bitmask p ! i" if i: "i < length m" for i
  proof (rule bit_word_eqI)
    fix n :: nat
    assume "n < LENGTH(32)"
    then have "32 * i + n < 32 * length m" "(32 * i + n) div 32 = i" "(32 * i + n) mod 32 = n"
      using i by simp_all
    with assms(3) [of "32 * i + n"] show "bit (m ! i) n \<longleftrightarrow> bit (pl_bitmask p ! i) n"
      by (simp add: pl_bit_def assms(1))
  qed
  with assms(2) have "m = pl_bitmask p" by (simp add: list_eq_iff_nth_eq)
  then show ?thesis by (simp add: assms(1))
qed

subsection \<open>Properties\<close>

text \<open>
  C14: a pool built by the constructor hands out exactly \<open>capacity\<close> objects: the first \<open>capacity\<close>
  allocations succeed and give pairwise different addresses of objects of the block, and the next one
  answers \<^verbatim>\<open>nullptr\<close>.
\<close>

theorem pool_hands_out_capacity:
  assumes "storage \<noteq> nullptr" "objSize \<noteq> 0" "unat capacity < 2 ^ 63"
    and "unat storage + unat capacity * unat objSize < 2 ^ 64"
    and "n \<le> unat capacity"
    and "alloc_run pl_alloc n (pl_new storage objSize capacity) = (vs, p)"
  shows "length vs = n \<and> distinct vs \<and> set vs \<subseteq> pl_slots (pl_new storage objSize capacity)
    \<and> nullptr \<notin> set vs \<and> pl_inv p \<and> (fst (pl_alloc p) = nullptr \<longleftrightarrow> n = unat capacity)"
proof -
  let ?p = "pl_new storage objSize capacity"
  from pl_new_inv [OF assms(1-4)] have inv: "pl_inv ?p" and free: "pl_free_slots ?p = pl_slots ?p"
    and card: "card (pl_slots ?p) = unat capacity" by blast+
  have r: "distinct vs" "set vs \<subseteq> pl_slots ?p" "pl_free_slots p = pl_slots ?p - set vs"
    "length vs = n" "pl_inv p"
    using wp.allocs_exhaust [OF inv _ assms(6)] assms(5) free card by auto
  have "pl_slots ?p = set vs \<longleftrightarrow> n = unat capacity"
    using r card wp.slots_finite [OF inv] by (metis card_subset_eq distinct_card)
  moreover have "fst (pl_alloc p) = nullptr \<longleftrightarrow> pl_free_slots p = {}"
    using wp.alloc_result [OF r(5), of "fst (pl_alloc p)" "snd (pl_alloc p)"] by simp
  ultimately show ?thesis using r wp.slots_not_null [OF inv] by auto
qed

lemma pool_hands_out_capacity_witness:
  "fst (pl_alloc (snd (alloc_run pl_alloc 3 (pl_new 4096 120 3)))) = nullptr"
proof -
  obtain vs p where r: "alloc_run pl_alloc 3 (pl_new 4096 120 3) = (vs, p)" by force
  show ?thesis
    using pool_hands_out_capacity [of 4096 120 3 3 vs p] r by simp
qed

text \<open>
  An allocation takes one free object and nothing else: it fails exactly when none is free, the
  address it gives was free and is in use afterwards, and no other object changes.
\<close>

theorem pool_alloc_takes_one:
  assumes "pl_inv p" "pl_alloc p = (v, p')"
  shows "(v = nullptr \<longleftrightarrow> pl_free_slots p = {}) \<and> pl_inv p'
    \<and> (v = nullptr \<longrightarrow> p' = p)
    \<and> (v \<noteq> nullptr \<longrightarrow> v \<in> pl_free_slots p \<and> pl_free_slots p' = pl_free_slots p - {v})"
proof (cases "pl_free_slots p = {}")
  case True
  with wp.alloc_none [OF assms(1)] assms show ?thesis by simp
next
  case False
  have "v \<noteq> nullptr" using wp.alloc_result [OF assms] False by simp
  with wp.alloc_some [OF assms(1) False assms(2)] False show ?thesis by simp
qed

lemma pool_alloc_takes_one_witness:
  "pl_alloc \<lparr>pl_storage = 64, pl_objSize = 8, pl_bitmask = [0], pl_capacity = 1,
     pl_bitmaskCount = 1\<rparr> = (nullptr, \<lparr>pl_storage = 64, pl_objSize = 8, pl_bitmask = [0],
       pl_capacity = 1, pl_bitmaskCount = 1\<rparr>)"
proof -
  let ?p = "\<lparr>pl_storage = 64, pl_objSize = 8, pl_bitmask = [0], pl_capacity = 1,
    pl_bitmaskCount = 1\<rparr>"
  have inv: "pl_inv ?p" by (simp add: pl_inv_def pl_bit_def)
  have "pl_free_slots ?p = {}" by (auto simp: pl_free_slots_def pl_bit_def)
  with pool_alloc_takes_one [OF inv surjective_pairing] show ?thesis by (metis prod.collapse)
qed

text \<open>
  Releasing the address an allocation gave restores the pool bit for bit.
\<close>

theorem pool_alloc_free_roundtrip:
  assumes "pl_inv p" "pl_alloc p = (v, p')" "v \<noteq> nullptr"
  shows "pl_free v p' = p"
proof -
  have ne: "pl_free_slots p \<noteq> {}" using wp.alloc_result [OF assms(1,2)] assms(3) by simp
  from pl_alloc_index [OF assms(1) ne] assms(2) obtain k m where
    v: "v = pl_addr p k" and p': "p' = p\<lparr>pl_bitmask := m\<rparr>" and k: "k < unat (pl_capacity p)" "pl_bit p k"
    and len: "length m = length (pl_bitmask p)"
    and bits: "\<forall>j < 32 * length m. pl_bit p' j \<longleftrightarrow> pl_bit p j \<and> j \<noteq> k"
    by auto
  have inv': "pl_inv p'" using pl_alloc_some [OF assms(1) ne assms(2)] by simp
  have "unat (0::u64) < unat (pl_objSize p')" using inv' by (auto simp: pl_inv_def unat_gt_0)
  moreover have "k < unat (pl_capacity p')" using k by (simp add: p')
  ultimately obtain m' where f: "pl_free (pl_addr p' k + 0) p' = p'\<lparr>pl_bitmask := m'\<rparr>"
    and len': "length m' = length (pl_bitmask p')"
    and bits': "\<forall>j < 32 * length m'. pl_bit (p'\<lparr>pl_bitmask := m'\<rparr>) j \<longleftrightarrow> pl_bit p' j \<or> j = k"
    using pl_free_index [OF inv', of k 0] by blast
  from f have f': "pl_free v p' = p\<lparr>pl_bitmask := m'\<rparr>" by (simp add: p' v)
  have l: "length m' = length m" using len' by (simp add: p')
  show ?thesis
  proof (rule pl_eqI [OF f'])
    show "length m' = length (pl_bitmask p)" using l len by simp
    fix j
    assume "j < 32 * length m'"
    with bits bits' l f f' v p' k(2) show "pl_bit (pl_free v p') j \<longleftrightarrow> pl_bit p j" by auto
  qed
qed

lemma pool_alloc_free_roundtrip_witness:
  "pl_free (fst (pl_alloc (pl_new 4096 120 40))) (snd (pl_alloc (pl_new 4096 120 40)))
    = pl_new 4096 120 40"
proof -
  have n: "pl_inv (pl_new 4096 120 40)" "card (pl_slots (pl_new 4096 120 40)) = 40"
    "pl_free_slots (pl_new 4096 120 40) = pl_slots (pl_new 4096 120 40)"
    using pl_new_inv [of 4096 120 40] by simp_all
  then have "pl_free_slots (pl_new 4096 120 40) \<noteq> {}" by auto
  with n
  have "fst (pl_alloc (pl_new 4096 120 40)) \<noteq> nullptr"
    using wp.alloc_result [OF n(1) surjective_pairing] by simp
  from pool_alloc_free_roundtrip [OF n(1) surjective_pairing this] show ?thesis .
qed

text \<open>
  A release frees the object the address lies in, also for an address inside the object, and no
  other; an address outside the block, or \<^verbatim>\<open>nullptr\<close>, changes nothing.
\<close>

theorem pool_free_object:
  assumes "pl_inv p"
  shows "pl_free nullptr p = p
    \<and> (unat v < unat (pl_storage p)
        \<or> unat (pl_storage p) + unat (pl_capacity p) * unat (pl_objSize p) \<le> unat v
        \<longrightarrow> pl_free v p = p)
    \<and> (k < unat (pl_capacity p) \<and> off < pl_objSize p
        \<longrightarrow> pl_free_slots (pl_free (pl_addr p k + off) p) = insert (pl_addr p k) (pl_free_slots p)
          \<and> pl_inv (pl_free (pl_addr p k + off) p))"
  using pl_free_outside [OF assms] pl_free_slot [OF assms, of k off]
  by (auto simp: pl_free_def word_less_nat_alt)

lemma pool_free_object_witness:
  "pl_free_slots (pl_free 4221 (pl_new 4096 120 2)) \<noteq> {}"
proof -
  have n: "pl_inv (pl_new 4096 120 2)" and f: "pl_objSize (pl_new 4096 120 2) = 120"
    "pl_capacity (pl_new 4096 120 2) = 2" "pl_addr (pl_new 4096 120 2) 1 + 5 = 4221"
    using pl_new_inv [of 4096 120 2] by (simp_all add: pl_new_def pl_addr_def lldiv_nonneg)
  show ?thesis using pool_free_object [OF n, of 0 1 5] unfolding f by simp
qed

end
