(* ===== verification/Normalize_Path.thy ===== *)
theory Normalize_Path
  imports Shared_Types
begin

text \<open>
  \<^verbatim>\<open>FileContext::normalizePath\<close> of \<^verbatim>\<open>src/FileContext.cpp\<close>: the in-place normalisation of a
  path buffer. The model keeps the buffer and the two positions of the code, with one function for
  each of its three nested loops. Positions are naturals here; theory \<open>Normalize_Bounds\<close> has the same
  code on 32-bit positions with checked buffer accesses and shows that it computes the same result.

  The specification \<open>normalize_spec\<close> works on the segments between slashes with a stack, and the main
  result is that the code computes it.
\<close>

abbreviation slash :: char where
  "slash \<equiv> CHR ''/''"

abbreviation dot :: char where
  "dot \<equiv> CHR ''.''"

subsection \<open>The code\<close>

text \<open>The scan back to the start of the last component, and the step over its slash.\<close>

fun pop_scan :: "char list \<Rightarrow> nat \<Rightarrow> nat" where
  "pop_scan path 0 = 0"
| "pop_scan path (Suc w) = (if c_at path w \<noteq> slash then pop_scan path w else Suc w)"

definition pop_dir :: "char list \<Rightarrow> nat \<Rightarrow> nat" where
  "pop_dir path writePos =
     (let w = pop_scan path writePos in if w \<noteq> 0 then w - 1 else w)"

text \<open>The inner \<^verbatim>\<open>do ... while (found)\<close> loop: the two positions after it.\<close>

function skip_loop :: "char list \<Rightarrow> nat \<Rightarrow> nat \<Rightarrow> nat \<times> nat" where
  "skip_loop path writePos readPos =
     (if c_at path readPos = slash then
        if c_at path (readPos + 1) = slash then
          skip_loop path writePos (readPos + 1)
        else if c_at path (readPos + 1) = dot then
          if c_at path (readPos + 2) = dot
             \<and> (c_at path (readPos + 3) = NUL \<or> c_at path (readPos + 3) = slash) then
            skip_loop path (pop_dir path writePos) (readPos + 3)
          else if c_at path (readPos + 2) = slash \<or> c_at path (readPos + 2) = NUL then
            skip_loop path writePos (readPos + 2)
          else (writePos, readPos)
        else (writePos, readPos)
      else (writePos, readPos))"
  by pat_completeness auto
termination
  by (relation "measure (\<lambda>(path, w, r). length path - r)")
    (auto simp: c_at_def split: if_splits)

text \<open>The outer loop: the buffer and the write position after it.\<close>

lemma skip_loop_mono: "r \<le> snd (skip_loop path w r)"
proof (induction path w r rule: skip_loop.induct)
  case (1 path w r)
  then show ?case
    by (subst skip_loop.simps) (auto simp del: skip_loop.simps)
qed

function copy_loop :: "char list \<Rightarrow> nat \<Rightarrow> nat \<Rightarrow> nat \<Rightarrow> char list \<times> nat" where
  "copy_loop path inputLen writePos readPos =
     (if writePos < inputLen then
        let (w, r) = skip_loop path writePos readPos;
            path' = path[w := c_at path r]
        in if c_at path' w = NUL then (path', w)
           else copy_loop path' inputLen (w + 1) (r + 1)
      else (path, writePos))"
  by pat_completeness auto
termination
proof (relation "measure (\<lambda>(path, n, w, r). length path - r)", goal_cases)
  case 1
  show ?case by simp
next
  case (2 path n w r s w' r' path')
  have "r \<le> r'" using 2(2,3) skip_loop_mono [of r path w] by (metis snd_conv)
  moreover have "r' < length path"
    using 2(4,5) by (auto simp: c_at_def split: if_splits)
  ultimately show ?case using 2(4) by simp
qed

declare skip_loop.simps [simp del] copy_loop.simps [simp del]

definition normalizePath :: "char list \<Rightarrow> char list" where
  "normalizePath path =
     (let inputLen = length (cstr path);
          (path1, writePos) = copy_loop path inputLen 0 0;
          path2 = (if writePos > 1 \<and> c_at path1 (writePos - 1) = slash
                   then path1[writePos - 1 := NUL] else path1)
      in if c_at path2 0 = NUL \<and> inputLen \<ge> 1 then path2[0 := slash, 1 := NUL] else path2)"

text \<open>The path a C string is normalised to: the string the buffer holds afterwards.\<close>

definition normalize :: "string \<Rightarrow> string" where
  "normalize s = cstr (normalizePath (s @ [NUL]))"

subsection \<open>The specification\<close>

text \<open>The segments of a path: what stands between its slashes.\<close>

fun segments :: "string \<Rightarrow> string list" where
  "segments [] = [[]]"
| "segments (c # s) =
     (if c = slash then [] # segments s
      else case segments s of [] \<Rightarrow> [[c]] | t # ts \<Rightarrow> (c # t) # ts)"

text \<open>
  One segment on the stack of kept pieces, the last one first. A piece is a segment with the slash
  before it; the first segment of a relative path is a piece without one.
\<close>

definition push_segment :: "string \<Rightarrow> string list \<Rightarrow> string list" where
  "push_segment seg st =
     (if seg = '''' \<or> seg = ''.'' then st
      else if seg = ''..'' then tl st
      else (slash # seg) # st)"

definition normalize_stack :: "string \<Rightarrow> string list" where
  "normalize_stack s =
     fold push_segment (tl (segments s)) (if hd (segments s) = '''' then [] else [hd (segments s)])"

definition normalize_spec :: "string \<Rightarrow> string" where
  "normalize_spec s =
     (if s = '''' then ''''
      else let st = normalize_stack s in if st = [] then ''/'' else concat (rev st))"

subsection \<open>From the buffer to lists\<close>

text \<open>
  First step of the proof: the same loops on the output written so far and the input still to be
  read. The write position never passes the read position, so the code never overwrites input it
  has yet to read.
\<close>

definition pop_out :: "string \<Rightarrow> string" where
  "pop_out out = rev (tl (dropWhile (\<lambda>c. c \<noteq> slash) (rev out)))"

function skip_list :: "string \<Rightarrow> char list \<Rightarrow> string \<times> char list" where
  "skip_list out inp =
     (if c_at inp 0 = slash then
        if c_at inp 1 = slash then skip_list out (drop 1 inp)
        else if c_at inp 1 = dot then
          if c_at inp 2 = dot \<and> (c_at inp 3 = NUL \<or> c_at inp 3 = slash)
          then skip_list (pop_out out) (drop 3 inp)
          else if c_at inp 2 = slash \<or> c_at inp 2 = NUL then skip_list out (drop 2 inp)
          else (out, inp)
        else (out, inp)
      else (out, inp))"
  by pat_completeness auto
termination
  by (relation "measure (\<lambda>(out, inp). length inp)") (auto simp: c_at_def split: if_splits)

lemma skip_list_shorter: "length (snd (skip_list out inp)) \<le> length inp"
proof (induction out inp rule: skip_list.induct)
  case (1 out inp)
  then show ?case
    by (subst skip_list.simps) (auto simp del: skip_list.simps)
qed

function copy_list :: "string \<Rightarrow> char list \<Rightarrow> string" where
  "copy_list out inp =
     (let (o', i) = skip_list out inp
      in if c_at i 0 = NUL then o' else copy_list (o' @ [c_at i 0]) (drop 1 i))"
  by pat_completeness auto
termination
proof (relation "measure (\<lambda>(out, inp). length inp)", goal_cases)
  case 1
  show ?case by simp
next
  case (2 out inp s o' i)
  have "length i \<le> length inp" using 2(1,2) skip_list_shorter [of out inp] by (metis snd_conv)
  moreover have "i \<noteq> []" using 2(3) by auto
  ultimately show ?case by (cases i) auto
qed

declare skip_list.simps [simp del] copy_list.simps [simp del]

lemma pop_scan_le: "pop_scan path w \<le> w"
  by (induction w) auto

lemma take_pop_scan:
  "w \<le> length path \<Longrightarrow>
     take (pop_scan path w) path = rev (dropWhile (\<lambda>c. c \<noteq> slash) (rev (take w path)))"
  by (induction w) (auto simp: take_Suc_conv_app_nth c_at_def)

lemma pop_dir_le: "pop_dir path w \<le> w"
  using pop_scan_le [of path w] by (auto simp: pop_dir_def Let_def)

lemma take_pop_dir:
  assumes "w \<le> length path"
  shows "take (pop_dir path w) path = pop_out (take w path)"
proof -
  let ?k = "pop_scan path w" and ?d = "dropWhile (\<lambda>c. c \<noteq> slash) (rev (take w path))"
  have k: "take ?k path = rev ?d" by (rule take_pop_scan [OF assms])
  have le: "?k \<le> length path" using pop_scan_le [of path w] assms by simp
  have "take (?k - 1) path = butlast (take ?k path)"
    using le by (simp add: butlast_take)
  also have "\<dots> = rev (tl ?d)" by (simp add: k butlast_rev)
  finally show ?thesis by (auto simp: pop_dir_def pop_out_def Let_def)
qed

lemma skip_loop_list:
  assumes "skip_loop path w r = (w', r')" "w \<le> length path"
  shows "skip_list (take w path) (drop r path) = (take w' path, drop r' path) \<and> w' \<le> w"
  using assms
proof (induction path w r rule: skip_loop.induct)
  case (1 path w r)
  have c: "c_at (drop r path) k = c_at path (r + k)" for k by (rule c_at_drop)
  let ?dd = "c_at path (r + 2) = dot \<and> (c_at path (r + 3) = NUL \<or> c_at path (r + 3) = slash)"
  let ?d = "c_at path (r + 2) = slash \<or> c_at path (r + 2) = NUL"
  consider (slash) "c_at path r = slash" "c_at path (r + 1) = slash"
    | (parent) "c_at path r = slash" "c_at path (r + 1) = dot" ?dd
    | (current) "c_at path r = slash" "c_at path (r + 1) = dot" "\<not> ?dd" ?d
    | (stop) "c_at path r \<noteq> slash \<or> c_at path (r + 1) \<noteq> slash
        \<and> (c_at path (r + 1) \<noteq> dot \<or> \<not> ?dd \<and> \<not> ?d)"
    by blast
  then show ?case
  proof cases
    case slash
    with 1(1) 1(4,5) show ?thesis
      by (subst skip_list.simps, subst (asm) (2) skip_loop.simps) (simp add: c add.commute)
  next
    case parent
    then have ns: "c_at path (r + 1) \<noteq> slash" by simp
    have le: "pop_dir path w \<le> length path" using pop_dir_le [of path w] 1(5) by simp
    have "skip_loop path (pop_dir path w) (r + 3) = (w', r')"
      using 1(4) parent ns by (subst (asm) skip_loop.simps) simp
    from 1(2) [OF parent(1) ns parent(2,3) this le]
    show ?thesis using parent ns pop_dir_le [of path w]
      by (subst skip_list.simps) (simp add: c add.commute take_pop_dir [OF 1(5)])
  next
    case current
    then have ns: "c_at path (r + 1) \<noteq> slash" by simp
    have "skip_loop path w (r + 2) = (w', r')"
      using 1(4) current ns by (subst (asm) skip_loop.simps) auto
    from 1(3) [OF current(1) ns current(2,3,4) this 1(5)]
    show ?thesis using current ns
      by (subst skip_list.simps) (auto simp: c add.commute)
  next
    case stop
    then have "(w', r') = (w, r)"
      using 1(4) by (subst (asm) skip_loop.simps) (auto split: if_splits)
    moreover have "skip_list (take w path) (drop r path) = (take w path, drop r path)"
      using stop by (subst skip_list.simps) (auto simp: c)
    ultimately show ?thesis by simp
  qed
qed

text \<open>The terminator the loops run up to: at position \<open>n\<close>, and none from \<open>r\<close> up to it.\<close>

definition terminated_at :: "char list \<Rightarrow> nat \<Rightarrow> nat \<Rightarrow> bool" where
  "terminated_at path r n \<longleftrightarrow>
     r \<le> n \<and> n < length path \<and> c_at path n = NUL \<and> (\<forall>i. r \<le> i \<and> i < n \<longrightarrow> c_at path i \<noteq> NUL)"

lemma terminated_step:
  "terminated_at path r n \<Longrightarrow> c_at path r \<noteq> NUL \<Longrightarrow> terminated_at path (Suc r) n"
  by (auto simp: terminated_at_def) (metis le_antisym not_less_eq_eq)

lemma skip_loop_terminated:
  assumes "skip_loop path w r = (w', r')" "terminated_at path r n"
  shows "terminated_at path r' n"
  using assms
proof (induction path w r rule: skip_loop.induct)
  case (1 path w r)
  note step = terminated_step [of path _ n]
  show ?case
  proof (cases "(w', r') = (w, r)")
    case False
    with 1(4) have s: "c_at path r = slash" and r1: "c_at path (r + 1) = slash \<or> c_at path (r + 1) = dot"
      by (subst (asm) skip_loop.simps; force split: if_splits)+
    have t1: "terminated_at path (r + 1) n" and t2: "terminated_at path (r + 2) n"
      using step [OF 1(5)] step [of "r + 1"] s r1 by auto
    show ?thesis
    proof (cases "c_at path (r + 1) = slash")
      case True
      then show ?thesis using 1(1) [OF s True _ t1] 1(4) s by (subst (asm) (2) skip_loop.simps) simp
    next
      case False
      with r1 have d: "c_at path (r + 1) = dot" by simp
      show ?thesis
      proof (cases "c_at path (r + 2) = dot \<and> (c_at path (r + 3) = NUL \<or> c_at path (r + 3) = slash)")
        case True
        then have "terminated_at path (r + 3) n" using step [OF t2] by (simp add: numeral_3_eq_3)
        then show ?thesis using 1(2) [OF s False d True] 1(4) s d True
          by (subst (asm) (2) skip_loop.simps) simp
      next
        case nodots: False
        then have "c_at path (r + 2) = slash \<or> c_at path (r + 2) = NUL"
          using 1(4) s d \<open>(w', r') \<noteq> (w, r)\<close>
          by (subst (asm) skip_loop.simps) (auto split: if_splits)
        then show ?thesis using 1(3) [OF s False d nodots _ _ t2] 1(4) s d nodots
          by (subst (asm) (2) skip_loop.simps) auto
      qed
    qed
  qed (use 1(5) in simp)
qed

lemma copy_loop_list:
  assumes "copy_loop path n w r = (path', w')" "w \<le> r" "terminated_at path r n"
  shows "take w' path' = copy_list (take w path) (drop r path) \<and> c_at path' w' = NUL
    \<and> w' \<le> n \<and> length path' = length path"
  using assms
proof (induction path n w r rule: copy_loop.induct)
  case (1 path n w r)
  from 1(4) have n: "r \<le> n" "n < length path" "c_at path n = NUL" by (auto simp: terminated_at_def)
  show ?case
  proof (cases "w < n")
    case False
    with n 1(3) have "w = n" "r = n" by simp_all
    moreover from this have "path' = path" "w' = n"
      using 1(2) by (subst (asm) copy_loop.simps; simp)+
    moreover have "copy_list (take n path) (drop n path) = take n path"
      using n by (subst copy_list.simps, subst skip_list.simps) (simp add: c_at_drop)
    ultimately show ?thesis using n by simp
  next
    case True
    obtain w1 r1 where s: "skip_loop path w r = (w1, r1)" by force
    have sl: "skip_list (take w path) (drop r path) = (take w1 path, drop r1 path)" and w1: "w1 \<le> w"
      using skip_loop_list [OF s] 1(3) n by auto
    have r1: "r \<le> r1" using skip_loop_mono [of r path w] s by simp
    have t1: "terminated_at path r1 n" by (rule skip_loop_terminated [OF s 1(4)])
    let ?c = "c_at path r1" and ?p = "path[w1 := c_at path r1]"
    have w1l: "w1 < length path" using w1 1(3) n by simp
    then have c: "c_at ?p w1 = ?c" by (simp add: c_at_def)
    show ?thesis
    proof (cases "?c = NUL")
      case end_of_path: True
      then have "path' = ?p" "w' = w1"
        using 1(2) s c True by (subst (asm) copy_loop.simps; simp)+
      moreover have "copy_list (take w path) (drop r path) = take w1 path"
        using end_of_path by (subst copy_list.simps) (simp add: sl c_at_drop)
      ultimately show ?thesis using c end_of_path w1 1(3) n by simp
    next
      case False
      have rec: "copy_loop ?p n (w1 + 1) (r1 + 1) = (path', w')"
        using 1(2) s c True False by (subst (asm) copy_loop.simps) simp
      have "terminated_at path (Suc r1) n" by (rule terminated_step [OF t1 False])
      then have t2: "terminated_at ?p (r1 + 1) n"
        using w1 1(3) r1 by (auto simp: terminated_at_def c_at_def)
      have "copy_list (take w path) (drop r path) = copy_list (take w1 path @ [?c]) (drop (r1 + 1) path)"
        using False by (subst copy_list.simps) (simp add: sl c_at_drop)
      also have "\<dots> = copy_list (take (w1 + 1) ?p) (drop (r1 + 1) ?p)"
        using w1l w1 1(3) r1 by (simp add: take_Suc_conv_app_nth drop_update_cancel)
      finally show ?thesis
        using 1(1) [OF True s [symmetric] refl refl _ rec _ t2] c False w1 1(3) r1 by simp
    qed
  qed
qed

subsection \<open>From lists to segments\<close>

text \<open>Second step: the loop on lists handles one segment after the other.\<close>

definition join :: "string list \<Rightarrow> string" where
  "join segs = concat (map ((#) slash) segs)"

definition plain :: "string \<Rightarrow> bool" where
  "plain s \<longleftrightarrow> slash \<notin> set s \<and> NUL \<notin> set s"

lemma join_simps [simp]:
  "join [] = ''''"
  "join (seg # segs) = slash # seg @ join segs"
  by (simp_all add: join_def)

lemma plain_simps [simp]:
  "plain []"
  "plain (c # s) \<longleftrightarrow> c \<noteq> slash \<and> c \<noteq> NUL \<and> plain s"
  by (auto simp: plain_def)

lemma segments_ne [simp]: "segments s \<noteq> []"
  by (induction s) (auto split: list.splits)

lemma segments_join: "hd (segments s) @ join (tl (segments s)) = s"
proof (induction s)
  case Nil
  then show ?case by simp
next
  case (Cons c s)
  then show ?case by (cases "segments s") auto
qed

lemma segments_plain: "c_string s \<Longrightarrow> \<forall>t \<in> set (segments s). plain t"
proof (induction s)
  case Nil
  then show ?case by simp
next
  case (Cons c s)
  then show ?case by (auto split: list.splits)
qed

lemma segments_plain_word: "plain s \<Longrightarrow> segments s = [s]"
  by (induction s) auto

lemma segments_append_slash: "plain s \<Longrightarrow> segments (s @ slash # t) = s # segments t"
  by (induction s) auto

lemma segments_append_join:
  "plain s \<Longrightarrow> \<forall>t \<in> set ts. plain t \<Longrightarrow> segments (s @ join ts) = s # ts"
proof (induction ts arbitrary: s)
  case Nil
  then show ?case by (simp add: segments_plain_word)
next
  case (Cons t ts)
  then show ?case by (simp add: segments_append_slash)
qed

text \<open>The pieces kept on the stack.\<close>

definition piece :: "string \<Rightarrow> bool" where
  "piece p \<longleftrightarrow> (\<exists>seg. p = slash # seg \<and> plain seg \<and> seg \<noteq> '''')"

fun valid_stack :: "string list \<Rightarrow> bool" where
  "valid_stack [] = True"
| "valid_stack [p] = (piece p \<or> (plain p \<and> p \<noteq> ''''))"
| "valid_stack (p # st) = (piece p \<and> valid_stack st)"

lemma valid_stack_tl: "valid_stack st \<Longrightarrow> valid_stack (tl st)"
  by (cases st rule: valid_stack.cases) auto

lemma valid_stack_piece: "valid_stack st \<Longrightarrow> piece p \<Longrightarrow> valid_stack (p # st)"
  by (cases st rule: valid_stack.cases) auto

lemma valid_push: "valid_stack st \<Longrightarrow> plain seg \<Longrightarrow> valid_stack (push_segment seg st)"
  by (auto simp: push_segment_def piece_def intro!: valid_stack_tl valid_stack_piece)

lemma dropWhile_plain: "plain s \<Longrightarrow> dropWhile (\<lambda>c. c \<noteq> slash) (rev s @ t) = dropWhile (\<lambda>c. c \<noteq> slash) t"
  by (intro dropWhile_append2) (auto simp: plain_def)

lemma pop_out_piece: "plain seg \<Longrightarrow> pop_out (out @ slash # seg) = out"
  by (simp add: pop_out_def dropWhile_plain)

lemma pop_out_plain: "plain seg \<Longrightarrow> pop_out seg = []"
proof -
  assume "plain seg"
  then have d: "dropWhile (\<lambda>c. c \<noteq> slash) (rev seg) = []" by (auto simp: plain_def)
  show "pop_out seg = []" unfolding pop_out_def d by simp
qed

lemma pop_out_stack:
  assumes "valid_stack st"
  shows "pop_out (concat (rev st)) = concat (rev (tl st))"
proof (cases st)
  case Nil
  then show ?thesis by (simp add: pop_out_def)
next
  case (Cons p st')
  with assms have "piece p \<or> st' = [] \<and> plain p" by (cases st') auto
  then show ?thesis
  proof
    assume "piece p"
    then obtain seg where "p = slash # seg" "plain seg" by (auto simp: piece_def)
    then show ?thesis using Cons by (simp add: pop_out_piece)
  next
    assume "st' = [] \<and> plain p"
    then show ?thesis using Cons by (simp add: pop_out_plain)
  qed
qed

lemma skip_list_other: "c_at inp 0 \<noteq> slash \<Longrightarrow> skip_list out inp = (out, inp)"
  by (subst skip_list.simps) simp

lemma copy_list_plain: "plain seg \<Longrightarrow> copy_list out (seg @ rest) = copy_list (out @ seg) rest"
proof (induction seg arbitrary: out)
  case (Cons c seg)
  then show ?case
    by (subst copy_list.simps) (simp add: skip_list_other)
qed simp

lemma copy_list_skip:
  "skip_list out inp = skip_list out' inp' \<Longrightarrow> copy_list out inp = copy_list out' inp'"
  by (subst (1 2) copy_list.simps) simp

text \<open>One segment: what the skip loop does on the slash before it.\<close>

lemma skip_list_segment:
  assumes "plain seg" "c_at rest 0 = NUL \<or> c_at rest 0 = slash"
  shows "skip_list out (slash # seg @ rest) =
    (if seg = '''' \<and> c_at rest 0 = slash then skip_list out rest
     else if seg = ''.'' then skip_list out rest
     else if seg = ''..'' then skip_list (pop_out out) rest
     else (out, slash # seg @ rest))"
proof -
  consider "seg = ''''" | "seg = ''.''" | "seg = ''..''"
    | (dots) x t where "seg = dot # dot # x # t"
    | (dot) x t where "seg = dot # x # t" "x \<noteq> dot"
    | (word) x t where "seg = x # t" "x \<noteq> dot"
    by (metis list.exhaust)
  then show ?thesis
  proof cases
    case (dots x t)
    with assms(1) show ?thesis
      by (subst skip_list.simps) (simp add: numeral_2_eq_2 numeral_3_eq_3)
  next
    case (dot x t)
    with assms(1) show ?thesis
      by (subst skip_list.simps) (simp add: numeral_2_eq_2 numeral_3_eq_3)
  next
    case (word x t)
    with assms(1) show ?thesis
      by (subst skip_list.simps) (simp add: numeral_2_eq_2 numeral_3_eq_3)
  qed (use assms(2) in \<open>subst skip_list.simps, auto simp: numeral_2_eq_2 numeral_3_eq_3\<close>)+
qed

lemma copy_list_segments:
  assumes "valid_stack st" "\<forall>seg \<in> set segs. plain seg"
  shows "copy_list (concat (rev st)) (join segs @ NUL # t) =
    concat (rev (fold push_segment segs st)) @ (if segs \<noteq> [] \<and> last segs = '''' then ''/'' else '''')"
  using assms
proof (induction segs arbitrary: st)
  case Nil
  then show ?case by (subst copy_list.simps) (simp add: skip_list_other)
next
  case (Cons seg segs)
  let ?rest = "join segs @ NUL # t" and ?out = "concat (rev st)"
  from Cons.prems have seg: "plain seg" and IH: "\<And>st. valid_stack st \<Longrightarrow>
      copy_list (concat (rev st)) ?rest = concat (rev (fold push_segment segs st))
        @ (if segs \<noteq> [] \<and> last segs = '''' then ''/'' else '''')"
    using Cons.IH by auto
  have rest: "c_at ?rest 0 = (if segs = [] then NUL else slash)" by (cases segs) simp_all
  then have "c_at ?rest 0 = NUL \<or> c_at ?rest 0 = slash" by simp
  note skip = skip_list_segment [OF seg this, of ?out]
  show ?case
  proof (cases "seg = '''' \<and> segs \<noteq> [] \<or> seg = ''.'' \<or> seg = ''..''")
    case True
    define st' where "st' = (if seg = ''..'' then tl st else st)"
    have st': "valid_stack st'" "push_segment seg st = st'"
      using True Cons.prems(1) by (auto simp: st'_def push_segment_def valid_stack_tl)
    have "skip_list ?out (slash # seg @ ?rest) = skip_list (concat (rev st')) ?rest"
      using skip rest True pop_out_stack [OF Cons.prems(1)] by (auto simp: st'_def)
    then have "copy_list ?out (slash # seg @ ?rest) = copy_list (concat (rev st')) ?rest"
      by (rule copy_list_skip)
    then show ?thesis using IH [OF st'(1)] True by (auto simp: st'(2))
  next
    case False
    have sk: "skip_list ?out (slash # seg @ ?rest) = (?out, slash # seg @ ?rest)"
      using skip rest False by auto
    have "copy_list ?out (slash # seg @ ?rest) = copy_list (?out @ [slash]) (seg @ ?rest)"
      by (subst copy_list.simps) (simp add: sk)
    also have "\<dots> = copy_list (?out @ slash # seg) ?rest"
      using copy_list_plain [OF seg] by simp
    also have "\<dots> = concat (rev (fold push_segment (seg # segs) st))
        @ (if last (seg # segs) = '''' then ''/'' else '''')"
    proof (cases "seg = ''''")
      case True
      with False have "segs = []" by simp
      with True show ?thesis
        by (subst copy_list.simps) (simp add: skip_list_other push_segment_def)
    next
      case ne: False
      with seg have "piece (slash # seg)" by (auto simp: piece_def)
      from IH [OF valid_stack_piece [OF Cons.prems(1) this]] False ne show ?thesis
        by (simp add: push_segment_def)
    qed
    finally show ?thesis by simp
  qed
qed

subsection \<open>The code meets its specification\<close>

lemma valid_normalize_stack:
  assumes "c_string s"
  shows "valid_stack (normalize_stack s)"
proof -
  have "valid_stack (fold push_segment segs st)"
    if "valid_stack st" "\<forall>seg \<in> set segs. plain seg" for segs st
    using that by (induction segs arbitrary: st) (auto intro: valid_push)
  moreover have "plain (hd (segments s))" "\<forall>seg \<in> set (tl (segments s)). plain seg"
    using segments_plain [OF assms] by (cases "segments s"; simp)+
  ultimately show ?thesis by (simp add: normalize_stack_def)
qed

lemma valid_stack_string: "valid_stack st \<Longrightarrow> NUL \<notin> set (concat st)"
  by (induction st rule: valid_stack.induct) (auto simp: piece_def plain_def)

lemma valid_stack_last:
  assumes "valid_stack st" "st \<noteq> []"
  shows "concat (rev st) \<noteq> ''''" "last (concat (rev st)) \<noteq> slash"
proof -
  obtain p st' where st: "st = p # st'" using assms(2) by (cases st) auto
  with assms(1) have "piece p \<or> plain p \<and> p \<noteq> ''''" by (cases st') auto
  then have "p \<noteq> ''''" "last p \<noteq> slash" by (auto simp: piece_def plain_def) (metis last_in_set)+
  then show "concat (rev st) \<noteq> ''''" "last (concat (rev st)) \<noteq> slash"
    by (simp_all add: st)
qed

lemma cstr_takeI: "NUL \<notin> set (take w path) \<Longrightarrow> c_at path w = NUL \<Longrightarrow> cstr path = take w path"
proof (induction path arbitrary: w)
  case (Cons c path)
  then show ?case by (cases w) (auto simp: cstr_def)
qed (simp add: cstr_def)

lemma copy_loop_normal:
  assumes "c_string s" "copy_loop (s @ NUL # t) (length s) 0 0 = (path', w)"
  shows "take w path' = concat (rev (normalize_stack s))
      @ (if tl (segments s) \<noteq> [] \<and> last (tl (segments s)) = '''' then ''/'' else '''')
    \<and> c_at path' w = NUL \<and> w \<le> length s \<and> length path' = length s + Suc (length t)"
proof -
  obtain s0 segs where seg: "segments s = s0 # segs" by (cases "segments s") auto
  with segments_plain [OF assms(1)] have p: "plain s0" "\<forall>seg \<in> set segs. plain seg" by auto
  let ?st0 = "if s0 = '''' then [] else [s0]"
  have s: "s = s0 @ join segs" using segments_join [of s] by (simp add: seg)
  have "terminated_at (s @ NUL # t) 0 (length s)"
    using assms(1) by (auto simp: terminated_at_def c_at_def nth_append c_string_def in_set_conv_nth)
  from copy_loop_list [OF assms(2) _ this] have l: "take w path' = copy_list [] (s @ NUL # t)"
    and r: "c_at path' w = NUL" "w \<le> length s" "length path' = length s + Suc (length t)" by auto
  have "copy_list [] (s @ NUL # t) = copy_list (concat (rev ?st0)) (join segs @ NUL # t)"
    using copy_list_plain [OF p(1), of "[]" "join segs @ NUL # t"] by (simp add: s)
  also have "\<dots> = concat (rev (fold push_segment segs ?st0))
      @ (if segs \<noteq> [] \<and> last segs = '''' then ''/'' else '''')"
    using p by (intro copy_list_segments) simp_all
  finally show ?thesis using l r by (simp add: normalize_stack_def seg)
qed

lemma cstr_update: "i < length path \<Longrightarrow> NUL \<notin> set (take i path) \<Longrightarrow> cstr (path[i := NUL]) = take i path"
  by (rule trans [OF cstr_takeI [where w = i]]) (simp_all add: c_at_def)

lemma cstr_root: "2 \<le> length path \<Longrightarrow> cstr (path[0 := slash, 1 := NUL]) = ''/''"
  by (cases path; cases "tl path") (auto simp: cstr_def)

lemma normalizePath_buffer:
  assumes "c_string s"
  shows "cstr (normalizePath (s @ NUL # t)) = normalize_spec s
    \<and> length (normalizePath (s @ NUL # t)) = length (s @ NUL # t)"
proof -
  obtain path w where c: "copy_loop (s @ NUL # t) (length s) 0 0 = (path, w)" by force
  let ?st = "normalize_stack s"
  let ?trail = "tl (segments s) \<noteq> [] \<and> last (tl (segments s)) = ''''"
  let ?out = "concat (rev ?st)"
  note n = copy_loop_normal [OF assms c]
  then have out: "take w path = ?out @ (if ?trail then ''/'' else '''')"
    and nul: "c_at path w = NUL" and len: "w \<le> length s" "length path = length s + Suc (length t)" by auto
  have valid: "valid_stack ?st" by (rule valid_normalize_stack [OF assms])
  have no: "NUL \<notin> set (take w path)" using valid_stack_string [OF valid] by (auto simp: out)
  have w: "w = length ?out + (if ?trail then 1 else 0)"
    using arg_cong [OF out, of length] len by (auto split: if_splits)
  let ?path2 = "if w > 1 \<and> c_at path (w - 1) = slash then path[w - 1 := NUL] else path"
  have def2: "normalizePath (s @ NUL # t) =
      (if c_at ?path2 0 = NUL \<and> length s \<ge> 1 then ?path2[0 := slash, 1 := NUL] else ?path2)"
    using assms by (simp add: normalizePath_def cstr_terminated c Let_def)
  have len2: "length ?path2 = length s + Suc (length t)" using len by simp
  have read: "c_at path i = take w path ! i" if "i < w" for i
    using that len by (simp add: c_at_def)
  have cstr2: "cstr ?path2 = (if ?st = [] \<and> ?trail then ''/'' else ?out)"
  proof (cases "?st = []")
    case True
    then have "\<not> w > 1" by (simp add: w)
    then show ?thesis using True cstr_takeI [OF no nul] by (simp add: out)
  next
    case ne: False
    note l = valid_stack_last [OF valid ne]
    show ?thesis
    proof (cases ?trail)
      case True
      then have "w > 1" "c_at path (w - 1) = slash"
        using l(1) read [of "w - 1", unfolded out] by (auto simp: w nth_append)
      then have p2: "?path2 = path[w - 1 := NUL]" by simp
      have t: "take (w - 1) path = ?out"
      proof -
        have "take (w - 1) path = take (w - 1) (take w path)" by simp
        also have "\<dots> = take (w - 1) (?out @ ''/'')"
          unfolding out using True by simp
        also have "\<dots> = ?out" unfolding w using True by simp
        finally show ?thesis .
      qed
      have "cstr ?path2 = take (w - 1) path"
        unfolding p2
      proof (rule cstr_update)
        show "w - 1 < length path" using len \<open>w > 1\<close> by linarith
        show "NUL \<notin> set (take (w - 1) path)" unfolding t using valid_stack_string [OF valid] by simp
      qed
      then show ?thesis unfolding t using ne by simp
    next
      case False
      have "w > 0" "c_at path (w - 1) \<noteq> slash"
        using l read [of "w - 1", unfolded out] False by (auto simp: w last_conv_nth)
      then show ?thesis using False ne cstr_takeI [OF no nul] by (simp add: out)
    qed
  qed
  have at0: "c_at ?path2 0 = NUL \<longleftrightarrow> cstr ?path2 = ''''"
    using len2 by (cases ?path2) (auto simp: cstr_def)
  have root: "cstr (?path2[0 := slash, 1 := NUL]) = ''/''" if "length s \<ge> 1"
    by (rule cstr_root) (use len2 that in linarith)
  have empty: "s = '''' \<Longrightarrow> ?st = []" by (simp add: normalize_stack_def)
  have "cstr (normalizePath (s @ NUL # t)) = normalize_spec s"
  proof (cases "?st = []")
    case True
    then show ?thesis
      using def2 cstr2 at0 root by (auto simp: normalize_spec_def Suc_le_eq)
  next
    case False
    then show ?thesis
      using def2 cstr2 at0 valid_stack_last(1) [OF valid False] empty
      by (auto simp: normalize_spec_def Let_def)
  qed
  then show ?thesis using def2 len2 by simp
qed

subsection \<open>Normal forms\<close>

definition proper :: "string \<Rightarrow> bool" where
  "proper seg \<longleftrightarrow> plain seg \<and> seg \<noteq> '''' \<and> seg \<noteq> ''.'' \<and> seg \<noteq> ''..''"

text \<open>
  A path is in normal form when it is empty, the root, or has no empty, \<^verbatim>\<open>.\<close> or \<^verbatim>\<open>..\<close> segment
  after the first one (which is empty when the path is absolute).
\<close>

definition normal_form :: "string \<Rightarrow> bool" where
  "normal_form s \<longleftrightarrow>
     s = '''' \<or> s = ''/''
     \<or> ((hd (segments s) \<noteq> '''' \<or> tl (segments s) \<noteq> []) \<and> (\<forall>seg \<in> set (tl (segments s)). proper seg))"

text \<open>The directory an absolute path leads to, as the names below the root, segment by segment.\<close>

definition walk :: "string \<Rightarrow> string list \<Rightarrow> string list" where
  "walk seg dir =
     (if seg = '''' \<or> seg = ''.'' then dir
      else if seg = ''..'' then butlast dir
      else dir @ [seg])"

definition resolve :: "string \<Rightarrow> string list" where
  "resolve s = fold walk (segments s) []"

lemma walk_proper:
  assumes "plain seg" "\<forall>t \<in> set dir. proper t"
  shows "\<forall>t \<in> set (walk seg dir). proper t"
proof
  fix t
  assume t: "t \<in> set (walk seg dir)"
  show "proper t"
  proof (cases "proper seg")
    case True
    with t assms show ?thesis by (auto simp: walk_def proper_def split: if_splits)
  next
    case False
    with t assms have "t \<in> set dir"
      by (auto simp: walk_def proper_def split: if_splits dest: in_set_butlastD)
    with assms show ?thesis by blast
  qed
qed

lemma fold_walk_proper:
  "\<forall>seg \<in> set segs. plain seg \<Longrightarrow> \<forall>seg \<in> set dir. proper seg \<Longrightarrow>
     \<forall>seg \<in> set (fold walk segs dir). proper seg"
proof (induction segs arbitrary: dir)
  case (Cons seg segs)
  then have "\<forall>t \<in> set (walk seg dir). proper t" by (intro walk_proper) simp_all
  with Cons show ?case by simp
qed simp

text \<open>The stack of the normalisation, as the names walked through and the first piece while it is kept.\<close>

abbreviation pieces :: "string list \<Rightarrow> string list" where
  "pieces dir \<equiv> rev (map ((#) slash) dir)"

lemma concat_rev_pieces [simp]: "concat (rev (pieces dir @ b)) = concat (rev b) @ join dir"
  by (simp add: join_def)

lemma push_pieces: "push_segment seg (pieces dir) = pieces (walk seg dir)"
  by (cases dir rule: rev_cases) (auto simp: push_segment_def walk_def)

lemma fold_push_absolute: "fold push_segment segs (pieces dir) = pieces (fold walk segs dir)"
  by (induction segs arbitrary: dir) (simp_all add: push_pieces del: rev_map)

lemma fold_push_relative:
  assumes "\<forall>seg \<in> set segs. plain seg" "\<forall>seg \<in> set dir. proper seg"
  shows "\<exists>dir' b. fold push_segment segs (pieces dir @ [s0]) = pieces dir' @ b
    \<and> (b = [s0] \<or> b = []) \<and> (\<forall>seg \<in> set dir'. proper seg)"
  using assms
proof (induction segs arbitrary: dir)
  case Nil
  then show ?case by (intro exI [of _ dir] exI [of _ "[s0]"]) simp
next
  case (Cons seg segs)
  show ?case
  proof (cases "seg = ''..'' \<and> dir = []")
    case True
    then have "fold push_segment (seg # segs) (pieces dir @ [s0]) = pieces (fold walk segs []) @ []"
      using fold_push_absolute [of segs "[]"] by (simp add: push_segment_def)
    moreover have "\<forall>seg \<in> set (fold walk segs []). proper seg"
      using Cons.prems(1) by (intro fold_walk_proper) simp_all
    ultimately show ?thesis by blast
  next
    case False
    then have "push_segment seg (pieces dir @ [s0]) = pieces (walk seg dir) @ [s0]"
      by (cases dir rule: rev_cases) (auto simp: push_segment_def walk_def)
    moreover have "\<forall>t \<in> set (walk seg dir). proper t"
      using Cons.prems fold_walk_proper [of "[seg]" dir] by simp
    ultimately show ?thesis using Cons.IH [of "walk seg dir"] Cons.prems(1) by simp
  qed
qed

lemma fold_push_proper:
  "\<forall>seg \<in> set cs. proper seg \<Longrightarrow> fold push_segment cs st = pieces cs @ st"
  by (induction cs arbitrary: st) (auto simp: push_segment_def proper_def)

lemma normalize_stack_absolute:
  "hd (segments s) = '''' \<Longrightarrow> normalize_stack s = pieces (resolve s)"
  using fold_push_absolute [of "tl (segments s)" "[]"]
  by (cases "segments s") (simp_all add: normalize_stack_def resolve_def walk_def)

lemma normalize_stack_form:
  assumes "c_string s"
  shows "\<exists>dir b. normalize_stack s = pieces dir @ b \<and> (\<forall>seg \<in> set dir. proper seg)
    \<and> (b = [] \<or> (hd (segments s) \<noteq> '''' \<and> b = [hd (segments s)]))"
proof (cases "hd (segments s) = ''''")
  case True
  moreover have "\<forall>seg \<in> set (resolve s). proper seg"
    using fold_walk_proper [OF segments_plain [OF assms], of "[]"] by (simp add: resolve_def)
  ultimately show ?thesis using normalize_stack_absolute [OF True] by auto
next
  case False
  have "\<forall>seg \<in> set (tl (segments s)). plain seg"
    using segments_plain [OF assms] by (cases "segments s") auto
  from fold_push_relative [OF this, of "[]" "hd (segments s)"] False show ?thesis
    by (auto simp: normalize_stack_def)
qed

lemma segments_eq_Nil_iff: "hd (segments s) = '''' \<longleftrightarrow> s = '''' \<or> (\<exists>t. s = slash # t)"
  by (cases s) (auto split: list.splits)

lemma normalize_spec_normal:
  assumes "c_string s"
  shows "normal_form (normalize_spec s) \<and> c_string (normalize_spec s)"
proof -
  from normalize_stack_form [OF assms] obtain dir b where
    st: "normalize_stack s = pieces dir @ b" and dir: "\<forall>seg \<in> set dir. proper seg"
    and b: "b = [] \<or> (hd (segments s) \<noteq> '''' \<and> b = [hd (segments s)])" by blast
  let ?s0 = "concat (rev b)"
  have "plain (hd (segments s))" using segments_plain [OF assms] by (cases "segments s") auto
  with b have s0: "plain ?s0" by auto
  have plains: "\<forall>seg \<in> set dir. plain seg" using dir by (auto simp: proper_def)
  have seg: "segments (?s0 @ join dir) = ?s0 # dir"
    by (rule segments_append_join [OF s0 plains])
  have c: "c_string (?s0 @ join dir)"
    using s0 plains by (auto simp: c_string_def plain_def join_def)
  show ?thesis
  proof (cases "s = '''' \<or> normalize_stack s = []")
    case True
    then show ?thesis by (auto simp: normalize_spec_def normal_form_def)
  next
    case False
    then have n: "normalize_spec s = ?s0 @ join dir"
      by (simp add: normalize_spec_def Let_def st join_def)
    moreover have "?s0 \<noteq> '''' \<or> dir \<noteq> []" using False b by (auto simp: st)
    ultimately show ?thesis using dir c by (simp add: normal_form_def seg)
  qed
qed

lemma normalize_spec_fixed:
  assumes "normal_form s"
  shows "normalize_spec s = s"
proof -
  consider "s = ''''" | "s = ''/''" | (segs) "s \<noteq> ''''" "hd (segments s) \<noteq> '''' \<or> tl (segments s) \<noteq> []"
    "\<forall>seg \<in> set (tl (segments s)). proper seg"
    using assms by (auto simp: normal_form_def)
  then show ?thesis
  proof cases
    case segs
    have "normalize_stack s
        = pieces (tl (segments s)) @ (if hd (segments s) = '''' then [] else [hd (segments s)])"
      using fold_push_proper [OF segs(3)] by (simp add: normalize_stack_def)
    then show ?thesis
      using segs segments_join [of s] by (auto simp: normalize_spec_def Let_def join_def)
  qed (simp_all add: normalize_spec_def normalize_stack_def push_segment_def)
qed

lemma normalize_is_spec: "c_string s \<Longrightarrow> normalize s = normalize_spec s"
  using normalizePath_buffer [of s "[]"] by (simp add: normalize_def)

lemma normalize_c_string: "c_string s \<Longrightarrow> c_string (normalize s)"
  by (simp add: normalize_def)

subsection \<open>Properties\<close>

text \<open>
  C2: the in-place normalisation computes its specification. On a buffer that holds the string \<open>s\<close>,
  its terminator and any further bytes, the loops end and leave a terminated string in the buffer: the
  segments of \<open>s\<close> with empty and \<^verbatim>\<open>.\<close> segments dropped and each \<^verbatim>\<open>..\<close> taking back the segment
  before it. The buffer keeps its size.
\<close>

theorem normalizePath_meets_spec:
  assumes "c_string s"
  shows "cstr (normalizePath (s @ NUL # t)) = normalize_spec s
    \<and> length (normalizePath (s @ NUL # t)) = length (s @ NUL # t)"
  using assms by (rule normalizePath_buffer)

lemma normalizePath_meets_spec_witness:
  "cstr (normalizePath (''/a/./b//../c/'' @ NUL # ''zz'')) = ''/a/c''"
  using normalizePath_meets_spec [of "''/a/./b//../c/''" "''zz''"]
  by (simp add: normalize_spec_def normalize_stack_def push_segment_def)

text \<open>
  Normalisation is idempotent, and its results are exactly the paths in normal form: every result
  is one, and a path in normal form is left as it is.
\<close>

theorem normalize_idempotent:
  assumes "c_string s"
  shows "normal_form (normalize s) \<and> normalize (normalize s) = normalize s
    \<and> (normalize s = s \<longleftrightarrow> normal_form s)"
  using normalize_is_spec [OF assms] normalize_is_spec [of "normalize_spec s"]
    normalize_spec_normal [OF assms] normalize_spec_fixed [of "normalize_spec s"]
    normalize_spec_fixed [of s]
  by metis

lemma normalize_idempotent_witness:
  "normalize (normalize ''..//x/../../y'') = normalize ''..//x/../../y''"
  using normalize_idempotent [of "''..//x/../../y''"] by simp

text \<open>
  C33: an absolute path normalises to the absolute path of the directory it leads to, walking its
  segments from the root. None of the remaining segments is empty, \<^verbatim>\<open>.\<close> or \<^verbatim>\<open>..\<close>, so the result
  never climbs above the root, whatever the path tried.
\<close>

theorem normalize_absolute:
  assumes "c_string s" and "s = slash # rest"
  shows "normalize s = (if resolve s = [] then ''/'' else join (resolve s))
    \<and> (\<forall>seg \<in> set (resolve s). seg \<noteq> '''' \<and> seg \<noteq> ''.'' \<and> seg \<noteq> ''..'' \<and> slash \<notin> set seg)
    \<and> resolve (normalize s) = resolve s"
proof -
  have h: "hd (segments s) = ''''" using assms(2) by simp
  have p: "\<forall>seg \<in> set (resolve s). proper seg"
    using fold_walk_proper [OF segments_plain [OF assms(1)], of "[]"] by (simp add: resolve_def)
  have n: "normalize s = (if resolve s = [] then ''/'' else join (resolve s))"
    using normalize_is_spec [OF assms(1)] normalize_stack_absolute [OF h] assms(2)
    by (simp add: normalize_spec_def Let_def join_def)
  have walk: "fold walk dir d = d @ dir" if "\<forall>seg \<in> set dir. proper seg" for dir d
    using that by (induction dir arbitrary: d) (auto simp: walk_def proper_def)
  have "\<forall>seg \<in> set (resolve s). plain seg" using p by (simp add: proper_def)
  then have "segments (join (resolve s)) = '''' # resolve s"
    using segments_append_join [of "''''" "resolve s"] by simp
  then have "resolve (join (resolve s)) = resolve s"
    using walk [OF p, of "[]"] by (simp add: resolve_def [of "join (resolve s)"] walk_def)
  moreover have "resolve ''/'' = []" by (simp add: resolve_def walk_def)
  ultimately show ?thesis using n p by (auto simp: proper_def plain_def)
qed

lemma normalize_absolute_witness:
  "normalize ''/../a/../../etc/./x'' = ''/etc/x''"
  using normalize_absolute [of "''/../a/../../etc/./x''" "''../a/../../etc/./x''"]
  by (simp add: resolve_def walk_def)

end
