(* ===== verification/Normalize_Bounds.thy ===== *)
theory Normalize_Bounds
  imports Normalize_Path
begin

text \<open>
  \<^verbatim>\<open>FileContext::normalizePath\<close> once more, on the code's \<^verbatim>\<open>uint32_t\<close> positions (with their
  wrap-around) and with every access of the buffer checked against its size: \<open>None\<close> is an access outside
  the buffer or a loop that does not end. For every string shorter than \<open>2\<^sup>3\<^sup>2\<close> bytes the checked code
  returns what the model on naturals returns, so neither happens and the positions never wrap.
\<close>

definition read_at :: "char list \<Rightarrow> u32 \<Rightarrow> char option" where
  "read_at path i = (if unat i < length path then Some (path ! unat i) else None)"

definition write_at :: "char list \<Rightarrow> u32 \<Rightarrow> char \<Rightarrow> char list option" where
  "write_at path i c = (if unat i < length path then Some (path[unat i := c]) else None)"

partial_function (option) pop_scan32 :: "char list \<Rightarrow> u32 \<Rightarrow> u32 option" where
  "pop_scan32 path w =
     (if w > 0 then
        Option.bind (read_at path (w - 1)) (\<lambda>c.
        if c \<noteq> slash then pop_scan32 path (w - 1) else Some w)
      else Some w)"

definition pop_dir32 :: "char list \<Rightarrow> u32 \<Rightarrow> u32 option" where
  "pop_dir32 path writePos =
     Option.bind (pop_scan32 path writePos) (\<lambda>w. Some (if w \<noteq> 0 then w - 1 else w))"

text \<open>The test for a parent directory reads the third character only when the second is a dot.\<close>

definition is_parent32 :: "char list \<Rightarrow> u32 \<Rightarrow> bool option" where
  "is_parent32 path readPos =
     Option.bind (read_at path (readPos + 2)) (\<lambda>c2.
     if c2 = dot then
       Option.bind (read_at path (readPos + 3)) (\<lambda>c3. Some (c3 = NUL \<or> c3 = slash))
     else Some False)"

partial_function (option) skip_loop32 :: "char list \<Rightarrow> u32 \<Rightarrow> u32 \<Rightarrow> (u32 \<times> u32) option" where
  "skip_loop32 path writePos readPos =
     Option.bind (read_at path readPos) (\<lambda>c0.
     if c0 = slash then
       Option.bind (read_at path (readPos + 1)) (\<lambda>c1.
       if c1 = slash then skip_loop32 path writePos (readPos + 1)
       else if c1 = dot then
         Option.bind (is_parent32 path readPos) (\<lambda>parent.
         if parent then
           Option.bind (pop_dir32 path writePos) (\<lambda>w. skip_loop32 path w (readPos + 3))
         else
           Option.bind (read_at path (readPos + 2)) (\<lambda>c2.
           if c2 = slash \<or> c2 = NUL then skip_loop32 path writePos (readPos + 2)
           else Some (writePos, readPos)))
       else Some (writePos, readPos))
     else Some (writePos, readPos))"

partial_function (option) copy_loop32
  :: "char list \<Rightarrow> u32 \<Rightarrow> u32 \<Rightarrow> u32 \<Rightarrow> (char list \<times> u32) option" where
  "copy_loop32 path inputLen writePos readPos =
     (if writePos < inputLen then
        Option.bind (skip_loop32 path writePos readPos) (\<lambda>(w, r).
        Option.bind (read_at path r) (\<lambda>c.
        Option.bind (write_at path w c) (\<lambda>path'.
        Option.bind (read_at path' w) (\<lambda>d.
        if d = NUL then Some (path', w) else copy_loop32 path' inputLen (w + 1) (r + 1)))))
      else Some (path, writePos))"

definition normalizePath32 :: "char list \<Rightarrow> char list option" where
  "normalizePath32 path =
     (let inputLen = of_nat (length (cstr path)) :: u32
      in Option.bind (copy_loop32 path inputLen 0 0) (\<lambda>(path1, writePos).
         Option.bind
           (if writePos > 1 then
              Option.bind (read_at path1 (writePos - 1)) (\<lambda>c.
              if c = slash then write_at path1 (writePos - 1) NUL else Some path1)
            else Some path1) (\<lambda>path2.
         Option.bind (read_at path2 0) (\<lambda>c.
         if c = NUL \<and> inputLen \<ge> 1 then
           Option.bind (write_at path2 0 slash) (\<lambda>path3. write_at path3 1 NUL)
         else Some path2))))"

subsection \<open>The checked code computes the model\<close>


lemma read_at_nat: "k < length path \<Longrightarrow> k < 2 ^ 32 \<Longrightarrow> read_at path (of_nat k) = Some (c_at path k)"
  by (simp add: read_at_def c_at_def unat_of_nat_small)

lemma write_at_nat: "k < length path \<Longrightarrow> k < 2 ^ 32 \<Longrightarrow> write_at path (of_nat k) c = Some (path[k := c])"
  by (simp add: write_at_def unat_of_nat_small)

lemma word_of_nat_pos: "0 < k \<Longrightarrow> k < 2 ^ 32 \<Longrightarrow> (0::u32) < of_nat k"
  by (simp add: word_less_nat_alt unat_of_nat_small)

lemma word_of_nat_less: "j < 2 ^ 32 \<Longrightarrow> k < 2 ^ 32 \<Longrightarrow> (of_nat j :: u32) < of_nat k \<longleftrightarrow> j < k"
  by (simp add: word_less_nat_alt unat_of_nat_small)

lemma pop_scan32_nat:
  assumes "w \<le> length path" "w < 2 ^ 32"
  shows "pop_scan32 path (of_nat w) = Some (of_nat (pop_scan path w))"
  using assms
proof (induction w)
  case 0
  then show ?case by (simp add: pop_scan32.simps [of path 0])
next
  case (Suc w)
  have "(0::u32) < of_nat (Suc w)" by (rule word_of_nat_pos) (use Suc.prems in simp_all)
  moreover have "(of_nat (Suc w) :: u32) - 1 = of_nat w" by simp
  ultimately show ?case
    using Suc read_at_nat [of w path] by (subst pop_scan32.simps) (simp del: of_nat_Suc)
qed

lemma pop_dir32_nat:
  assumes "w \<le> length path" "w < 2 ^ 32"
  shows "pop_dir32 path (of_nat w) = Some (of_nat (pop_dir path w))"
proof -
  have lt: "pop_scan path w < 2 ^ 32" using pop_scan_le [of path w] assms(2) by simp
  show ?thesis
  proof (cases "pop_scan path w")
    case 0
    then show ?thesis by (simp add: pop_dir32_def pop_dir_def pop_scan32_nat [OF assms])
  next
    case (Suc k)
    with lt have "(of_nat (Suc k) :: u32) \<noteq> 0" using word_of_nat_pos [of "Suc k"] by simp
    moreover have "(of_nat (Suc k) :: u32) - 1 = of_nat k" by simp
    ultimately show ?thesis using Suc
      by (simp add: pop_dir32_def pop_dir_def pop_scan32_nat [OF assms] del: of_nat_Suc)
  qed
qed

text \<open>Before the terminator, the characters the tests look at lie in the buffer.\<close>

lemma terminated_next:
  assumes "terminated_at path r n" "c_at path r \<noteq> NUL"
  shows "r + 1 \<le> n"
  using terminated_step [OF assms] by (simp add: terminated_at_def)

lemma is_parent32_nat:
  assumes t: "terminated_at path r n" and n: "n < 2 ^ 32" and c: "c_at path r = slash" "c_at path (r + 1) = dot"
  shows "is_parent32 path (of_nat r) =
    Some (c_at path (r + 2) = dot \<and> (c_at path (r + 3) = NUL \<or> c_at path (r + 3) = slash))"
    and "terminated_at path (r + 2) n"
    and "c_at path (r + 2) = dot \<Longrightarrow> terminated_at path (r + 3) n"
proof -
  have t1: "terminated_at path (r + 1) n" using terminated_step [OF t] c by simp
  then show t2: "terminated_at path (r + 2) n" using terminated_step [of path "r + 1" n] c by simp
  then show t3: "c_at path (r + 2) = dot \<Longrightarrow> terminated_at path (r + 3) n"
    using terminated_step [of path "r + 2" n] by (simp add: numeral_3_eq_3)
  have r: "of_nat r + 2 = (of_nat (r + 2) :: u32)" "of_nat r + 3 = (of_nat (r + 3) :: u32)" by simp_all
  have "read_at path (of_nat (r + 2)) = Some (c_at path (r + 2))"
    using t2 n by (intro read_at_nat) (auto simp: terminated_at_def)
  moreover have "read_at path (of_nat (r + 3)) = Some (c_at path (r + 3))" if "c_at path (r + 2) = dot"
    using t3 [OF that] n by (intro read_at_nat) (auto simp: terminated_at_def)
  ultimately show "is_parent32 path (of_nat r) =
    Some (c_at path (r + 2) = dot \<and> (c_at path (r + 3) = NUL \<or> c_at path (r + 3) = slash))"
    unfolding is_parent32_def r by auto
qed

lemma skip_loop32_nat:
  assumes "terminated_at path r n" "n < 2 ^ 32" "w \<le> r"
  shows "skip_loop32 path (of_nat w) (of_nat r)
    = (case skip_loop path w r of (w', r') \<Rightarrow> Some (of_nat w', of_nat r'))"
  using assms
proof (induction path w r rule: skip_loop.induct)
  case (1 path w r)
  note t = 1(4) and n = 1(5) and w = 1(6)
  have r: "of_nat r + 1 = (of_nat (r + 1) :: u32)" "of_nat r + 2 = (of_nat (r + 2) :: u32)"
    "of_nat r + 3 = (of_nat (r + 3) :: u32)" by simp_all
  have c0: "read_at path (of_nat r) = Some (c_at path r)"
    using t n by (intro read_at_nat) (auto simp: terminated_at_def)
  show ?case
  proof (cases "c_at path r = slash")
    case False
    then show ?thesis by (subst skip_loop32.simps, subst skip_loop.simps) (simp add: c0)
  next
    case s: True
    then have t1: "terminated_at path (r + 1) n" using terminated_step [OF t] by simp
    then have c1: "read_at path (of_nat (r + 1)) = Some (c_at path (r + 1))"
      using n by (intro read_at_nat) (auto simp: terminated_at_def)
    consider (slash) "c_at path (r + 1) = slash" | (dot) "c_at path (r + 1) = dot"
      | (other) "c_at path (r + 1) \<noteq> slash" "c_at path (r + 1) \<noteq> dot" by blast
    then show ?thesis
    proof cases
      case slash
      from 1(1) [OF s slash t1 n] w s slash c1 show ?thesis
        by (subst skip_loop32.simps, subst skip_loop.simps, unfold r) (simp add: c0 del: of_nat_add)
    next
      case other
      with s c1 show ?thesis
        by (subst skip_loop32.simps, subst skip_loop.simps, unfold r) (simp add: c0 del: of_nat_add)
    next
      case dot
      then have ns: "c_at path (r + 1) \<noteq> slash" by simp
      note p = is_parent32_nat [OF t n s dot]
      have c2: "read_at path (of_nat (r + 2)) = Some (c_at path (r + 2))"
        using p(2) n by (intro read_at_nat) (auto simp: terminated_at_def)
      let ?parent = "c_at path (r + 2) = dot \<and> (c_at path (r + 3) = NUL \<or> c_at path (r + 3) = slash)"
      show ?thesis
      proof (cases ?parent)
        case True
        have "w \<le> length path" "w < 2 ^ 32" using w t n by (auto simp: terminated_at_def)
        note pop = pop_dir32_nat [OF this]
        have "pop_dir path w \<le> r + 3" using pop_dir_le [of path w] w by simp
        from 1(2) [OF s ns dot True p(3) n this] True c0 c1 p(1) s dot pop show ?thesis
          by (subst skip_loop32.simps, subst skip_loop.simps, unfold r) (simp del: of_nat_add)
      next
        case no: False
        show ?thesis
        proof (cases "c_at path (r + 2) = slash \<or> c_at path (r + 2) = NUL")
          case True
          from 1(3) [OF s ns dot no True p(2) n] w no True c0 c1 c2 p(1) s dot show ?thesis
            by (subst skip_loop32.simps, subst skip_loop.simps, unfold r)
              (auto simp del: of_nat_add)
        next
          case False
          with no c0 c1 c2 p(1) s dot show ?thesis
            by (subst skip_loop32.simps, subst skip_loop.simps, unfold r)
              (auto simp del: of_nat_add)
        qed
      qed
    qed
  qed
qed

lemma copy_loop32_nat:
  assumes "terminated_at path r n" "n < 2 ^ 32" "w \<le> r"
  shows "copy_loop32 path (of_nat n) (of_nat w) (of_nat r)
    = (case copy_loop path n w r of (path', w') \<Rightarrow> Some (path', of_nat w'))"
  using assms
proof (induction path n w r rule: copy_loop.induct)
  case (1 path n w r)
  note t = 1(2) and n = 1(3) and w = 1(4)
  have rn: "r \<le> n" "n < length path" using t by (auto simp: terminated_at_def)
  have guard: "(of_nat w :: u32) < of_nat n \<longleftrightarrow> w < n"
    using w rn n by (intro word_of_nat_less) simp_all
  show ?case
  proof (cases "w < n")
    case False
    then show ?thesis
      by (subst copy_loop32.simps, subst copy_loop.simps) (simp add: guard)
  next
    case True
    obtain w1 r1 where s: "skip_loop path w r = (w1, r1)" by force
    have w1: "w1 \<le> w" using skip_loop_list [OF s] w rn by simp
    have r1: "r \<le> r1" using skip_loop_mono [of r path w] s by simp
    have t1: "terminated_at path r1 n" by (rule skip_loop_terminated [OF s t])
    then have r1n: "r1 \<le> n" by (simp add: terminated_at_def)
    have skip: "skip_loop32 path (of_nat w) (of_nat r) = Some (of_nat w1, of_nat r1)"
      using skip_loop32_nat [OF t n w] by (simp add: s)
    let ?c = "c_at path r1"
    have c: "read_at path (of_nat r1) = Some ?c"
      using r1n rn n by (intro read_at_nat) simp_all
    have wr: "write_at path (of_nat w1) ?c = Some (path[w1 := ?c])"
      using w1 w rn n by (intro write_at_nat) simp_all
    have at: "c_at (path[w1 := ?c]) w1 = ?c" using w1 w rn by (simp add: c_at_def)
    have "read_at (path[w1 := ?c]) (of_nat w1) = Some (c_at (path[w1 := ?c]) w1)"
      using w1 w rn n by (intro read_at_nat) simp_all
    then have d: "read_at (path[w1 := ?c]) (of_nat w1) = Some ?c" by (simp add: at)
    have step: "copy_loop32 path (of_nat n) (of_nat w) (of_nat r)
        = (if ?c = NUL then Some (path[w1 := ?c], of_nat w1)
           else copy_loop32 (path[w1 := ?c]) (of_nat n) (of_nat w1 + 1) (of_nat r1 + 1))"
      using True by (subst copy_loop32.simps) (simp add: guard skip c wr d)
    have step': "copy_loop path n w r = (if ?c = NUL then (path[w1 := ?c], w1)
        else copy_loop (path[w1 := ?c]) n (w1 + 1) (r1 + 1))"
      using True by (subst copy_loop.simps) (simp add: s at)
    show ?thesis
    proof (cases "?c = NUL")
      case True
      then show ?thesis unfolding step step' by simp
    next
      case False
      have "terminated_at path (Suc r1) n" by (rule terminated_step [OF t1 False])
      then have t2: "terminated_at (path[w1 := ?c]) (r1 + 1) n"
        using w1 w r1 by (auto simp: terminated_at_def c_at_def)
      have "copy_loop32 (path[w1 := ?c]) (of_nat n) (of_nat (w1 + 1)) (of_nat (r1 + 1))
        = (case copy_loop (path[w1 := ?c]) n (w1 + 1) (r1 + 1) of (path', w') \<Rightarrow> Some (path', of_nat w'))"
        using 1(1) [OF True s [symmetric] refl refl _ t2 n] False at w1 w r1 by simp
      then show ?thesis unfolding step step' using False by (simp add: add.commute)
    qed
  qed
qed

subsection \<open>Properties\<close>

text \<open>
  C15: on every string shorter than \<open>2\<^sup>3\<^sup>2\<close> bytes the normalisation is memory safe and ends: each read
  and write lies inside the buffer of the string and its terminator (and whatever follows), no loop
  runs for ever, and 32-bit positions give the result the specification asks for.
\<close>

theorem normalizePath_memory_safe:
  assumes "c_string s" and "length s < 2 ^ 32"
  shows "\<exists>path. normalizePath32 (s @ NUL # t) = Some path \<and> path = normalizePath (s @ NUL # t)
    \<and> cstr path = normalize_spec s"
proof -
  let ?n = "length s" and ?buf = "s @ NUL # t"
  obtain path1 w where c: "copy_loop ?buf ?n 0 0 = (path1, w)" by force
  have t: "terminated_at ?buf 0 ?n"
    using assms(1) by (auto simp: terminated_at_def c_at_def nth_append c_string_def in_set_conv_nth)
  have c32: "copy_loop32 ?buf (of_nat ?n) 0 0 = Some (path1, of_nat w)"
    using copy_loop32_nat [OF t assms(2), of 0] by (simp add: c)
  from copy_loop_normal [OF assms(1) c] have w: "w \<le> ?n" and len: "length path1 = ?n + Suc (length t)"
    by auto
  define path2 where "path2 = (if w > 1 \<and> c_at path1 (w - 1) = slash then path1[w - 1 := NUL] else path1)"
  have len2: "length path2 = ?n + Suc (length t)" by (simp add: path2_def len)
  have one: "(1::u32) < of_nat w \<longleftrightarrow> w > 1" "(1::u32) \<le> of_nat ?n \<longleftrightarrow> ?n \<ge> 1"
    using w assms(2) by (simp_all add: word_less_nat_alt word_le_nat_alt unat_of_nat_small)
  have trail: "(if (1::u32) < of_nat w then
         Option.bind (read_at path1 (of_nat w - 1)) (\<lambda>c.
         if c = slash then write_at path1 (of_nat w - 1) NUL else Some path1)
       else Some path1) = Some path2"
  proof (cases "w > 1")
    case True
    then have "(of_nat w - 1 :: u32) = of_nat (w - 1)" by (simp add: of_nat_diff)
    then show ?thesis
      using True one(1) read_at_nat [of "w - 1" path1] write_at_nat [of "w - 1" path1 NUL] w len assms(2)
      by (simp add: path2_def del: of_nat_diff)
  qed (simp add: path2_def one)
  have r0: "read_at path2 0 = Some (c_at path2 0)"
    using read_at_nat [of 0 path2] len2 by simp
  have root: "Option.bind (write_at path2 0 slash) (\<lambda>path3. write_at path3 1 NUL)
      = Some (path2[0 := slash, 1 := NUL])" if "?n \<ge> 1"
  proof -
    have "s \<noteq> []" using that by auto
    then show ?thesis
      using write_at_nat [of 0 path2 slash] write_at_nat [of 1 "path2[0 := slash]" NUL] len2 by simp
  qed
  have "normalizePath32 ?buf = Some (normalizePath ?buf)"
    unfolding normalizePath32_def normalizePath_def cstr_terminated [OF assms(1)] Let_def c32 c
      option.case Option.bind.bind_lunit prod.case trail r0 path2_def [symmetric] one(2)
    using root by auto
  then show ?thesis using normalizePath_buffer [OF assms(1)] by simp
qed

lemma normalizePath_memory_safe_witness:
  "normalizePath32 (''/a/..'' @ [NUL]) = Some (normalizePath (''/a/..'' @ [NUL]))"
  using normalizePath_memory_safe [of "''/a/..''" "[]"] by simp

end
