(* ===== verification/Device_Interface.thy ===== *)
theory Device_Interface
  imports Outcome Shared_Types
begin

text \<open>
  The two tables of function pointers the library is built on: the user's allocator
  (\<^verbatim>\<open>lfs_allocator_t\<close> of \<^verbatim>\<open>src/shared_types.h\<close>) and the operations of a device type
  (\<^verbatim>\<open>FileContext::DeviceInterface\<close> of \<^verbatim>\<open>src/FileContext.h\<close>). A pointer that may be null is an
  option; the functions run in the world \<open>'w\<close>, which holds everything outside the context: the heap,
  the operating system, the user's data. The allocator's user-data argument is part of its functions.
\<close>

record 'w lfs_allocator_t =
  al_alloc :: "(u64 \<Rightarrow> u64 \<Rightarrow> (addr, 'w) prog) option"
  al_free :: "(addr \<Rightarrow> (unit, 'w) prog) option"

definition null_allocator :: "'w lfs_allocator_t" where
  "null_allocator = \<lparr>al_alloc = None, al_free = None\<rparr>"

definition call_alloc :: "'w lfs_allocator_t \<Rightarrow> u64 \<Rightarrow> u64 \<Rightarrow> (addr, 'w) prog" where
  "call_alloc a bytes alignment = call_ptr (al_alloc a) (\<lambda>f. f bytes alignment)"

definition call_free :: "'w lfs_allocator_t \<Rightarrow> addr \<Rightarrow> (unit, 'w) prog" where
  "call_free a p = call_ptr (al_free a) (\<lambda>f. f p)"

text \<open>
  The operations of a device type. \<^verbatim>\<open>ErrorCode *\<close> and \<^verbatim>\<open>void **buffer\<close> arguments are read and
  written: the operation takes the value they hold and returns the one it leaves there. \<^verbatim>\<open>create\<close>
  returns the code and what it stored as the device, \<open>None\<close> for a null pointer.
\<close>

record ('d, 'w) device_interface =
  di_create :: "('w lfs_allocator_t \<Rightarrow> string \<Rightarrow> (lfs_error_code_t \<times> 'd option, 'w) prog) option"
  di_destroy :: "('d \<Rightarrow> (unit, 'w) prog) option"
  di_fileExists :: "('d \<Rightarrow> string \<Rightarrow> (bool, 'w) prog) option"
  di_fileSize :: "('d \<Rightarrow> string \<Rightarrow> lfs_error_code_t \<Rightarrow> (u64 \<times> lfs_error_code_t, 'w) prog) option"
  di_readFile :: "('d \<Rightarrow> string \<Rightarrow> u64 \<Rightarrow> u64 \<Rightarrow> 'w lfs_allocator_t \<Rightarrow> addr \<Rightarrow> bool
    \<Rightarrow> lfs_error_code_t \<Rightarrow> (u64 \<times> addr \<times> lfs_error_code_t, 'w) prog) option"
  di_writeFile :: "('d \<Rightarrow> string \<Rightarrow> u64 \<Rightarrow> addr \<Rightarrow> u64 \<Rightarrow> lfs_write_mode_t
    \<Rightarrow> lfs_error_code_t \<Rightarrow> (u64 \<times> lfs_error_code_t, 'w) prog) option"
  di_deleteFile :: "('d \<Rightarrow> string \<Rightarrow> (lfs_error_code_t, 'w) prog) option"
  di_createDir :: "('d \<Rightarrow> string \<Rightarrow> (lfs_error_code_t, 'w) prog) option"
  di_deleteDir :: "('d \<Rightarrow> string \<Rightarrow> (lfs_error_code_t, 'w) prog) option"

text \<open>The pointers a registered interface must have.\<close>

definition required_pointers :: "('d, 'w) device_interface \<Rightarrow> bool" where
  "required_pointers i \<longleftrightarrow>
     di_create i \<noteq> None \<and> di_destroy i \<noteq> None \<and> di_fileExists i \<noteq> None
     \<and> di_fileSize i \<noteq> None \<and> di_readFile i \<noteq> None"

subsection \<open>The contract of a device that can be probed\<close>

text \<open>
  What the overlay relies on when it looks a file up: a device has, for every path it can serve, a status
  that its probes report and do not change. \<open>FileOf n\<close> is a regular file of \<open>n\<close> bytes, \<open>Missing\<close> a path
  where nothing is, \<open>Refused e\<close> everything else, with the error the device reports for it. What a device
  can serve is up to its implementation: a device that builds a host path needs memory for it.
\<close>

datatype path_status = FileOf u64 | Missing | Refused lfs_error_code_t

fun size_of_status :: "path_status \<Rightarrow> u64 \<times> lfs_error_code_t" where
  "size_of_status (FileOf n) = (n, LFS_OK)"
| "size_of_status Missing = (0, LFS_NOT_FOUND)"
| "size_of_status (Refused e) = (0, e)"

definition is_file :: "path_status \<Rightarrow> bool" where
  "is_file st = (case st of FileOf n \<Rightarrow> True | _ \<Rightarrow> False)"

locale probing_device =
  fixes di :: "('d, 'w) device_interface"
    and servable :: "'d \<Rightarrow> string \<Rightarrow> bool"
    and status :: "'w \<Rightarrow> 'd \<Rightarrow> string \<Rightarrow> path_status"
  assumes exists_probe: "servable d p \<Longrightarrow> \<exists>f. di_fileExists di = Some f \<and>
      (\<exists>w'. f d p w = Some (Inr (is_file (status w d p), w')) \<and> status w' = status w)"
    and size_probe: "servable d p \<Longrightarrow> \<exists>f. di_fileSize di = Some f \<and>
      (\<exists>w'. f d p c w = Some (Inr (size_of_status (status w d p), w')) \<and> status w' = status w)"
    and refused_code: "status w d p = Refused e \<Longrightarrow> e \<noteq> LFS_OK \<and> e \<noteq> LFS_NOT_FOUND"
begin

lemma size_not_found_iff:
  "snd (size_of_status (status w d p)) = LFS_NOT_FOUND \<longleftrightarrow> status w d p = Missing"
  using refused_code [of w d p] by (cases "status w d p") auto

lemma size_ok_iff: "snd (size_of_status (status w d p)) = LFS_OK \<longleftrightarrow> is_file (status w d p)"
  using refused_code [of w d p] by (cases "status w d p") (auto simp: is_file_def)

lemma exists_call:
  assumes "servable d p"
  shows "\<exists>w'. call_ptr (di_fileExists di) (\<lambda>f. f d p) w = Some (Inr (is_file (status w d p), w'))
    \<and> status w' = status w"
  using exists_probe [OF assms, of w] by (auto simp: call_ptr_def)

lemma size_call:
  assumes "servable d p"
  shows "\<exists>w'. call_ptr (di_fileSize di) (\<lambda>f. f d p c) w = Some (Inr (size_of_status (status w d p), w'))
    \<and> status w' = status w"
  using size_probe [OF assms, of c w] by (auto simp: call_ptr_def)

end

end
