(* ===== verification/Mounts.thy ===== *)
theory Mounts
  imports Device_Interface Normalize_Path
begin

text \<open>
  The mount table of a context and the resolution of virtual paths against it
  (\<^verbatim>\<open>findNextMountAndPath\<close> and \<^verbatim>\<open>findMutableMountAndPath\<close> of \<^verbatim>\<open>src/FileContext.cpp\<close>). A mount
  is identified by the address of its \<^verbatim>\<open>MountInfo\<close>, which the search compares; the interface pointer
  is the interface itself, which is never changed after registration.
\<close>

record ('d, 'w) mount_info =
  mi_self :: addr           \<comment> \<open>where the structure lies\<close>
  mi_prefix :: string
  mi_prefixPtr :: addr      \<comment> \<open>the block of the prefix string\<close>
  mi_device :: 'd
  mi_interface :: "('d, 'w) device_interface"
  mi_prefixLen :: u32
  mi_permissions :: u32

text \<open>The match of a path against a mount, and the path handed to the device.\<close>

definition mount_matches :: "string \<Rightarrow> ('d, 'w) mount_info \<Rightarrow> bool" where
  "mount_matches path m \<longleftrightarrow>
     strstr path (mi_prefix m) = Some 0
     \<and> (c_at path (unat (mi_prefixLen m)) = slash \<or> mi_prefixLen m = 1)"

definition mount_devicePath :: "string \<Rightarrow> ('d, 'w) mount_info \<Rightarrow> string" where
  "mount_devicePath path m =
     (if mi_prefixLen m = 1 then path else drop (unat (mi_prefixLen m)) path)"

text \<open>
  The search for the next readable mount: the mounts from the newest one, skipping those up to and
  including \<open>onlyAfter\<close> when it is not null.
\<close>

fun findNext_scan :: "string \<Rightarrow> addr \<Rightarrow> ('d, 'w) mount_info list
    \<Rightarrow> (('d, 'w) mount_info \<times> string) option" where
  "findNext_scan path onlyAfter [] = None"
| "findNext_scan path onlyAfter (m # ms) =
     (if mi_permissions m AND LFS_MOUNT_READ = 0 then findNext_scan path onlyAfter ms
      else if onlyAfter \<noteq> nullptr then
        findNext_scan path (if mi_self m = onlyAfter then nullptr else onlyAfter) ms
      else if mount_matches path m then Some (m, mount_devicePath path m)
      else findNext_scan path onlyAfter ms)"

definition findNextMountAndPath :: "string \<Rightarrow> addr \<Rightarrow> ('d, 'w) mount_info list
    \<Rightarrow> (('d, 'w) mount_info \<times> string) option" where
  "findNextMountAndPath path searchStart mounts = findNext_scan path searchStart (rev mounts)"

text \<open>The operations a mount does not permit, as the search for a writable mount tests them.\<close>

definition mount_denies :: "lfs_file_operation_t \<Rightarrow> u32 \<Rightarrow> bool" where
  "mount_denies op permissions \<longleftrightarrow>
     ((op = LFS_OP_WRITE \<or> op = LFS_OP_APPEND) \<and> permissions AND LFS_MOUNT_WRITE_FILE = 0)
     \<or> (op = LFS_OP_DELETE \<and> permissions AND LFS_MOUNT_DELETE_FILE = 0)
     \<or> (op = LFS_OP_CREATE_DIR \<and> permissions AND LFS_MOUNT_CREATE_DIR = 0)
     \<or> (op = LFS_OP_DELETE_DIR \<and> permissions AND LFS_MOUNT_DELETE_DIR = 0)"

fun findMutable_scan :: "string \<Rightarrow> lfs_file_operation_t \<Rightarrow> ('d, 'w) mount_info list
    \<Rightarrow> (('d, 'w) mount_info \<times> string) option" where
  "findMutable_scan path op [] = None"
| "findMutable_scan path op (m # ms) =
     (if mount_matches path m then
        if mount_denies op (mi_permissions m) then findMutable_scan path op ms
        else Some (m, mount_devicePath path m)
      else findMutable_scan path op ms)"

definition findMutableMountAndPath :: "string \<Rightarrow> lfs_file_operation_t \<Rightarrow> ('d, 'w) mount_info list
    \<Rightarrow> (('d, 'w) mount_info \<times> string) option" where
  "findMutableMountAndPath path op mounts = findMutable_scan path op (rev mounts)"

subsection \<open>Well-formed mounts and what a match means\<close>

definition mount_ok :: "('d, 'w) mount_info \<Rightarrow> bool" where
  "mount_ok m \<longleftrightarrow>
     mi_self m \<noteq> nullptr \<and> length (mi_prefix m) < 2 ^ 32
     \<and> mi_prefixLen m = of_nat (length (mi_prefix m))"

definition mounts_ok :: "('d, 'w) mount_info list \<Rightarrow> bool" where
  "mounts_ok mounts \<longleftrightarrow> (\<forall>m \<in> set mounts. mount_ok m) \<and> distinct (map mi_self mounts)"

lemma mount_ok_prefixLen: "mount_ok m \<Longrightarrow> unat (mi_prefixLen m) = length (mi_prefix m)"
  by (simp add: mount_ok_def unat_of_nat_small)

lemma mount_ok_root_iff: "mount_ok m \<Longrightarrow> mi_prefixLen m = 1 \<longleftrightarrow> length (mi_prefix m) = 1"
  using mount_ok_prefixLen [of m] by (auto simp: word_unat_eq_iff)

text \<open>A path matches a mount when the prefix is followed by a slash, or is one character long.\<close>

lemma mount_matches_iff:
  assumes "mount_ok m"
  shows "mount_matches path m \<longleftrightarrow>
    (\<exists>rest. path = mi_prefix m @ rest \<and> (length (mi_prefix m) = 1 \<or> (\<exists>r. rest = slash # r)))"
proof -
  have "c_at (mi_prefix m @ rest) (length (mi_prefix m)) = slash \<longleftrightarrow> (\<exists>r. rest = slash # r)" for rest
    using c_at_append2 [of "mi_prefix m" rest 0] by (cases rest) auto
  then show ?thesis
    using mount_ok_prefixLen [OF assms] mount_ok_root_iff [OF assms]
    by (auto simp: mount_matches_def strstr_0_iff)
qed

lemma mount_devicePath_eq:
  assumes "mount_ok m" "path = mi_prefix m @ rest"
  shows "mount_devicePath path m = (if length (mi_prefix m) = 1 then path else rest)"
  using mount_ok_prefixLen [OF assms(1)] mount_ok_root_iff [OF assms(1)] assms(2)
  by (auto simp: mount_devicePath_def)

subsection \<open>The mounts a lookup visits\<close>

text \<open>The readable mounts a path matches, newest first: what a lookup is to try, in this order.\<close>

definition readable :: "('d, 'w) mount_info \<Rightarrow> bool" where
  "readable m \<longleftrightarrow> mi_permissions m AND LFS_MOUNT_READ \<noteq> 0"

definition visible_mounts :: "string \<Rightarrow> ('d, 'w) mount_info list \<Rightarrow> ('d, 'w) mount_info list" where
  "visible_mounts path mounts = filter (\<lambda>m. readable m \<and> mount_matches path m) (rev mounts)"

lemma findNext_scan_null:
  "findNext_scan path nullptr ms =
    (case filter (\<lambda>m. readable m \<and> mount_matches path m) ms of
       [] \<Rightarrow> None | m # _ \<Rightarrow> Some (m, mount_devicePath path m))"
  by (induction ms) (auto simp: readable_def)

lemma findNext_scan_after:
  assumes "distinct (map mi_self (ms1 @ m # ms2))" "mi_self m \<noteq> nullptr" "readable m"
  shows "findNext_scan path (mi_self m) (ms1 @ m # ms2) = findNext_scan path nullptr ms2"
  using assms by (induction ms1) (auto simp: readable_def)

lemma filter_split:
  assumes "filter P xs = ys @ m # zs"
  shows "\<exists>xs1 xs2. xs = xs1 @ m # xs2 \<and> filter P xs2 = zs \<and> P m"
  using assms
proof (induction xs arbitrary: ys)
  case Nil
  then show ?case by simp
next
  case (Cons x xs)
  show ?case
  proof (cases "P x \<and> ys = []")
    case True
    with Cons.prems show ?thesis by (intro exI [of _ "[]"] exI [of _ xs]) auto
  next
    case False
    with Cons.prems have "filter P xs = (if P x then tl ys else ys) @ m # zs"
      by (cases ys) (auto split: if_splits)
    from Cons.IH [OF this] obtain xs1 xs2 where "xs = xs1 @ m # xs2" "filter P xs2 = zs" "P m" by blast
    then show ?thesis by (intro exI [of _ "x # xs1"] exI [of _ xs2]) auto
  qed
qed

text \<open>Repeated searches, each starting after the last mount found, enumerate the visible mounts.\<close>

lemma findNext_first:
  "findNextMountAndPath path nullptr mounts =
    (case visible_mounts path mounts of [] \<Rightarrow> None | m # _ \<Rightarrow> Some (m, mount_devicePath path m))"
  by (simp add: findNextMountAndPath_def visible_mounts_def findNext_scan_null)

lemma findNext_next:
  assumes "mounts_ok mounts" "visible_mounts path mounts = ms1 @ m # ms2"
  shows "findNextMountAndPath path (mi_self m) mounts =
    (case ms2 of [] \<Rightarrow> None | m' # _ \<Rightarrow> Some (m', mount_devicePath path m'))"
proof -
  from filter_split [OF assms(2) [unfolded visible_mounts_def]] obtain xs1 xs2 where
    x: "rev mounts = xs1 @ m # xs2" and ms2: "filter (\<lambda>m. readable m \<and> mount_matches path m) xs2 = ms2"
    and m: "readable m" by blast
  have "distinct (map mi_self (rev mounts))"
    using assms(1) by (simp add: mounts_ok_def flip: rev_map)
  moreover have "m \<in> set mounts" using arg_cong [OF x, of set] by auto
  then have "mi_self m \<noteq> nullptr" using assms(1) by (auto simp: mounts_ok_def mount_ok_def)
  ultimately have "findNext_scan path (mi_self m) (rev mounts) = findNext_scan path nullptr xs2"
    using findNext_scan_after [of xs1 m xs2 path] m by (simp add: x)
  then show ?thesis by (simp add: findNextMountAndPath_def findNext_scan_null ms2)
qed

subsection \<open>The mount a modification goes to\<close>

lemma findMutable_scan_find:
  "findMutable_scan path op ms =
    map_option (\<lambda>m. (m, mount_devicePath path m))
      (List.find (\<lambda>m. mount_matches path m \<and> \<not> mount_denies op (mi_permissions m)) ms)"
  by (induction ms) auto

text \<open>The first element a search finds, by the list around it.\<close>

lemma find_Some_split:
  "List.find P xs = Some x \<longleftrightarrow> (\<exists>ys zs. xs = ys @ x # zs \<and> P x \<and> (\<forall>y \<in> set ys. \<not> P y))"
proof
  assume "List.find P xs = Some x"
  then show "\<exists>ys zs. xs = ys @ x # zs \<and> P x \<and> (\<forall>y \<in> set ys. \<not> P y)"
  proof (induction xs)
    case (Cons y xs)
    show ?case
    proof (cases "P y")
      case True
      with Cons.prems show ?thesis by (intro exI [of _ "[]"] exI [of _ xs]) simp
    next
      case False
      with Cons obtain ys zs where "xs = ys @ x # zs" "P x" "\<forall>y \<in> set ys. \<not> P y" by auto
      with False show ?thesis by (intro exI [of _ "y # ys"] exI [of _ zs]) simp
    qed
  qed simp
next
  have "List.find P (ys @ x # zs) = Some x" if "P x" "\<forall>y \<in> set ys. \<not> P y" for ys zs
    using that by (induction ys) auto
  then show "\<exists>ys zs. xs = ys @ x # zs \<and> P x \<and> (\<forall>y \<in> set ys. \<not> P y) \<Longrightarrow> List.find P xs = Some x"
    by blast
qed

text \<open>
  The permission bit an operation needs, in the numbering of \<^verbatim>\<open>lfs_mount_permissions_t\<close>;
  \<open>None\<close> when the search tests none.
\<close>

definition tested_permission :: "lfs_file_operation_t \<Rightarrow> nat option" where
  "tested_permission op =
     (case op of
        LFS_OP_WRITE \<Rightarrow> Some 1
      | LFS_OP_APPEND \<Rightarrow> Some 1
      | LFS_OP_DELETE \<Rightarrow> Some 2
      | LFS_OP_CREATE_DIR \<Rightarrow> Some 3
      | LFS_OP_DELETE_DIR \<Rightarrow> Some 4
      | _ \<Rightarrow> None)"

definition permits :: "lfs_file_operation_t \<Rightarrow> u32 \<Rightarrow> bool" where
  "permits op permissions =
     (case tested_permission op of None \<Rightarrow> True | Some k \<Rightarrow> bit permissions k)"

lemma permission_bits:
  "p AND LFS_MOUNT_READ = 0 \<longleftrightarrow> \<not> bit p 0"
  "p AND LFS_MOUNT_WRITE_FILE = 0 \<longleftrightarrow> \<not> bit p 1"
  "p AND LFS_MOUNT_DELETE_FILE = 0 \<longleftrightarrow> \<not> bit p 2"
  "p AND LFS_MOUNT_CREATE_DIR = 0 \<longleftrightarrow> \<not> bit p 3"
  "p AND LFS_MOUNT_DELETE_DIR = 0 \<longleftrightarrow> \<not> bit p 4"
  using perm_bit_test [of 0 p] perm_bit_test [of 1 p] perm_bit_test [of 2 p] perm_bit_test [of 3 p]
    perm_bit_test [of 4 p]
  unfolding LFS_MOUNT_READ_def LFS_MOUNT_WRITE_FILE_def LFS_MOUNT_DELETE_FILE_def
    LFS_MOUNT_CREATE_DIR_def LFS_MOUNT_DELETE_DIR_def
  by (auto simp del: push_bit_of_1)

lemma permits_iff: "permits op p \<longleftrightarrow> \<not> mount_denies op p"
  by (cases op) (simp_all add: permits_def tested_permission_def mount_denies_def permission_bits)

subsection \<open>Mount points and path segments\<close>

lemma segments_append_slash_any: "segments (s @ slash # t) = segments s @ segments t"
  by (induction s) (auto split: list.splits simp: neq_Nil_conv)

lemma segments_join_proper: "\<forall>seg \<in> set segs. proper seg \<Longrightarrow> segments (join segs) = '''' # segs"
  using segments_append_join [of "''''" segs] by (simp add: proper_def)

lemma join_append [simp]: "join (xs @ ys) = join xs @ join ys"
  by (simp add: join_def)

text \<open>A normalised path continues another one with a slash exactly when it has more segments.\<close>

lemma join_below_iff:
  assumes "\<forall>seg \<in> set pre. proper seg" "\<forall>seg \<in> set segs. proper seg"
  shows "(\<exists>r. join segs = join pre @ slash # r) \<longleftrightarrow> (\<exists>more. more \<noteq> [] \<and> segs = pre @ more)"
proof
  assume "\<exists>r. join segs = join pre @ slash # r"
  then obtain r where "join segs = join pre @ slash # r" by blast
  then have "segments (join segs) = segments (join pre) @ segments r"
    by (simp add: segments_append_slash_any)
  then have "segs = pre @ segments r" by (simp add: segments_join_proper assms)
  then show "\<exists>more. more \<noteq> [] \<and> segs = pre @ more" by (intro exI [of _ "segments r"]) simp
next
  assume "\<exists>more. more \<noteq> [] \<and> segs = pre @ more"
  then show "\<exists>r. join segs = join pre @ slash # r" by (auto simp: neq_Nil_conv)
qed

lemma join_length_1: "\<forall>seg \<in> set segs. proper seg \<Longrightarrow> length (join segs) \<noteq> 1"
  by (cases segs) (auto simp: proper_def)

subsection \<open>Properties\<close>

text \<open>
  C17: the lookup goes through the mounts in the reverse of the order they were made in. The first
  search gives the newest mount that is readable and matches the path; a search that starts after
  the \<open>k\<close>-th such mount gives the next one, and the search after the last gives none. Mounts without
  the read permission are never returned.
\<close>

theorem lookup_visits_newest_first:
  assumes "mounts_ok mounts"
    and "vis = filter (\<lambda>m. mi_permissions m AND LFS_MOUNT_READ \<noteq> 0 \<and> mount_matches path m) (rev mounts)"
    and "k \<le> length vis"
  shows "findNextMountAndPath path (if k = 0 then nullptr else mi_self (vis ! (k - 1))) mounts =
    (if k < length vis then Some (vis ! k, mount_devicePath path (vis ! k)) else None)"
proof -
  have vis: "vis = visible_mounts path mounts"
    using assms(2) by (simp add: visible_mounts_def readable_def)
  show ?thesis
  proof (cases k)
    case 0
    then show ?thesis by (simp add: vis findNext_first split: list.splits)
  next
    case (Suc j)
    with assms(3) have "visible_mounts path mounts = take j vis @ vis ! j # drop (Suc j) vis"
      by (simp add: vis id_take_nth_drop [symmetric])
    from findNext_next [OF assms(1) this] Suc show ?thesis
      by (auto simp: hd_drop_conv_nth split: list.splits dest: arg_cong [where f = hd])
  qed
qed

text \<open>
  A modification goes to the newest mount that matches the path and has the permission the
  operation needs; newer matching mounts without it are passed over, and there is no result exactly
  when no matching mount permits the operation. (\<open>tested_permission\<close> names the permission; it is
  missing for segment writes, see below.)
\<close>

theorem modification_goes_to_newest_permitting:
  "(findMutableMountAndPath path op mounts = Some (m, p) \<longleftrightarrow>
      (\<exists>older newer. mounts = older @ m # newer \<and> p = mount_devicePath path m
        \<and> mount_matches path m \<and> permits op (mi_permissions m)
        \<and> (\<forall>m' \<in> set newer. \<not> (mount_matches path m' \<and> permits op (mi_permissions m')))))
   \<and> (findMutableMountAndPath path op mounts = None \<longleftrightarrow>
      (\<forall>m' \<in> set mounts. \<not> (mount_matches path m' \<and> permits op (mi_permissions m'))))"
proof -
  let ?ok = "\<lambda>m. mount_matches path m \<and> permits op (mi_permissions m)"
  have f: "findMutableMountAndPath path op mounts =
      map_option (\<lambda>m. (m, mount_devicePath path m)) (List.find ?ok (rev mounts))"
    by (simp add: findMutableMountAndPath_def findMutable_scan_find permits_iff)
  have r: "rev mounts = newer @ m # older \<longleftrightarrow> mounts = rev older @ m # rev newer" for newer older
    by (subst rev_swap) simp
  have "List.find ?ok (rev mounts) = Some m \<longleftrightarrow>
      (\<exists>older newer. mounts = older @ m # newer \<and> ?ok m \<and> (\<forall>m' \<in> set newer. \<not> ?ok m'))"
    unfolding find_Some_split r by (metis rev_rev_ident set_rev)
  moreover have "List.find ?ok (rev mounts) = None \<longleftrightarrow> (\<forall>m' \<in> set mounts. \<not> ?ok m')"
    unfolding find_None_iff set_rev by blast
  moreover have "map_option (\<lambda>m. (m, mount_devicePath path m)) r = Some (m, p)
      \<longleftrightarrow> r = Some m \<and> p = mount_devicePath path m" for r
    by (cases r) auto
  ultimately show ?thesis unfolding f by (simp only: map_option_is_None) blast
qed

text \<open>
  C18: for normalised paths, matching is a matter of whole segments. A mount whose point is the
  absolute path with segments \<open>pre\<close> serves exactly the paths strictly below it, and its device gets the
  remaining segments as an absolute path; a mount on the root serves every path unchanged. No path
  is served by a mount whose point is only a textual prefix of it.
\<close>

theorem mount_serves_paths_below:
  assumes "mount_ok m" "mi_prefix m = (if pre = [] then ''/'' else join pre)"
    and "\<forall>seg \<in> set pre. proper seg" "\<forall>seg \<in> set segs. proper seg" "segs \<noteq> []"
  shows "(mount_matches (join segs) m \<longleftrightarrow> (\<exists>more. more \<noteq> [] \<and> segs = pre @ more))
    \<and> (\<forall>more. more \<noteq> [] \<and> segs = pre @ more \<longrightarrow> mount_devicePath (join segs) m = join more)"
proof (cases "pre = []")
  case True
  obtain seg segs' where "segs = seg # segs'" using assms(5) by (cases segs) auto
  with True assms mount_devicePath_eq [OF assms(1), of "join segs" "tl (join segs)"] show ?thesis
    by (auto simp: mount_matches_iff)
next
  case False
  then have pre: "mi_prefix m = join pre" using assms(2) by simp
  then have len: "length (mi_prefix m) \<noteq> 1" using join_length_1 [OF assms(3)] by simp
  have "mount_matches (join segs) m \<longleftrightarrow> (\<exists>r. join segs = join pre @ slash # r)"
    using len by (auto simp: mount_matches_iff [OF assms(1)] pre)
  moreover have "mount_devicePath (join (pre @ more)) m = join more" for more
    using mount_devicePath_eq [OF assms(1), of "join (pre @ more)" "join more"] len pre by simp
  ultimately show ?thesis using join_below_iff [OF assms(3,4)] by auto
qed

text \<open>
  Writes to a segment of a file are not held back by permissions. Whatever the mount permissions
  are, a segment write goes to the newest matching mount, even when that mount is read-only and a
  plain write or an append to the same path is refused.
\<close>

theorem segment_write_ignores_permissions:
  assumes "mounts = older @ m # newer" "mount_matches path m" "\<forall>m' \<in> set newer. \<not> mount_matches path m'"
    and "mi_permissions m = LFS_MOUNT_READ" "\<forall>m' \<in> set older. \<not> mount_matches path m'"
  shows "findMutableMountAndPath path LFS_OP_WRITE_SEGMENT mounts = Some (m, mount_devicePath path m)
    \<and> findMutableMountAndPath path LFS_OP_WRITE mounts = None
    \<and> findMutableMountAndPath path LFS_OP_APPEND mounts = None"
proof -
  have skip: "findMutable_scan path op (xs @ ys) = findMutable_scan path op ys"
    if "\<forall>m' \<in> set xs. \<not> mount_matches path m'" for op xs and ys :: "('a, 'b) mount_info list"
    using that by (induction xs) auto
  have none: "findMutable_scan path op (rev older) = None" for op
    using skip [of "rev older" op "[]"] assms(5) by simp
  show ?thesis
    using assms(1-4) skip [of "rev newer"] none
    by (simp add: findMutableMountAndPath_def mount_denies_def mount_permission_values)
qed

subsection \<open>The properties at work\<close>

text \<open>Two mounts of the same tree, the newer one read-only, and one whose prefix is longer.\<close>

definition no_device :: "(unit, unit) device_interface" where
  "no_device = \<lparr>di_create = None, di_destroy = None, di_fileExists = None, di_fileSize = None,
     di_readFile = None, di_writeFile = None, di_deleteFile = None, di_createDir = None,
     di_deleteDir = None\<rparr>"

definition sample_mount :: "addr \<Rightarrow> string \<Rightarrow> u32 \<Rightarrow> (unit, unit) mount_info" where
  "sample_mount a prefix permissions = \<lparr>mi_self = a, mi_prefix = prefix, mi_prefixPtr = a + 1,
     mi_device = (), mi_interface = no_device, mi_prefixLen = of_nat (length prefix),
     mi_permissions = permissions\<rparr>"

lemma lookup_visits_newest_first_witness:
  "findNextMountAndPath ''/a/f'' (mi_self (sample_mount 24 ''/a'' 1))
     [sample_mount 8 ''/'' 31, sample_mount 16 ''/a'' 2, sample_mount 24 ''/a'' 1, sample_mount 32 ''/ab'' 1]
   = Some (sample_mount 8 ''/'' 31, ''/a/f'')"
  using lookup_visits_newest_first [of "[sample_mount 8 ''/'' 31, sample_mount 16 ''/a'' 2,
      sample_mount 24 ''/a'' 1, sample_mount 32 ''/ab'' 1]"
      "[sample_mount 24 ''/a'' 1, sample_mount 8 ''/'' 31]" "''/a/f''" 1]
  by (simp add: mounts_ok_def mount_ok_def sample_mount_def mount_permission_values
      mount_matches_def c_at_def mount_devicePath_def)

lemma mount_serves_paths_below_witness:
  "mount_matches ''/a/b/c'' (sample_mount 8 ''/a/b'' 1) \<and> \<not> mount_matches ''/a/bc'' (sample_mount 8 ''/a/b'' 1)"
  using mount_serves_paths_below [of "sample_mount 8 ''/a/b'' 1" "[''a'', ''b'']" "[''a'', ''b'', ''c'']"]
    mount_serves_paths_below [of "sample_mount 8 ''/a/b'' 1" "[''a'', ''b'']" "[''a'', ''bc'']"]
  by (simp add: sample_mount_def mount_ok_def proper_def)

lemma segment_write_ignores_permissions_witness:
  "findMutableMountAndPath ''/ro/f'' LFS_OP_WRITE_SEGMENT [sample_mount 8 ''/ro'' 1]
    = Some (sample_mount 8 ''/ro'' 1, ''/f'')"
  using segment_write_ignores_permissions [of "[sample_mount 8 ''/ro'' 1]" "[]" "sample_mount 8 ''/ro'' 1"
      "[]" "''/ro/f''"]
  by (simp add: sample_mount_def mount_permission_values mount_matches_def c_at_def mount_devicePath_def)

lemma modification_goes_to_newest_permitting_witness:
  "findMutableMountAndPath ''/a/f'' LFS_OP_DELETE
     [sample_mount 8 ''/'' 4, sample_mount 16 ''/a'' 4, sample_mount 24 ''/a'' 3, sample_mount 32 ''/b'' 4]
   = Some (sample_mount 16 ''/a'' 4, ''/f'')"
proof -
  let ?ms = "[sample_mount 8 ''/'' 4, sample_mount 16 ''/a'' 4, sample_mount 24 ''/a'' 3,
    sample_mount 32 ''/b'' 4]"
  have "\<exists>older newer. ?ms = older @ sample_mount 16 ''/a'' 4 # newer
      \<and> ''/f'' = mount_devicePath ''/a/f'' (sample_mount 16 ''/a'' 4)
      \<and> mount_matches ''/a/f'' (sample_mount 16 ''/a'' 4)
      \<and> permits LFS_OP_DELETE (mi_permissions (sample_mount 16 ''/a'' 4))
      \<and> (\<forall>m' \<in> set newer. \<not> (mount_matches ''/a/f'' m' \<and> permits LFS_OP_DELETE (mi_permissions m')))"
    by (rule exI [of _ "[sample_mount 8 ''/'' 4]"], rule exI [of _ "[sample_mount 24 ''/a'' 3, sample_mount 32 ''/b'' 4]"])
      (simp add: sample_mount_def mount_matches_def mount_devicePath_def c_at_def permits_def
        tested_permission_def bit_simps)
  then show ?thesis
    using modification_goes_to_newest_permitting [of "''/a/f''" LFS_OP_DELETE ?ms "sample_mount 16 ''/a'' 4" "''/f''"]
    by blast
qed

end
