(* ===== verification/Work_Item.thy ===== *)
theory Work_Item
  imports Device_Interface
begin

text \<open>
  A work item (\<^verbatim>\<open>lfs_work_item_t\<close> of \<^verbatim>\<open>src/FileContext.cpp\<close>) and the functions that
  read one. The file name is kept as the address of its block and the characters in it. Callbacks are
  function pointers of the user, known by their address; address 0 is no callback.

  The accessors take a pointer to a work item, \<open>None\<close> for null. \<^verbatim>\<open>WaitForWorkItem\<close> is the test its
  loop makes each time it holds the completion lock: \<open>None\<close> while the caller goes on waiting.
\<close>

record 'w lfs_work_item_t =
  wi_operation :: lfs_file_operation_t
  wi_callback :: addr
  wi_callbackUserData :: addr
  wi_allocator :: "'w lfs_allocator_t"
  wi_context :: addr
  wi_filename :: addr
  wi_filenameText :: string
  wi_buffer :: addr
  wi_bufferBytes :: u64
  wi_offset :: u64
  wi_callbackBufferAction :: lfs_callback_buffer_action_t
  wi_resultCode :: lfs_error_code_t
  wi_nullTerminate :: bool
  wi_completed :: bool

text \<open>
  The item made by \<^verbatim>\<open>new(result) T()\<close>: value initialisation zeroes the members that have no
  initialiser of their own, among them the allocator.
\<close>

definition new_work_item :: "'w lfs_work_item_t" where
  "new_work_item = \<lparr>wi_operation = LFS_OP_EXISTS, wi_callback = nullptr,
     wi_callbackUserData = nullptr, wi_allocator = null_allocator, wi_context = nullptr,
     wi_filename = nullptr, wi_filenameText = '''', wi_buffer = nullptr, wi_bufferBytes = 0,
     wi_offset = 0, wi_callbackBufferAction = LFS_DO_NOT_FREE_BUFFER, wi_resultCode = LFS_OK,
     wi_nullTerminate = False, wi_completed = False\<rparr>"

definition WorkItemGetResult :: "'w lfs_work_item_t option \<Rightarrow> lfs_error_code_t" where
  "WorkItemGetResult workItem =
     (case workItem of Some item \<Rightarrow> wi_resultCode item | None \<Rightarrow> LFS_OUT_OF_WORK_ITEMS)"

definition WorkItemGetBuffer :: "'w lfs_work_item_t option \<Rightarrow> addr" where
  "WorkItemGetBuffer workItem =
     (case workItem of Some item \<Rightarrow> wi_buffer item | None \<Rightarrow> nullptr)"

definition WorkItemFreeBuffer :: "'w lfs_work_item_t option
    \<Rightarrow> ('w lfs_work_item_t option, 'w) prog" where
  "WorkItemFreeBuffer workItem =
     (case workItem of
        Some item \<Rightarrow>
          if wi_buffer item \<noteq> nullptr then
            andThen (call_free (wi_allocator item) (wi_buffer item)) (\<lambda>_.
            ret (Some (item\<lparr>wi_buffer := nullptr\<rparr>)))
          else ret (Some item)
      | None \<Rightarrow> ret None)"

definition WorkItemGetBytes :: "'w lfs_work_item_t option \<Rightarrow> u64" where
  "WorkItemGetBytes workItem =
     (case workItem of Some item \<Rightarrow> wi_bufferBytes item | None \<Rightarrow> 0)"

definition WorkItemCompleted :: "'w lfs_work_item_t option \<Rightarrow> bool" where
  "WorkItemCompleted workItem =
     (case workItem of
        Some item \<Rightarrow> if wi_callback item = nullptr then wi_completed item else True
      | None \<Rightarrow> True)"

definition WaitForWorkItem :: "'w lfs_work_item_t option \<Rightarrow> unit option" where
  "WaitForWorkItem workItem =
     (case workItem of
        Some item \<Rightarrow>
          if wi_callback item = nullptr then (if wi_completed item then Some () else None)
          else Some ()
      | None \<Rightarrow> Some ())"

lemma wait_returns_iff_completed: "WaitForWorkItem item \<noteq> None \<longleftrightarrow> WorkItemCompleted item"
  by (auto simp: WaitForWorkItem_def WorkItemCompleted_def split: option.splits)

end
