(* ===== verification/Item_Processing.thy ===== *)
theory Item_Processing
  imports Mounts Work_Item
begin

text \<open>
  What the processing thread does with one work item: the \<^verbatim>\<open>switch\<close> of \<^verbatim>\<open>processingFunc\<close> in
  \<^verbatim>\<open>src/FileContext.cpp\<close>. The device operations run in the world, and the item is handed
  from one step to the next; the mounts are those of the context while the item is processed. The three
  lookup loops may call a device that does not return and, if two mounts had one address, would not end
  themselves, so they are partial functions.
\<close>

text \<open>
  \<^verbatim>\<open>LFS_OP_EXISTS\<close>: the loop with the variable \<^verbatim>\<open>mount\<close>, the mount the next search starts
  after. The result is the code the item gets.
\<close>

partial_function (option) exists_loop :: "('d, 'w) mount_info list \<Rightarrow> string \<Rightarrow> addr \<Rightarrow> 'w
    \<Rightarrow> (fault + lfs_error_code_t \<times> 'w) option" where
  "exists_loop mounts path mount w =
     (case findNextMountAndPath path mount mounts of
        None \<Rightarrow> Some (Inr (LFS_NOT_FOUND, w))
      | Some (m, devicePath) \<Rightarrow>
          andThen (call_ptr (di_fileExists (mi_interface m)) (\<lambda>f. f (mi_device m) devicePath))
            (\<lambda>exists w'. if exists then Some (Inr (LFS_OK, w'))
              else exists_loop mounts path (mi_self m) w') w)"

text \<open>
  \<^verbatim>\<open>LFS_OP_SIZE\<close>: the loop over \<^verbatim>\<open>_bufferBytes\<close> and \<^verbatim>\<open>_resultCode\<close>, which keep what the
  last device left there.
\<close>

partial_function (option) size_loop :: "('d, 'w) mount_info list \<Rightarrow> string \<Rightarrow> addr
    \<Rightarrow> u64 \<Rightarrow> lfs_error_code_t \<Rightarrow> 'w \<Rightarrow> (fault + (u64 \<times> lfs_error_code_t) \<times> 'w) option" where
  "size_loop mounts path mount bytes code w =
     (case findNextMountAndPath path mount mounts of
        None \<Rightarrow> Some (Inr ((bytes, code), w))
      | Some (m, devicePath) \<Rightarrow>
          andThen (call_ptr (di_fileSize (mi_interface m)) (\<lambda>f. f (mi_device m) devicePath code))
            (\<lambda>(bytes', code') w'. if code' \<noteq> LFS_NOT_FOUND then Some (Inr ((bytes', code'), w'))
              else size_loop mounts path (mi_self m) bytes' code' w') w)"

text \<open>
  \<^verbatim>\<open>LFS_OP_READ\<close>: as for the size, with the buffer pointer, which the device may set, and the
  request taken from the item \<open>it\<close>.
\<close>

partial_function (option) read_loop :: "('d, 'w) mount_info list \<Rightarrow> 'w lfs_work_item_t \<Rightarrow> u64 \<Rightarrow> addr
    \<Rightarrow> u64 \<Rightarrow> addr \<Rightarrow> lfs_error_code_t \<Rightarrow> 'w
    \<Rightarrow> (fault + (u64 \<times> addr \<times> lfs_error_code_t) \<times> 'w) option" where
  "read_loop mounts it maxBytes mount bytes buffer code w =
     (case findNextMountAndPath (wi_filenameText it) mount mounts of
        None \<Rightarrow> Some (Inr ((bytes, buffer, code), w))
      | Some (m, devicePath) \<Rightarrow>
          andThen (call_ptr (di_readFile (mi_interface m))
              (\<lambda>f. f (mi_device m) devicePath (wi_offset it) maxBytes (wi_allocator it) buffer
                    (wi_nullTerminate it) code))
            (\<lambda>(bytes', buffer', code') w'.
               if code' \<noteq> LFS_NOT_FOUND then Some (Inr ((bytes', buffer', code'), w'))
               else read_loop mounts it maxBytes (mi_self m) bytes' buffer' code' w') w)"

definition process_exists :: "('d, 'w) mount_info list \<Rightarrow> 'w lfs_work_item_t
    \<Rightarrow> ('w lfs_work_item_t, 'w) prog" where
  "process_exists mounts item =
     andThen (exists_loop mounts (wi_filenameText item) nullptr) (\<lambda>code.
     ret (item\<lparr>wi_resultCode := code\<rparr>))"

definition process_size :: "('d, 'w) mount_info list \<Rightarrow> 'w lfs_work_item_t
    \<Rightarrow> ('w lfs_work_item_t, 'w) prog" where
  "process_size mounts item =
     andThen (size_loop mounts (wi_filenameText item) nullptr 0 LFS_NOT_FOUND) (\<lambda>(bytes, code).
     ret (item\<lparr>wi_bufferBytes := bytes, wi_resultCode := code\<rparr>))"

definition process_read :: "('d, 'w) mount_info list \<Rightarrow> 'w lfs_work_item_t
    \<Rightarrow> ('w lfs_work_item_t, 'w) prog" where
  "process_read mounts item =
     andThen (read_loop mounts item (wi_bufferBytes item) nullptr 0 (wi_buffer item) LFS_NOT_FOUND)
       (\<lambda>(bytes, buffer, code).
     ret (item\<lparr>wi_bufferBytes := bytes, wi_buffer := buffer, wi_resultCode := code\<rparr>))"

definition write_mode :: "lfs_file_operation_t \<Rightarrow> lfs_write_mode_t" where
  "write_mode op =
     (case op of
        LFS_OP_WRITE \<Rightarrow> LFS_WRITE_TRUNCATE
      | LFS_OP_WRITE_SEGMENT \<Rightarrow> LFS_WRITE_SEGMENT
      | LFS_OP_APPEND \<Rightarrow> LFS_WRITE_APPEND
      | _ \<Rightarrow> LFS_WRITE_TRUNCATE)"

definition process_write :: "('d, 'w) mount_info list \<Rightarrow> 'w lfs_work_item_t
    \<Rightarrow> ('w lfs_work_item_t, 'w) prog" where
  "process_write mounts item =
     (case findMutableMountAndPath (wi_filenameText item) (wi_operation item) mounts of
        Some (m, devicePath) \<Rightarrow>
          andThen (call_ptr (di_writeFile (mi_interface m))
              (\<lambda>f. f (mi_device m) devicePath (wi_offset item) (wi_buffer item) (wi_bufferBytes item)
                    (write_mode (wi_operation item)) (wi_resultCode item)))
            (\<lambda>(bytes, code). ret (item\<lparr>wi_bufferBytes := bytes, wi_resultCode := code\<rparr>))
      | None \<Rightarrow> ret (item\<lparr>wi_bufferBytes := 0, wi_resultCode := LFS_UNSUPPORTED\<rparr>))"

text \<open>
  \<^verbatim>\<open>LFS_OP_DELETE\<close>, \<^verbatim>\<open>LFS_OP_CREATE_DIR\<close> and \<^verbatim>\<open>LFS_OP_DELETE_DIR\<close>, which differ in the
  operation of the device they call.
\<close>

definition process_simple :: "(('d, 'w) device_interface \<Rightarrow> ('d \<Rightarrow> string \<Rightarrow> (lfs_error_code_t, 'w) prog) option)
    \<Rightarrow> ('d, 'w) mount_info list \<Rightarrow> 'w lfs_work_item_t \<Rightarrow> ('w lfs_work_item_t, 'w) prog" where
  "process_simple operation mounts item =
     (case findMutableMountAndPath (wi_filenameText item) (wi_operation item) mounts of
        Some (m, devicePath) \<Rightarrow>
          andThen (call_ptr (operation (mi_interface m)) (\<lambda>f. f (mi_device m) devicePath)) (\<lambda>code.
          ret (item\<lparr>wi_resultCode := code\<rparr>))
      | None \<Rightarrow> ret (item\<lparr>wi_resultCode := LFS_UNSUPPORTED\<rparr>))"

definition process_item :: "('d, 'w) mount_info list \<Rightarrow> 'w lfs_work_item_t
    \<Rightarrow> ('w lfs_work_item_t, 'w) prog" where
  "process_item mounts item =
     (case wi_operation item of
        LFS_OP_EXISTS \<Rightarrow> process_exists mounts item
      | LFS_OP_SIZE \<Rightarrow> process_size mounts item
      | LFS_OP_READ \<Rightarrow> process_read mounts item
      | LFS_OP_WRITE \<Rightarrow> process_write mounts item
      | LFS_OP_WRITE_SEGMENT \<Rightarrow> process_write mounts item
      | LFS_OP_APPEND \<Rightarrow> process_write mounts item
      | LFS_OP_DELETE \<Rightarrow> process_simple di_deleteFile mounts item
      | LFS_OP_CREATE_DIR \<Rightarrow> process_simple di_createDir mounts item
      | LFS_OP_DELETE_DIR \<Rightarrow> process_simple di_deleteDir mounts item)"

subsection \<open>The lookup loops, mount by mount\<close>

text \<open>
  The same lookups as recursions over a list of mounts, which is what the loops amount to: a device
  after the other is asked until one has the answer.
\<close>

fun ask_exists :: "string \<Rightarrow> ('d, 'w) mount_info list \<Rightarrow> (lfs_error_code_t, 'w) prog" where
  "ask_exists path [] = ret LFS_NOT_FOUND"
| "ask_exists path (m # ms) =
     andThen (call_ptr (di_fileExists (mi_interface m)) (\<lambda>f. f (mi_device m) (mount_devicePath path m)))
       (\<lambda>exists. if exists then ret LFS_OK else ask_exists path ms)"

fun ask_size :: "string \<Rightarrow> u64 \<Rightarrow> lfs_error_code_t \<Rightarrow> ('d, 'w) mount_info list
    \<Rightarrow> (u64 \<times> lfs_error_code_t, 'w) prog" where
  "ask_size path bytes code [] = ret (bytes, code)"
| "ask_size path bytes code (m # ms) =
     andThen (call_ptr (di_fileSize (mi_interface m))
         (\<lambda>f. f (mi_device m) (mount_devicePath path m) code))
       (\<lambda>(bytes', code'). if code' \<noteq> LFS_NOT_FOUND then ret (bytes', code')
         else ask_size path bytes' code' ms)"

fun ask_read :: "'w lfs_work_item_t \<Rightarrow> u64 \<Rightarrow> u64 \<Rightarrow> addr \<Rightarrow> lfs_error_code_t
    \<Rightarrow> ('d, 'w) mount_info list \<Rightarrow> (u64 \<times> addr \<times> lfs_error_code_t, 'w) prog" where
  "ask_read it maxBytes bytes buffer code [] = ret (bytes, buffer, code)"
| "ask_read it maxBytes bytes buffer code (m # ms) =
     andThen (call_ptr (di_readFile (mi_interface m))
         (\<lambda>f. f (mi_device m) (mount_devicePath (wi_filenameText it) m) (wi_offset it) maxBytes
               (wi_allocator it) buffer (wi_nullTerminate it) code))
       (\<lambda>(bytes', buffer', code'). if code' \<noteq> LFS_NOT_FOUND then ret (bytes', buffer', code')
         else ask_read it maxBytes bytes' buffer' code' ms)"

text \<open>
  Where a loop stands in the visible mounts: before the first one, or after one of them. The next
  search gives the rest of the list.
\<close>

definition search_start :: "('d, 'w) mount_info list \<Rightarrow> addr" where
  "search_start tried = (if tried = [] then nullptr else mi_self (last tried))"

lemma search_start_simps [simp]:
  "search_start [] = nullptr"
  "search_start (ms @ [m]) = mi_self m"
  by (simp_all add: search_start_def)

lemma findNext_search_start:
  assumes "mounts_ok mounts" "visible_mounts path mounts = tried @ rest"
  shows "findNextMountAndPath path (search_start tried) mounts =
    (case rest of [] \<Rightarrow> None | m # _ \<Rightarrow> Some (m, mount_devicePath path m))"
proof (cases tried rule: rev_cases)
  case Nil
  with assms(2) show ?thesis by (simp add: findNext_first)
next
  case (snoc ms m)
  with assms(2) have "visible_mounts path mounts = ms @ m # rest" by simp
  from findNext_next [OF assms(1) this] snoc show ?thesis by simp
qed

lemma andThen_cong_fun: "(\<And>x s. k x s = k' x s) \<Longrightarrow> andThen m k s = andThen m k' s"
  by (simp add: andThen_def split: option.splits sum.splits)

lemma exists_loop_ask:
  assumes "mounts_ok mounts" "visible_mounts path mounts = tried @ rest"
  shows "exists_loop mounts path (search_start tried) w = ask_exists path rest w"
  using assms(2)
proof (induction rest arbitrary: tried w)
  case Nil
  then show ?case
    by (simp add: exists_loop.simps findNext_search_start [OF assms(1) Nil] prog_simps)
next
  case (Cons m rest)
  from Cons.IH [of "tried @ [m]"] Cons.prems
  have IH: "exists_loop mounts path (mi_self m) w' = ask_exists path rest w'" for w' by simp
  show ?case
    by (simp add: exists_loop.simps [of mounts path "search_start tried"] IH
        findNext_search_start [OF assms(1) Cons.prems])
      (rule andThen_cong_fun, simp add: ret_def IH)
qed

lemma size_loop_ask:
  assumes "mounts_ok mounts" "visible_mounts path mounts = tried @ rest"
  shows "size_loop mounts path (search_start tried) bytes code w = ask_size path bytes code rest w"
  using assms(2)
proof (induction rest arbitrary: tried bytes code w)
  case Nil
  then show ?case
    by (simp add: size_loop.simps findNext_search_start [OF assms(1) Nil] prog_simps)
next
  case (Cons m rest)
  from Cons.IH [of "tried @ [m]"] Cons.prems
  have IH: "size_loop mounts path (mi_self m) b c w' = ask_size path b c rest w'" for b c w' by simp
  show ?case
    by (simp add: size_loop.simps [of mounts path "search_start tried"] IH
        findNext_search_start [OF assms(1) Cons.prems])
      (rule andThen_cong_fun, simp add: ret_def IH split: prod.split)
qed

lemma read_loop_ask:
  assumes "mounts_ok mounts" "visible_mounts (wi_filenameText it) mounts = tried @ rest"
  shows "read_loop mounts it maxBytes (search_start tried) bytes buffer code w
    = ask_read it maxBytes bytes buffer code rest w"
  using assms(2)
proof (induction rest arbitrary: tried bytes buffer code w)
  case Nil
  then show ?case
    by (simp add: read_loop.simps findNext_search_start [OF assms(1) Nil] prog_simps)
next
  case (Cons m rest)
  from Cons.IH [of "tried @ [m]"] Cons.prems
  have IH: "read_loop mounts it maxBytes (mi_self m) b f c w' = ask_read it maxBytes b f c rest w'"
    for b f c w' by simp
  show ?case
    by (simp add: read_loop.simps [of mounts it maxBytes "search_start tried"] IH
        findNext_search_start [OF assms(1) Cons.prems])
      (rule andThen_cong_fun, simp add: ret_def IH split: prod.split)
qed

lemmas loops_ask =
  exists_loop_ask [where tried = "[]", simplified]
  size_loop_ask [where tried = "[]", simplified]
  read_loop_ask [where tried = "[]", simplified]

subsection \<open>Lookups over devices that can be probed\<close>

text \<open>What a lookup of the size is to find: the first mount where something is in the way decides.\<close>

fun first_status :: "path_status list \<Rightarrow> path_status" where
  "first_status [] = Missing"
| "first_status (st # sts) = (if st = Missing then first_status sts else st)"

context probing_device
begin

definition statuses :: "'w \<Rightarrow> string \<Rightarrow> ('d, 'w) mount_info list \<Rightarrow> path_status list" where
  "statuses w path ms = map (\<lambda>m. status w (mi_device m) (mount_devicePath path m)) ms"

lemma ask_exists_status:
  assumes "\<forall>m \<in> set ms. mi_interface m = di \<and> servable (mi_device m) (mount_devicePath path m)"
  shows "\<exists>w'. ask_exists path ms w = Some (Inr
      (if \<exists>st \<in> set (statuses w path ms). is_file st then LFS_OK else LFS_NOT_FOUND, w'))
    \<and> status w' = status w"
  using assms
proof (induction ms arbitrary: w)
  case Nil
  then show ?case by (simp add: prog_simps statuses_def)
next
  case (Cons m ms)
  from exists_call [of "mi_device m" "mount_devicePath path m" w] Cons.prems obtain w1 where
    w1: "call_ptr (di_fileExists di) (\<lambda>f. f (mi_device m) (mount_devicePath path m)) w
      = Some (Inr (is_file (status w (mi_device m) (mount_devicePath path m)), w1))"
    and st: "status w1 = status w" by auto
  from Cons.IH [of w1] Cons.prems w1 st show ?case
    by (auto simp: prog_simps statuses_def)
qed

lemma ask_size_status:
  assumes "\<forall>m \<in> set ms. mi_interface m = di \<and> servable (mi_device m) (mount_devicePath path m)"
  shows "\<exists>w'. ask_size path 0 LFS_NOT_FOUND ms w
      = Some (Inr (size_of_status (first_status (statuses w path ms)), w')) \<and> status w' = status w"
  using assms
proof (induction ms arbitrary: w)
  case Nil
  then show ?case by (simp add: prog_simps statuses_def)
next
  case (Cons m ms)
  let ?st = "status w (mi_device m) (mount_devicePath path m)"
  from size_call [of "mi_device m" "mount_devicePath path m" LFS_NOT_FOUND w] Cons.prems obtain w1 where
    w1: "call_ptr (di_fileSize di) (\<lambda>f. f (mi_device m) (mount_devicePath path m) LFS_NOT_FOUND) w
      = Some (Inr (size_of_status ?st, w1))" and st: "status w1 = status w" by auto
  show ?case
  proof (cases "?st = Missing")
    case True
    with Cons.IH [of w1] Cons.prems w1 st show ?thesis by (auto simp: prog_simps statuses_def)
  next
    case False
    obtain b c where bc: "size_of_status ?st = (b, c)" by fastforce
    with False size_not_found_iff [of w "mi_device m" "mount_devicePath path m"]
    have "c \<noteq> LFS_NOT_FOUND" by simp
    with False Cons.prems w1 st bc show ?thesis by (auto simp: prog_simps statuses_def)
  qed
qed

end

subsection \<open>Properties\<close>

text \<open>
  C10: the three lookup loops end whenever the devices do, and ask the devices of the visible mounts,
  newest first, one after the other: existence stops at the first device that has the file, size and
  read stop at the first device whose answer is not \<^verbatim>\<open>LFS_NOT_FOUND\<close> and otherwise keep the last
  answer. (The right-hand sides are structural recursions over the list of visible mounts.)
\<close>

theorem lookup_loops_ask_visible_mounts:
  assumes "mounts_ok mounts"
  shows "exists_loop mounts path nullptr w = ask_exists path (visible_mounts path mounts) w
    \<and> size_loop mounts path nullptr bytes code w = ask_size path bytes code (visible_mounts path mounts) w
    \<and> read_loop mounts it maxBytes nullptr bytes buffer code w
      = ask_read it maxBytes bytes buffer code (visible_mounts (wi_filenameText it) mounts) w"
  using loops_ask [OF assms] by simp

lemma lookup_loops_ask_visible_mounts_witness:
  "exists_loop [sample_mount 8 ''/'' 2] ''/f'' nullptr () = Some (Inr (LFS_NOT_FOUND, ()))
    \<and> exists_loop [sample_mount 8 ''/'' 1] ''/f'' nullptr () = Some (Inl NullCall)"
  using lookup_loops_ask_visible_mounts [of "[sample_mount 8 ''/'' 2]" "''/f''" "()"]
    lookup_loops_ask_visible_mounts [of "[sample_mount 8 ''/'' 1]" "''/f''" "()"]
  by (simp add: mounts_ok_def mount_ok_def sample_mount_def mount_permission_values no_device_def
      visible_mounts_def readable_def mount_matches_def c_at_def prog_simps)

text \<open>A mount is \<open>supported\<close> when the operations its permissions allow exist in its interface.\<close>

definition supported :: "('d, 'w) mount_info \<Rightarrow> bool" where
  "supported m \<longleftrightarrow>
     required_pointers (mi_interface m)
     \<and> (permits LFS_OP_WRITE (mi_permissions m) \<longrightarrow> di_writeFile (mi_interface m) \<noteq> None)
     \<and> (permits LFS_OP_DELETE (mi_permissions m) \<longrightarrow> di_deleteFile (mi_interface m) \<noteq> None)
     \<and> (permits LFS_OP_CREATE_DIR (mi_permissions m) \<longrightarrow> di_createDir (mi_interface m) \<noteq> None)
     \<and> (permits LFS_OP_DELETE_DIR (mi_permissions m) \<longrightarrow> di_deleteDir (mi_interface m) \<noteq> None)"

lemma findMutable_found:
  assumes "findMutableMountAndPath path op mounts = Some (m, p)"
  shows "m \<in> set mounts \<and> permits op (mi_permissions m)"
proof -
  from assms obtain xs ys where "rev mounts = xs @ m # ys" "permits op (mi_permissions m)"
    by (auto simp: findMutableMountAndPath_def findMutable_scan_find permits_iff find_Some_split)
  then show ?thesis by (metis in_set_conv_decomp set_rev)
qed

lemma visible_mounts_subset: "set (visible_mounts path mounts) \<subseteq> set mounts"
  by (auto simp: visible_mounts_def)

text \<open>
  C37: a segment write to a mount whose device has no \<^verbatim>\<open>_writeFile\<close> calls the null pointer, although
  a plain write to it is answered with \<^verbatim>\<open>LFS_UNSUPPORTED\<close>.
\<close>

theorem segment_write_calls_null_pointer:
  assumes "mount_matches (wi_filenameText item) m" "mi_permissions m = LFS_MOUNT_READ"
    and "di_writeFile (mi_interface m) = None"
  shows "process_item [m] (item\<lparr>wi_operation := LFS_OP_WRITE_SEGMENT\<rparr>) w = Some (Inl NullCall)
    \<and> process_item [m] (item\<lparr>wi_operation := LFS_OP_WRITE\<rparr>) w
      = Some (Inr (item\<lparr>wi_operation := LFS_OP_WRITE, wi_bufferBytes := 0,
          wi_resultCode := LFS_UNSUPPORTED\<rparr>, w))"
  using assms
  by (simp add: process_item_def process_write_def findMutableMountAndPath_def mount_denies_def
      mount_permission_values prog_simps)

lemma segment_write_calls_null_pointer_witness:
  "process_item [sample_mount 8 ''/'' 1]
     (new_work_item\<lparr>wi_filenameText := ''/f'', wi_operation := LFS_OP_WRITE_SEGMENT\<rparr>) ()
   = Some (Inl NullCall)"
  using segment_write_calls_null_pointer [of "new_work_item\<lparr>wi_filenameText := ''/f''\<rparr>"
      "sample_mount 8 ''/'' 1" "()"]
  by (simp add: sample_mount_def no_device_def mount_matches_def new_work_item_def
      mount_permission_values)

text \<open>A device that answers every request, to apply properties to.\<close>

definition full_device :: "(unit, unit) device_interface" where
  "full_device = \<lparr>di_create = Some (\<lambda>a p. ret (LFS_OK, Some ())), di_destroy = Some (\<lambda>d. ret ()),
     di_fileExists = Some (\<lambda>d p. ret True), di_fileSize = Some (\<lambda>d p c. ret (7, LFS_OK)),
     di_readFile = Some (\<lambda>d p off n a b nt c. ret (n, b, LFS_OK)),
     di_writeFile = Some (\<lambda>d p off b n md c. ret (n, LFS_OK)),
     di_deleteFile = Some (\<lambda>d p. ret LFS_OK), di_createDir = Some (\<lambda>d p. ret LFS_ALREADY_EXISTS),
     di_deleteDir = None\<rparr>"

end
