(* ===== verification/File_Context.thy ===== *)
theory File_Context
  imports Item_Processing Ring_Buffer Pool_Allocator
begin

text \<open>
  The file context (\<^verbatim>\<open>FileContext\<close> of \<^verbatim>\<open>src/FileContext.cpp\<close> and \<^verbatim>\<open>src/FileContext.h\<close>): its
  state, and its operations as programs on the context together with the world. The work items live in
  the slots of the pool; \<open>fc_items\<close> gives the item in each slot that is in use. Callbacks are functions of
  the user, looked up by their address in the argument \<open>cbs\<close>; a callback gets the item and may use
  the context. The log function only gets messages, and its calls are left out.

  The processing thread is part of the state: \<open>fc_thread\<close> says where it stands between two of its
  steps, and \<open>processing_step\<close> is one step. The sizes and alignments passed to the allocator are those
  of a 64-bit target, where a work item takes 104 bytes.
\<close>

datatype thread_state =
    NotStarted       \<comment> \<open>no thread, or it has returned and been joined\<close>
  | AtLoop           \<comment> \<open>before the test of the loop in \<^verbatim>\<open>processingFunc\<close>\<close>
  | InItem           \<comment> \<open>processing an item, or in its callback\<close>
  | InWait           \<comment> \<open>in the wait for the semaphore\<close>

record ('d, 'w) file_context =
  fc_self :: addr
  fc_interfaces :: "(addr \<times> ('d, 'w) device_interface) list"
  fc_mounts :: "('d, 'w) mount_info list"
  fc_workItemPool :: pool
  fc_poolBitmask :: addr                       \<comment> \<open>the block of the pool's mask\<close>
  fc_items :: "addr \<Rightarrow> 'w lfs_work_item_t option"
  fc_workItemQueueSemaphore :: semaphore
  fc_workItemQueue :: "addr ring_buffer"
  fc_queueBuffer :: addr                       \<comment> \<open>the block of the queue's array\<close>
  fc_processingThread :: thread_state
  fc_alloc :: "'w lfs_allocator_t"
  fc_log :: addr
  fc_processing :: bool

type_synonym ('d, 'w) ctx = "('d, 'w) file_context \<times> 'w"

type_synonym ('d, 'w) callbacks = "addr \<Rightarrow> 'w lfs_work_item_t \<Rightarrow> addr \<Rightarrow> (unit, ('d, 'w) ctx) prog"

subsection \<open>Access to the parts of the state\<close>

definition fc_get :: "(('d, 'w) file_context \<Rightarrow> 'a) \<Rightarrow> ('a, ('d, 'w) ctx) prog" where
  "fc_get f = gets (\<lambda>(fc, w). f fc)"

definition fc_set :: "(('d, 'w) file_context \<Rightarrow> ('d, 'w) file_context) \<Rightarrow> (unit, ('d, 'w) ctx) prog" where
  "fc_set f = modify (\<lambda>(fc, w). (f fc, w))"

definition fc_allocate :: "u64 \<Rightarrow> u64 \<Rightarrow> (addr, ('d, 'w) ctx) prog" where
  "fc_allocate bytes alignment =
     andThen (fc_get fc_alloc) (\<lambda>a. on_snd (call_alloc a bytes alignment))"

definition fc_deallocate :: "addr \<Rightarrow> (unit, ('d, 'w) ctx) prog" where
  "fc_deallocate p = andThen (fc_get fc_alloc) (\<lambda>a. on_snd (call_free a p))"

text \<open>A work item behind a pointer; a pointer to no item in use cannot be followed.\<close>

definition item_at :: "addr \<Rightarrow> ('w lfs_work_item_t, ('d, 'w) ctx) prog" where
  "item_at a = andThen (fc_get (\<lambda>fc. fc_items fc a)) (\<lambda>i.
     case i of None \<Rightarrow> fail_with NullDeref | Some item \<Rightarrow> ret item)"

definition update_item :: "addr \<Rightarrow> ('w lfs_work_item_t \<Rightarrow> 'w lfs_work_item_t)
    \<Rightarrow> (unit, ('d, 'w) ctx) prog" where
  "update_item a f = andThen (item_at a) (\<lambda>item.
     fc_set (\<lambda>fc. fc\<lparr>fc_items := (fc_items fc)(a \<mapsto> f item)\<rparr>))"

text \<open>An operation of the queue, with the notification of the semaphore that a push asks for.\<close>

definition on_queue :: "('a, addr ring_buffer) prog \<Rightarrow> ('a, ('d, 'w) ctx) prog" where
  "on_queue m s =
     (case m (fc_workItemQueue (fst s)) of
        None \<Rightarrow> None
      | Some (Inl e) \<Rightarrow> Some (Inl e)
      | Some (Inr (x, q)) \<Rightarrow> Some (Inr (x, ((fst s)\<lparr>fc_workItemQueue := q\<rparr>, snd s))))"

definition push_work_item :: "addr \<Rightarrow> (unit, ('d, 'w) ctx) prog" where
  "push_work_item a = andThen (on_queue (rb_push a)) (\<lambda>notify.
     if notify then
       fc_set (\<lambda>fc. fc\<lparr>fc_workItemQueueSemaphore := sem_notify (fc_workItemQueueSemaphore fc)\<rparr>)
     else ret ())"

text \<open>\<^verbatim>\<open>PoolAllocator::alloc\<close> with the placement \<^verbatim>\<open>new\<close>, and \<^verbatim>\<open>PoolAllocator::free\<close>.\<close>

definition workItemPool_alloc :: "(addr, ('d, 'w) ctx) prog" where
  "workItemPool_alloc = andThen (fc_get fc_workItemPool) (\<lambda>p.
     let (a, p') = pl_alloc p
     in if a \<noteq> nullptr \<and> pl_storage p = nullptr then fail_with NullDeref
        else andThen (fc_set (\<lambda>fc. fc\<lparr>fc_workItemPool := p',
                 fc_items := (if a \<noteq> nullptr then (fc_items fc)(a \<mapsto> new_work_item) else fc_items fc)\<rparr>))
               (\<lambda>_. ret a))"

definition workItemPool_free :: "addr \<Rightarrow> (unit, ('d, 'w) ctx) prog" where
  "workItemPool_free a = fc_set (\<lambda>fc.
     fc\<lparr>fc_workItemPool := pl_free a (fc_workItemPool fc), fc_items := (fc_items fc)(a := None)\<rparr>)"

subsection \<open>The processing thread: start and stop\<close>

definition startProcessingThread :: "(unit, ('d, 'w) ctx) prog" where
  "startProcessingThread = andThen (fc_get fc_processing) (\<lambda>processing.
     if \<not> processing then fc_set (\<lambda>fc. fc\<lparr>fc_processing := True, fc_processingThread := AtLoop\<rparr>)
     else ret ())"

text \<open>
  \<^verbatim>\<open>_processingThread.join()\<close> after the flag is cleared and the semaphore notified. A thread before
  the loop test returns; one that waits takes the notification first. The thread itself cannot join:
  \<^verbatim>\<open>std::thread::join\<close> throws.
\<close>

definition join_processingThread :: "(unit, ('d, 'w) ctx) prog" where
  "join_processingThread = andThen (fc_get fc_processingThread) (\<lambda>t.
     case t of
       NotStarted \<Rightarrow> ret ()
     | AtLoop \<Rightarrow> fc_set (\<lambda>fc. fc\<lparr>fc_processingThread := NotStarted\<rparr>)
     | InWait \<Rightarrow> andThen (fc_get fc_workItemQueueSemaphore) (\<lambda>sem.
         case sem_wait sem of
           None \<Rightarrow> diverge
         | Some sem' \<Rightarrow> fc_set (\<lambda>fc. fc\<lparr>fc_processingThread := NotStarted,
             fc_workItemQueueSemaphore := sem'\<rparr>))
     | InItem \<Rightarrow> fail_with Terminated)"

definition stopProcessingThread :: "(unit, ('d, 'w) ctx) prog" where
  "stopProcessingThread = andThen (fc_get fc_processing) (\<lambda>processing.
     if processing then
       andThen (fc_set (\<lambda>fc. fc\<lparr>fc_processing := False,
           fc_workItemQueueSemaphore := sem_notify (fc_workItemQueueSemaphore fc)\<rparr>)) (\<lambda>_.
       join_processingThread)
     else ret ())"

subsection \<open>Device interfaces and mounts\<close>

definition registerDeviceInterface :: "('d, 'w) device_interface \<Rightarrow> (u32, ('d, 'w) ctx) prog" where
  "registerDeviceInterface interface =
     (if required_pointers interface then
        andThen (fc_get (\<lambda>fc. length (fc_interfaces fc))) (\<lambda>size.
        andThen (fc_allocate 72 8) (\<lambda>p.
        if p = nullptr then fail_with NullDeref
        else andThen (fc_set (\<lambda>fc. fc\<lparr>fc_interfaces := fc_interfaces fc @ [(p, interface)]\<rparr>)) (\<lambda>_.
          ret (of_nat size))))
      else ret (- 1))"

definition supportedPermissions :: "('d, 'w) device_interface \<Rightarrow> u32" where
  "supportedPermissions interface =
     LFS_MOUNT_READ
     OR (if di_writeFile interface \<noteq> None then LFS_MOUNT_WRITE_FILE else 0)
     OR (if di_deleteFile interface \<noteq> None then LFS_MOUNT_DELETE_FILE else 0)
     OR (if di_createDir interface \<noteq> None then LFS_MOUNT_CREATE_DIR else 0)
     OR (if di_deleteDir interface \<noteq> None then LFS_MOUNT_DELETE_DIR else 0)"

definition calculatedPermissions :: "('d, 'w) device_interface \<Rightarrow> u32 \<Rightarrow> u32" where
  "calculatedPermissions interface mountPermissions =
     (if mountPermissions = LFS_MOUNT_DEFAULT then supportedPermissions interface
      else mountPermissions AND supportedPermissions interface)"

text \<open>
  \<^verbatim>\<open>createMount\<close>: the mount, null on failure, and the result code. The new \<^verbatim>\<open>MountInfo\<close> is
  written out when it is added.
\<close>

definition createMount :: "u32 \<Rightarrow> string \<Rightarrow> string \<Rightarrow> u32
    \<Rightarrow> (addr \<times> lfs_error_code_t, ('d, 'w) ctx) prog" where
  "createMount deviceType mountPoint devicePath mountPermissions =
     andThen (fc_get fc_interfaces) (\<lambda>interfaces.
     if unat deviceType \<ge> length interfaces then ret (nullptr, LFS_INVALID_DEVICE)
     else
       let interface = snd (interfaces ! unat deviceType);
           permissions = calculatedPermissions interface mountPermissions
       in if permissions = 0 then ret (nullptr, LFS_PERMISSIONS_ERROR)
          else
            andThen (fc_allocate 32 8) (\<lambda>m.
            if m = nullptr then fail_with NullDeref
            else
              andThen (fc_get fc_alloc) (\<lambda>alloc.
              andThen (on_snd (call_ptr (di_create interface) (\<lambda>create. create alloc devicePath)))
                (\<lambda>(result, device).
              case (result, device) of
                (LFS_OK, Some d) \<Rightarrow>
                  andThen (fc_allocate (of_nat (length mountPoint) + 1) 1) (\<lambda>prefix.
                  if prefix = nullptr then fail_with NullDeref
                  else andThen (fc_set (\<lambda>fc. fc\<lparr>fc_mounts := fc_mounts fc @
                      [\<lparr>mi_self = m, mi_prefix = mountPoint, mi_prefixPtr = prefix, mi_device = d,
                        mi_interface = interface, mi_prefixLen = of_nat (length mountPoint),
                        mi_permissions = permissions\<rparr>]\<rparr>)) (\<lambda>_.
                    ret (m, result)))
              | _ \<Rightarrow> andThen (fc_deallocate m) (\<lambda>_. ret (nullptr, result))))))"

text \<open>\<^verbatim>\<open>std::find\<close> and \<^verbatim>\<open>erase\<close> on the mounts, by the address of the \<^verbatim>\<open>MountInfo\<close>.\<close>

fun erase_mount :: "addr \<Rightarrow> ('d, 'w) mount_info list \<Rightarrow> ('d, 'w) mount_info list" where
  "erase_mount mount [] = []"
| "erase_mount mount (m # ms) = (if mi_self m = mount then ms else m # erase_mount mount ms)"

definition releaseMount :: "addr \<Rightarrow> (bool, ('d, 'w) ctx) prog" where
  "releaseMount mount =
     andThen stopProcessingThread (\<lambda>_.
     andThen (fc_get fc_mounts) (\<lambda>mounts.
     andThen
       (case List.find (\<lambda>m. mi_self m = mount) mounts of
          None \<Rightarrow> ret False
        | Some m \<Rightarrow>
            andThen (on_snd (call_ptr (di_destroy (mi_interface m)) (\<lambda>destroy. destroy (mi_device m)))) (\<lambda>_.
            andThen (fc_deallocate (mi_prefixPtr m)) (\<lambda>_.
            andThen (fc_deallocate (mi_self m)) (\<lambda>_.
            andThen (fc_set (\<lambda>fc. fc\<lparr>fc_mounts := erase_mount mount (fc_mounts fc)\<rparr>)) (\<lambda>_.
            ret True)))))
       (\<lambda>result. andThen startProcessingThread (\<lambda>_. ret result))))"

subsection \<open>Construction and destruction\<close>

text \<open>
  The constructor, in the order its members are initialised: the pool takes two blocks, the queue one.
  The mask is written to its block even if that is null. \<open>dir\<close> is the interface of the directory device,
  which the constructor registers. The growth of the two vectors, which the C++ library decides, is not
  modelled. The array of the queue has as many entries as its block, whose size is computed in 64 bits and wraps
  around for capacities from \<open>2 ^ 61\<close> on; the capacity stays the one asked for, and an access beyond the array is a
  fault. It starts with null pointers, where the code leaves raw memory: no element is read before it was written.
\<close>

lemma queue_entries:
  assumes "unat (n :: u64) < 2 ^ 61"
  shows "unat (8 * n) div 8 = unat n"
proof -
  have "unat (8 * n) = 8 * unat n"
    using assms by (subst unat_mult_lem [THEN iffD1]) simp_all
  then show ?thesis by simp
qed

definition FileContext_init :: "('d, 'w) device_interface \<Rightarrow> addr \<Rightarrow> 'w lfs_allocator_t \<Rightarrow> u64 \<Rightarrow> u64
    \<Rightarrow> (unit, ('d, 'w) ctx) prog" where
  "FileContext_init dir this alloc maxQueuedWorkItems workItemPoolSize =
     andThen (on_snd (call_alloc alloc (104 * workItemPoolSize) 8)) (\<lambda>storage.
     let pool = pl_new storage 104 workItemPoolSize
     in andThen (on_snd (call_alloc alloc (4 * pl_bitmaskCount pool) 4)) (\<lambda>bitmask.
        if bitmask = nullptr \<and> pl_bitmaskCount pool \<noteq> 0 then fail_with NullDeref
        else andThen (on_snd (call_alloc alloc (8 * maxQueuedWorkItems) 8)) (\<lambda>buffer.
          andThen (fc_set (\<lambda>_. \<lparr>fc_self = this, fc_interfaces = [], fc_mounts = [],
            fc_workItemPool = pool, fc_poolBitmask = bitmask, fc_items = Map.empty,
            fc_workItemQueueSemaphore = sem_new 0,
            fc_workItemQueue = rb_new
              (if buffer = nullptr then [] else replicate (unat (8 * maxQueuedWorkItems) div 8) nullptr)
              maxQueuedWorkItems True,
            fc_queueBuffer = buffer, fc_processingThread = NotStarted, fc_alloc = alloc,
            fc_log = nullptr, fc_processing = False\<rparr>)) (\<lambda>_.
          andThen (registerDeviceInterface dir) (\<lambda>_.
          startProcessingThread)))))"

fun destroy_mounts :: "('d, 'w) mount_info list \<Rightarrow> (unit, ('d, 'w) ctx) prog" where
  "destroy_mounts [] = ret ()"
| "destroy_mounts (m # ms) =
     andThen (fc_deallocate (mi_prefixPtr m)) (\<lambda>_.
     andThen (on_snd (call_ptr (di_destroy (mi_interface m)) (\<lambda>destroy. destroy (mi_device m)))) (\<lambda>_.
     andThen (fc_deallocate (mi_self m)) (\<lambda>_.
     destroy_mounts ms)))"

fun destroy_interfaces :: "(addr \<times> ('d, 'w) device_interface) list \<Rightarrow> (unit, ('d, 'w) ctx) prog" where
  "destroy_interfaces [] = ret ()"
| "destroy_interfaces ((p, i) # is) =
     andThen (fc_deallocate p) (\<lambda>_. destroy_interfaces is)"

text \<open>
  The destructors of the queue and of the pool. Each of them keeps a copy of the context's allocator.
\<close>

definition workItemQueue_destructor :: "(unit, ('d, 'w) ctx) prog" where
  "workItemQueue_destructor = andThen (fc_get fc_queueBuffer) (\<lambda>buffer. fc_deallocate buffer)"

definition workItemPool_destructor :: "(unit, ('d, 'w) ctx) prog" where
  "workItemPool_destructor =
     andThen (fc_get (\<lambda>fc. pl_storage (fc_workItemPool fc))) (\<lambda>storage.
     andThen (fc_deallocate storage) (\<lambda>_.
     andThen (fc_get fc_poolBitmask) (\<lambda>bitmask. fc_deallocate bitmask)))"

text \<open>The body of the destructor, and after it the destructors of the members, the last one first.\<close>

definition FileContext_destroy :: "(unit, ('d, 'w) ctx) prog" where
  "FileContext_destroy =
     andThen stopProcessingThread (\<lambda>_.
     andThen (fc_get fc_mounts) (\<lambda>mounts.
     andThen (destroy_mounts mounts) (\<lambda>_.
     andThen (fc_get fc_interfaces) (\<lambda>interfaces.
     andThen (destroy_interfaces interfaces) (\<lambda>_.
     andThen workItemQueue_destructor (\<lambda>_.
     workItemPool_destructor))))))"

subsection \<open>Work items: allocation and release\<close>

text \<open>
  The fields of an item that \<^verbatim>\<open>initWorkItem\<close> sets, the name of the file as a new block. The item on
  the stack that carries the error to a callback has no determinate allocator in the code; no
  operation uses it, since its buffer is null.
\<close>

definition initWorkItem :: "'w lfs_work_item_t \<Rightarrow> string \<Rightarrow> lfs_file_operation_t \<Rightarrow> addr \<Rightarrow> addr
    \<Rightarrow> lfs_callback_buffer_action_t \<Rightarrow> ('w lfs_work_item_t, ('d, 'w) ctx) prog" where
  "initWorkItem item path op callback callbackUserData bufferAction =
     andThen (fc_allocate (of_nat (length path) + 1) 1) (\<lambda>normalizedPath.
     if normalizedPath = nullptr then fail_with NullDeref
     else andThen (fc_get fc_self) (\<lambda>this.
       ret (item\<lparr>wi_operation := op, wi_filename := normalizedPath,
         wi_filenameText := normalize path, wi_callback := callback,
         wi_callbackUserData := callbackUserData, wi_callbackBufferAction := bufferAction,
         wi_completed := False, wi_context := this\<rparr>)))"

definition allocWorkItemCommon :: "('d, 'w) callbacks \<Rightarrow> string \<Rightarrow> lfs_file_operation_t \<Rightarrow> addr \<Rightarrow> addr
    \<Rightarrow> lfs_callback_buffer_action_t \<Rightarrow> (addr, ('d, 'w) ctx) prog" where
  "allocWorkItemCommon cbs path op callback callbackUserData bufferAction =
     andThen workItemPool_alloc (\<lambda>a.
     if a \<noteq> nullptr then
       andThen (item_at a) (\<lambda>item.
       andThen (initWorkItem item path op callback callbackUserData bufferAction) (\<lambda>item'.
       andThen (update_item a (\<lambda>_. item')) (\<lambda>_.
       ret a)))
     else if callback \<noteq> nullptr then
       andThen (initWorkItem new_work_item path op callback callbackUserData bufferAction) (\<lambda>item.
       let errorItem = item\<lparr>wi_completed := True, wi_resultCode := LFS_OUT_OF_WORK_ITEMS\<rparr>
       in andThen (cbs callback errorItem callbackUserData) (\<lambda>_.
          andThen (fc_deallocate (wi_filename errorItem)) (\<lambda>_.
          ret a)))
     else ret a)"

definition releaseWorkItemInternal :: "addr \<Rightarrow> (unit, ('d, 'w) ctx) prog" where
  "releaseWorkItemInternal a =
     (if a \<noteq> nullptr then
        andThen (item_at a) (\<lambda>item.
        andThen (fc_deallocate (wi_filename item)) (\<lambda>_.
        workItemPool_free a))
      else ret ())"

definition releaseWorkItem :: "addr \<Rightarrow> (unit, ('d, 'w) ctx) prog" where
  "releaseWorkItem a =
     (if a \<noteq> nullptr then
        andThen (item_at a) (\<lambda>item.
        if wi_callback item = nullptr then releaseWorkItemInternal a else ret ())
      else ret ())"

subsection \<open>The operations of the client\<close>

text \<open>
  Each operation allocates an item, fills in what its request needs and pushes it. The variants with a
  callback return nothing; the others return the item, null when the pool is empty. An allocator
  argument \<open>None\<close> stands for a null pointer: the allocator of the context is used.
\<close>

definition item_allocator :: "'w lfs_allocator_t option \<Rightarrow> ('w lfs_allocator_t, ('d, 'w) ctx) prog" where
  "item_allocator alloc =
     (case alloc of Some a \<Rightarrow> ret a | None \<Rightarrow> fc_get fc_alloc)"

definition readFileSegment :: "('d, 'w) callbacks \<Rightarrow> string \<Rightarrow> u64 \<Rightarrow> u64 \<Rightarrow> bool \<Rightarrow> 'w lfs_allocator_t option \<Rightarrow> (addr, ('d, 'w) ctx) prog" where
  "readFileSegment cbs filepath offset maxBytes nullTerminate alloc =
     andThen (allocWorkItemCommon cbs filepath LFS_OP_READ nullptr nullptr LFS_DO_NOT_FREE_BUFFER) (\<lambda>item.
     if item \<noteq> nullptr then
       andThen (item_allocator alloc) (\<lambda>a.
       andThen (update_item item (\<lambda>it. it\<lparr>wi_allocator := a, wi_nullTerminate := nullTerminate,
         wi_bufferBytes := maxBytes, wi_offset := offset\<rparr>)) (\<lambda>_.
       andThen (push_work_item item) (\<lambda>_. ret item)))
     else ret item)"

definition readFile :: "('d, 'w) callbacks \<Rightarrow> string \<Rightarrow> bool \<Rightarrow> 'w lfs_allocator_t option
    \<Rightarrow> (addr, ('d, 'w) ctx) prog" where
  "readFile cbs filepath nullTerminate alloc =
     readFileSegment cbs filepath 0 (- 1) nullTerminate alloc"

definition readFileSegmentWithCallback :: "('d, 'w) callbacks \<Rightarrow> string \<Rightarrow> u64 \<Rightarrow> u64 \<Rightarrow> bool \<Rightarrow> addr \<Rightarrow> lfs_callback_buffer_action_t \<Rightarrow> addr \<Rightarrow> 'w lfs_allocator_t option \<Rightarrow> (unit, ('d, 'w) ctx) prog" where
  "readFileSegmentWithCallback cbs filepath offset maxBytes nullTerminate callback bufferAction callbackUserData alloc =
     andThen (allocWorkItemCommon cbs filepath LFS_OP_READ callback callbackUserData bufferAction) (\<lambda>item.
     if item \<noteq> nullptr then
       andThen (item_allocator alloc) (\<lambda>a.
       andThen (update_item item (\<lambda>it. it\<lparr>wi_allocator := a, wi_nullTerminate := nullTerminate,
         wi_bufferBytes := maxBytes, wi_offset := offset\<rparr>)) (\<lambda>_.
       andThen (push_work_item item) (\<lambda>_. ret ())))
     else ret ())"

definition readFileWithCallback :: "('d, 'w) callbacks \<Rightarrow> string \<Rightarrow> bool \<Rightarrow> addr
    \<Rightarrow> lfs_callback_buffer_action_t \<Rightarrow> addr \<Rightarrow> 'w lfs_allocator_t option \<Rightarrow> (unit, ('d, 'w) ctx) prog" where
  "readFileWithCallback cbs filepath nullTerminate callback bufferAction callbackUserData alloc =
     readFileSegmentWithCallback cbs filepath 0 (- 1) nullTerminate callback bufferAction
       callbackUserData alloc"

definition writeFileSegment :: "('d, 'w) callbacks \<Rightarrow> string \<Rightarrow> u64 \<Rightarrow> addr \<Rightarrow> u64 \<Rightarrow> (addr, ('d, 'w) ctx) prog" where
  "writeFileSegment cbs filepath offset buffer bufferBytes =
     andThen (allocWorkItemCommon cbs filepath LFS_OP_WRITE_SEGMENT nullptr nullptr LFS_DO_NOT_FREE_BUFFER) (\<lambda>item.
     if item \<noteq> nullptr then
       andThen (update_item item (\<lambda>it. it\<lparr>wi_buffer := buffer, wi_bufferBytes := bufferBytes,
         wi_offset := offset\<rparr>)) (\<lambda>_.
       andThen (push_work_item item) (\<lambda>_. ret item))
     else ret item)"

text \<open>
  \<^verbatim>\<open>writeFile\<close> submits a segment write and turns it into a plain write afterwards. (What this means
  when the processing thread runs in between is the subject of theory \<open>Interleaving\<close>.)
\<close>

definition make_plain_write :: "addr \<Rightarrow> (unit, ('d, 'w) ctx) prog" where
  "make_plain_write item =
     (if item \<noteq> nullptr then update_item item (\<lambda>it. it\<lparr>wi_operation := LFS_OP_WRITE\<rparr>) else ret ())"

definition writeFile :: "('d, 'w) callbacks \<Rightarrow> string \<Rightarrow> addr \<Rightarrow> u64 \<Rightarrow> (addr, ('d, 'w) ctx) prog" where
  "writeFile cbs filepath buffer bufferBytes =
     andThen (writeFileSegment cbs filepath 0 buffer bufferBytes) (\<lambda>item.
     andThen (make_plain_write item) (\<lambda>_. ret item))"

definition writeFileWithCallback :: "('d, 'w) callbacks \<Rightarrow> string \<Rightarrow> addr \<Rightarrow> u64 \<Rightarrow> addr \<Rightarrow> lfs_callback_buffer_action_t \<Rightarrow> addr \<Rightarrow> (unit, ('d, 'w) ctx) prog" where
  "writeFileWithCallback cbs filepath buffer bufferBytes callback bufferAction callbackUserData =
     andThen (allocWorkItemCommon cbs filepath LFS_OP_WRITE callback callbackUserData bufferAction) (\<lambda>item.
     if item \<noteq> nullptr then
       andThen (update_item item (\<lambda>it. it\<lparr>wi_buffer := buffer, wi_bufferBytes := bufferBytes, wi_offset := 0\<rparr>)) (\<lambda>_.
       andThen (push_work_item item) (\<lambda>_. ret ()))
     else ret ())"

definition writeFileSegmentWithCallback :: "('d, 'w) callbacks \<Rightarrow> string \<Rightarrow> u64 \<Rightarrow> addr \<Rightarrow> u64 \<Rightarrow> addr \<Rightarrow> lfs_callback_buffer_action_t \<Rightarrow> addr \<Rightarrow> (unit, ('d, 'w) ctx) prog" where
  "writeFileSegmentWithCallback cbs filepath offset buffer bufferBytes callback bufferAction callbackUserData =
     andThen (allocWorkItemCommon cbs filepath LFS_OP_WRITE_SEGMENT callback callbackUserData bufferAction) (\<lambda>item.
     if item \<noteq> nullptr then
       andThen (update_item item (\<lambda>it. it\<lparr>wi_buffer := buffer, wi_bufferBytes := bufferBytes,
         wi_offset := offset\<rparr>)) (\<lambda>_.
       andThen (push_work_item item) (\<lambda>_. ret ()))
     else ret ())"

definition appendFile :: "('d, 'w) callbacks \<Rightarrow> string \<Rightarrow> addr \<Rightarrow> u64 \<Rightarrow> (addr, ('d, 'w) ctx) prog" where
  "appendFile cbs filepath buffer bufferBytes =
     andThen (allocWorkItemCommon cbs filepath LFS_OP_APPEND nullptr nullptr LFS_DO_NOT_FREE_BUFFER) (\<lambda>item.
     if item \<noteq> nullptr then
       andThen (update_item item (\<lambda>it. it\<lparr>wi_buffer := buffer, wi_bufferBytes := bufferBytes\<rparr>)) (\<lambda>_.
       andThen (push_work_item item) (\<lambda>_. ret item))
     else ret item)"

definition appendFileWithCallback :: "('d, 'w) callbacks \<Rightarrow> string \<Rightarrow> addr \<Rightarrow> u64 \<Rightarrow> addr \<Rightarrow> lfs_callback_buffer_action_t \<Rightarrow> addr \<Rightarrow> (unit, ('d, 'w) ctx) prog" where
  "appendFileWithCallback cbs filepath buffer bufferBytes callback bufferAction callbackUserData =
     andThen (allocWorkItemCommon cbs filepath LFS_OP_APPEND callback callbackUserData bufferAction) (\<lambda>item.
     if item \<noteq> nullptr then
       andThen (update_item item (\<lambda>it. it\<lparr>wi_buffer := buffer, wi_bufferBytes := bufferBytes\<rparr>)) (\<lambda>_.
       andThen (push_work_item item) (\<lambda>_. ret ()))
     else ret ())"

definition fileExists :: "('d, 'w) callbacks \<Rightarrow> string \<Rightarrow> (addr, ('d, 'w) ctx) prog" where
  "fileExists cbs filepath =
     andThen (allocWorkItemCommon cbs filepath LFS_OP_EXISTS nullptr nullptr LFS_DO_NOT_FREE_BUFFER) (\<lambda>item.
     if item \<noteq> nullptr then
       andThen (push_work_item item) (\<lambda>_. ret item)
     else ret item)"

definition fileExistsWithCallback :: "('d, 'w) callbacks \<Rightarrow> string \<Rightarrow> addr \<Rightarrow> addr \<Rightarrow> (unit, ('d, 'w) ctx) prog" where
  "fileExistsWithCallback cbs filepath callback callbackUserData =
     andThen (allocWorkItemCommon cbs filepath LFS_OP_EXISTS callback callbackUserData LFS_DO_NOT_FREE_BUFFER) (\<lambda>item.
     if item \<noteq> nullptr then
       andThen (push_work_item item) (\<lambda>_. ret ())
     else ret ())"

definition fileSize :: "('d, 'w) callbacks \<Rightarrow> string \<Rightarrow> (addr, ('d, 'w) ctx) prog" where
  "fileSize cbs filepath =
     andThen (allocWorkItemCommon cbs filepath LFS_OP_SIZE nullptr nullptr LFS_DO_NOT_FREE_BUFFER) (\<lambda>item.
     if item \<noteq> nullptr then
       andThen (push_work_item item) (\<lambda>_. ret item)
     else ret item)"

definition fileSizeWithCallback :: "('d, 'w) callbacks \<Rightarrow> string \<Rightarrow> addr \<Rightarrow> addr \<Rightarrow> (unit, ('d, 'w) ctx) prog" where
  "fileSizeWithCallback cbs filepath callback callbackUserData =
     andThen (allocWorkItemCommon cbs filepath LFS_OP_SIZE callback callbackUserData LFS_DO_NOT_FREE_BUFFER) (\<lambda>item.
     if item \<noteq> nullptr then
       andThen (push_work_item item) (\<lambda>_. ret ())
     else ret ())"

definition deleteFile :: "('d, 'w) callbacks \<Rightarrow> string \<Rightarrow> (addr, ('d, 'w) ctx) prog" where
  "deleteFile cbs filepath =
     andThen (allocWorkItemCommon cbs filepath LFS_OP_DELETE nullptr nullptr LFS_DO_NOT_FREE_BUFFER) (\<lambda>item.
     if item \<noteq> nullptr then
       andThen (push_work_item item) (\<lambda>_. ret item)
     else ret item)"

definition deleteFileWithCallback :: "('d, 'w) callbacks \<Rightarrow> string \<Rightarrow> addr \<Rightarrow> addr \<Rightarrow> (unit, ('d, 'w) ctx) prog" where
  "deleteFileWithCallback cbs filepath callback callbackUserData =
     andThen (allocWorkItemCommon cbs filepath LFS_OP_DELETE callback callbackUserData LFS_DO_NOT_FREE_BUFFER) (\<lambda>item.
     if item \<noteq> nullptr then
       andThen (push_work_item item) (\<lambda>_. ret ())
     else ret ())"

definition createDir :: "('d, 'w) callbacks \<Rightarrow> string \<Rightarrow> (addr, ('d, 'w) ctx) prog" where
  "createDir cbs filepath =
     andThen (allocWorkItemCommon cbs filepath LFS_OP_CREATE_DIR nullptr nullptr LFS_DO_NOT_FREE_BUFFER) (\<lambda>item.
     if item \<noteq> nullptr then
       andThen (push_work_item item) (\<lambda>_. ret item)
     else ret item)"

definition createDirWithCallback :: "('d, 'w) callbacks \<Rightarrow> string \<Rightarrow> addr \<Rightarrow> addr \<Rightarrow> (unit, ('d, 'w) ctx) prog" where
  "createDirWithCallback cbs filepath callback callbackUserData =
     andThen (allocWorkItemCommon cbs filepath LFS_OP_CREATE_DIR callback callbackUserData LFS_DO_NOT_FREE_BUFFER) (\<lambda>item.
     if item \<noteq> nullptr then
       andThen (push_work_item item) (\<lambda>_. ret ())
     else ret ())"

definition deleteDir :: "('d, 'w) callbacks \<Rightarrow> string \<Rightarrow> (addr, ('d, 'w) ctx) prog" where
  "deleteDir cbs filepath =
     andThen (allocWorkItemCommon cbs filepath LFS_OP_DELETE_DIR nullptr nullptr LFS_DO_NOT_FREE_BUFFER) (\<lambda>item.
     if item \<noteq> nullptr then
       andThen (push_work_item item) (\<lambda>_. ret item)
     else ret item)"

definition deleteDirWithCallback :: "('d, 'w) callbacks \<Rightarrow> string \<Rightarrow> addr \<Rightarrow> addr \<Rightarrow> (unit, ('d, 'w) ctx) prog" where
  "deleteDirWithCallback cbs filepath callback callbackUserData =
     andThen (allocWorkItemCommon cbs filepath LFS_OP_DELETE_DIR callback callbackUserData LFS_DO_NOT_FREE_BUFFER) (\<lambda>item.
     if item \<noteq> nullptr then
       andThen (push_work_item item) (\<lambda>_. ret ())
     else ret ())"

subsection \<open>The processing thread: its steps\<close>

text \<open>
  One item: the operation it asks for, the completion flag, then the callback and the release of the item
  or, without a callback, the notification of the waiting clients (who test the flag).
\<close>

definition run_callback :: "('d, 'w) callbacks \<Rightarrow> addr \<Rightarrow> (unit, ('d, 'w) ctx) prog" where
  "run_callback cbs a =
     andThen (item_at a) (\<lambda>item.
     if wi_callback item \<noteq> nullptr then
       andThen (cbs (wi_callback item) item (wi_callbackUserData item)) (\<lambda>_.
       andThen (item_at a) (\<lambda>item'.
       andThen
         (if wi_callbackBufferAction item' = LFS_FREE_BUFFER then
            andThen (on_snd (WorkItemFreeBuffer (Some item'))) (\<lambda>freed.
            update_item a (\<lambda>_. the freed))
          else ret ()) (\<lambda>_.
       releaseWorkItemInternal a)))
     else ret ())"

definition process_work_item :: "('d, 'w) callbacks \<Rightarrow> addr \<Rightarrow> (unit, ('d, 'w) ctx) prog" where
  "process_work_item cbs a =
     andThen (item_at a) (\<lambda>item.
     andThen (fc_get fc_mounts) (\<lambda>mounts.
     andThen (on_snd (process_item mounts item)) (\<lambda>item'.
     andThen (update_item a (\<lambda>_. item'\<lparr>wi_completed := True\<rparr>)) (\<lambda>_.
     run_callback cbs a))))"

text \<open>
  One step of the thread, from one of its resting points to the next: the result tells whether it has
  returned, is blocked in the wait, or has moved.
\<close>

datatype thread_step = Exited | Blocked | Moved

definition set_thread :: "thread_state \<Rightarrow> (unit, ('d, 'w) ctx) prog" where
  "set_thread t = fc_set (\<lambda>fc. fc\<lparr>fc_processingThread := t\<rparr>)"

definition processing_step :: "('d, 'w) callbacks \<Rightarrow> (thread_step, ('d, 'w) ctx) prog" where
  "processing_step cbs = andThen (fc_get fc_processingThread) (\<lambda>t.
     case t of
       NotStarted \<Rightarrow> ret Exited
     | AtLoop \<Rightarrow> andThen (fc_get fc_processing) (\<lambda>processing.
         if processing then
           andThen (on_queue (rb_pop nullptr)) (\<lambda>item.
           if item \<noteq> nullptr then
             andThen (set_thread InItem) (\<lambda>_.
             andThen (process_work_item cbs item) (\<lambda>_.
             andThen (set_thread AtLoop) (\<lambda>_.
             ret Moved)))
           else andThen (set_thread InWait) (\<lambda>_. ret Moved))
         else andThen (set_thread NotStarted) (\<lambda>_. ret Exited))
     | InItem \<Rightarrow> ret Blocked
     | InWait \<Rightarrow> andThen (fc_get fc_workItemQueueSemaphore) (\<lambda>sem.
         case sem_wait sem of
           None \<Rightarrow> ret Blocked
         | Some sem' \<Rightarrow> andThen (fc_set (\<lambda>fc. fc\<lparr>fc_workItemQueueSemaphore := sem',
             fc_processingThread := AtLoop\<rparr>)) (\<lambda>_. ret Moved)))"

text \<open>The thread on its own: steps until it returns or blocks.\<close>

partial_function (option) processingFunc :: "('d, 'w) callbacks \<Rightarrow> ('d, 'w) ctx
    \<Rightarrow> (fault + thread_step \<times> ('d, 'w) ctx) option" where
  "processingFunc cbs s = andThen (processing_step cbs)
     (\<lambda>r s'. if r = Moved then processingFunc cbs s' else Some (Inr (r, s'))) s"

subsection \<open>Other accessors\<close>

definition setLogFunc :: "addr \<Rightarrow> (unit, ('d, 'w) ctx) prog" where
  "setLogFunc func = fc_set (\<lambda>fc. fc\<lparr>fc_log := func\<rparr>)"

definition getLogFunc :: "(addr, ('d, 'w) ctx) prog" where
  "getLogFunc = fc_get fc_log"

definition getAllocator :: "('w lfs_allocator_t, ('d, 'w) ctx) prog" where
  "getAllocator = fc_get fc_alloc"

end
