(* ===== verification/Program_Logic.thy ===== *)
theory Program_Logic
  imports Outcome
begin

text \<open>
  Preconditions of programs, computed from their postconditions. \<open>wp m Q\<close> holds of the states from which
  \<open>m\<close> returns, without fault, in a result that satisfies \<open>Q\<close>; \<open>wlp m Q\<close> of those from which \<open>m\<close>
  satisfies \<open>Q\<close> if it returns. The equations in \<open>wp_simps\<close> push both through the structure of a program, so
  that a claim about an operation becomes a claim about the state by simplification.
\<close>

definition wp :: "('a, 's) prog \<Rightarrow> ('a \<Rightarrow> 's \<Rightarrow> bool) \<Rightarrow> 's \<Rightarrow> bool" where
  "wp m Q s =
     (case m s of None \<Rightarrow> False | Some (Inl e) \<Rightarrow> False | Some (Inr (x, t)) \<Rightarrow> Q x t)"

definition wlp :: "('a, 's) prog \<Rightarrow> ('a \<Rightarrow> 's \<Rightarrow> bool) \<Rightarrow> 's \<Rightarrow> bool" where
  "wlp m Q s =
     (case m s of None \<Rightarrow> True | Some (Inl e) \<Rightarrow> True | Some (Inr (x, t)) \<Rightarrow> Q x t)"

named_theorems wp_simps \<open>preconditions of the program constructs\<close>

lemma wp_iff: "wp m Q s \<longleftrightarrow> (\<exists>x t. m s = Some (Inr (x, t)) \<and> Q x t)"
  by (auto simp: wp_def split: option.splits sum.splits)

lemma wlp_iff: "wlp m Q s \<longleftrightarrow> (\<forall>x t. m s = Some (Inr (x, t)) \<longrightarrow> Q x t)"
  by (auto simp: wlp_def split: option.splits sum.splits)

lemma wp_ret [wp_simps]: "wp (ret x) Q s \<longleftrightarrow> Q x s"
  and wp_fail [wp_simps]: "wp (fail_with e) Q s \<longleftrightarrow> False"
  and wp_diverge [wp_simps]: "wp diverge Q s \<longleftrightarrow> False"
  and wp_gets [wp_simps]: "wp (gets f) Q s \<longleftrightarrow> Q (f s) s"
  and wp_modify [wp_simps]: "wp (modify g) Q' s \<longleftrightarrow> Q' () (g s)"
  by (simp_all add: wp_def prog_simps)

lemma wlp_ret [wp_simps]: "wlp (ret x) Q s \<longleftrightarrow> Q x s"
  and wlp_fail [wp_simps]: "wlp (fail_with e) Q s \<longleftrightarrow> True"
  and wlp_diverge [wp_simps]: "wlp diverge Q s \<longleftrightarrow> True"
  and wlp_gets [wp_simps]: "wlp (gets f) Q s \<longleftrightarrow> Q (f s) s"
  and wlp_modify [wp_simps]: "wlp (modify g) Q' s \<longleftrightarrow> Q' () (g s)"
  by (simp_all add: wlp_def prog_simps)

lemma wp_andThen [wp_simps]: "wp (andThen m k) Q s \<longleftrightarrow> wp m (\<lambda>x. wp (k x) Q) s"
  by (auto simp: wp_def andThen_def split: option.splits sum.splits)

lemma wlp_andThen [wp_simps]: "wlp (andThen m k) Q s \<longleftrightarrow> wlp m (\<lambda>x. wlp (k x) Q) s"
  by (auto simp: wlp_def andThen_def split: option.splits sum.splits)

lemma wp_if [wp_simps]: "wp (if b then m else m') Q s \<longleftrightarrow> (if b then wp m Q s else wp m' Q s)"
  by simp

lemma wlp_if [wp_simps]: "wlp (if b then m else m') Q s \<longleftrightarrow> (if b then wlp m Q s else wlp m' Q s)"
  by simp

lemma wp_on_snd [wp_simps]: "wp (on_snd m) Q s \<longleftrightarrow> wp m (\<lambda>x w. Q x (fst s, w)) (snd s)"
  by (auto simp: wp_def on_snd_def split: option.splits sum.splits)

lemma wlp_on_snd [wp_simps]: "wlp (on_snd m) Q s \<longleftrightarrow> wlp m (\<lambda>x w. Q x (fst s, w)) (snd s)"
  by (auto simp: wlp_def on_snd_def split: option.splits sum.splits)

lemma wp_mono: "wp m Q s \<Longrightarrow> (\<And>x t. Q x t \<Longrightarrow> Q' x t) \<Longrightarrow> wp m Q' s"
  by (auto simp: wp_iff)

lemma wlp_mono: "wlp m Q s \<Longrightarrow> (\<And>x t. Q x t \<Longrightarrow> Q' x t) \<Longrightarrow> wlp m Q' s"
  by (auto simp: wlp_iff)

lemma wlp_True [simp]: "wlp m (\<lambda>x t. True) s"
  by (simp add: wlp_iff)

lemma wlp_seq: "wlp m (\<lambda>x t. wlp (k x) Q t) s \<Longrightarrow> wlp (andThen m k) Q s"
  by (simp add: wlp_andThen)

lemma wlp_any: "(\<And>x t. Q x t) \<Longrightarrow> wlp m Q s"
  by (simp add: wlp_iff)

lemma wlp_any_call: "(\<And>x t. Q x t) \<Longrightarrow> wlp (call_ptr fp k) Q s"
  by (rule wlp_any)

text \<open>A program whose last step makes the result from whatever it got.\<close>

lemma wlp_then_ret:
  "(\<And>x t. Q (f x) t) \<Longrightarrow> wlp (andThen m (\<lambda>x. ret (f x))) Q s"
  "(\<And>x y t. Q (g x y) t) \<Longrightarrow> wlp (andThen m2 (\<lambda>(x, y). ret (g x y))) Q s"
  "(\<And>x y z t. Q (h x y z) t) \<Longrightarrow> wlp (andThen m3 (\<lambda>(x, y, z). ret (h x y z))) Q s"
  unfolding wlp_andThen by (rule wlp_any, simp add: wlp_ret split: prod.split)+

lemma wlp_call_ptr: "(\<And>f. fp = Some f \<Longrightarrow> wlp (k f) Q s) \<Longrightarrow> wlp (call_ptr fp k) Q s"
  by (cases fp) (simp_all add: prog_simps wp_simps)

lemma wp_wlp: "wp m Q s \<Longrightarrow> wlp m Q s"
  by (auto simp: wp_iff wlp_iff)

lemma wp_conj: "wp m Q s \<Longrightarrow> wlp m Q' s \<Longrightarrow> wp m (\<lambda>x t. Q x t \<and> Q' x t) s"
  by (auto simp: wp_iff wlp_iff)

end
