(* ===== verification/Context_Invariant.thy ===== *)
theory Context_Invariant
  imports File_Context Program_Logic
begin

text \<open>
  The invariant of the context's work items, and what each operation of the client and each step of the
  processing thread does to the state, stated with the preconditions of \<open>Program_Logic\<close>. The
  properties are then read off these lemmas.
\<close>

abbreviation pending :: "('d, 'w) file_context \<Rightarrow> addr list" where
  "pending fc \<equiv> rb_contents (fc_workItemQueue fc)"

text \<open>
  The pool and the queue are well formed, exactly the slots handed out hold items, and the queue holds
  items in use, none of them twice.
\<close>

definition items_inv :: "('d, 'w) file_context \<Rightarrow> bool" where
  "items_inv fc \<longleftrightarrow>
     pl_inv (fc_workItemPool fc)
     \<and> rb_inv (fc_workItemQueue fc) \<and> rb_semaphore (fc_workItemQueue fc)
     \<and> dom (fc_items fc) = wp.used (fc_workItemPool fc)
     \<and> set (pending fc) \<subseteq> dom (fc_items fc) \<and> distinct (pending fc)"

text \<open>
  The thread: the flag says whether it runs, and while it waits with work in the queue, the semaphore has
  been notified.
\<close>

definition thread_inv :: "('d, 'w) file_context \<Rightarrow> bool" where
  "thread_inv fc \<longleftrightarrow>
     (fc_processing fc \<longleftrightarrow> fc_processingThread fc \<noteq> NotStarted)
     \<and> (fc_processingThread fc = InWait \<and> pending fc \<noteq> []
        \<longrightarrow> sem_value (fc_workItemQueueSemaphore fc) \<noteq> 0)"

subsection \<open>Preconditions of the accesses\<close>

lemma wp_fc_get [wp_simps]: "wp (fc_get f) Q s \<longleftrightarrow> Q (f (fst s)) s"
  and wp_fc_set [wp_simps]: "wp (fc_set g) Q' s \<longleftrightarrow> Q' () (g (fst s), snd s)"
  and wlp_fc_get [wp_simps]: "wlp (fc_get f) Q s \<longleftrightarrow> Q (f (fst s)) s"
  and wlp_fc_set [wp_simps]: "wlp (fc_set g) Q' s \<longleftrightarrow> Q' () (g (fst s), snd s)"
  by (cases s, simp add: fc_get_def fc_set_def wp_simps)+

lemma wp_item_at [wp_simps]:
  "wp (item_at a) Q s \<longleftrightarrow> (\<exists>item. fc_items (fst s) a = Some item \<and> Q item s)"
  by (auto simp: item_at_def wp_simps split: option.splits)

lemma wlp_item_at [wp_simps]:
  "wlp (item_at a) Q s \<longleftrightarrow> (\<forall>item. fc_items (fst s) a = Some item \<longrightarrow> Q item s)"
  by (auto simp: item_at_def wp_simps split: option.splits)

lemma wp_update_item [wp_simps]:
  "wp (update_item a f) Q s \<longleftrightarrow> (\<exists>item. fc_items (fst s) a = Some item
     \<and> Q () ((fst s)\<lparr>fc_items := (fc_items (fst s))(a \<mapsto> f item)\<rparr>, snd s))"
  by (simp add: update_item_def wp_simps)

lemma wlp_update_item [wp_simps]:
  "wlp (update_item a f) Q s \<longleftrightarrow> (\<forall>item. fc_items (fst s) a = Some item
     \<longrightarrow> Q () ((fst s)\<lparr>fc_items := (fc_items (fst s))(a \<mapsto> f item)\<rparr>, snd s))"
  by (simp add: update_item_def wp_simps)

lemma wp_on_queue [wp_simps]:
  "wp (on_queue m) Q s \<longleftrightarrow>
     wp m (\<lambda>x q. Q x ((fst s)\<lparr>fc_workItemQueue := q\<rparr>, snd s)) (fc_workItemQueue (fst s))"
  by (auto simp: wp_def on_queue_def split: option.splits sum.splits)

lemma wlp_on_queue [wp_simps]:
  "wlp (on_queue m) Q s \<longleftrightarrow>
     wlp m (\<lambda>x q. Q x ((fst s)\<lparr>fc_workItemQueue := q\<rparr>, snd s)) (fc_workItemQueue (fst s))"
  by (auto simp: wlp_def on_queue_def split: option.splits sum.splits)

text \<open>The program on the context's own state around a call to the allocator.\<close>

lemma wlp_fc_allocate:
  "(\<And>p w. Q p (fst s, w)) \<Longrightarrow> wlp (fc_allocate n al) Q s"
  unfolding fc_allocate_def wp_simps by (simp add: wlp_iff)

lemma wlp_fc_deallocate:
  "(\<And>w. Q () (fst s, w)) \<Longrightarrow> wlp (fc_deallocate p) Q s"
  unfolding fc_deallocate_def wp_simps by (simp add: wlp_iff)

text \<open>An allocator that always returns, with memory.\<close>

definition total_allocator :: "'w lfs_allocator_t \<Rightarrow> bool" where
  "total_allocator a \<longleftrightarrow>
     (\<forall>n al w. wp (call_alloc a n al) (\<lambda>p w'. p \<noteq> nullptr) w)
     \<and> (\<forall>p w. wp (call_free a p) (\<lambda>_ w'. True) w)"

lemma wp_fc_allocate:
  assumes "total_allocator (fc_alloc (fst s))" "\<And>p w. p \<noteq> nullptr \<Longrightarrow> Q p (fst s, w)"
  shows "wp (fc_allocate n al) Q s"
proof -
  have "wp (call_alloc (fc_alloc (fst s)) n al) (\<lambda>p w'. p \<noteq> nullptr) (snd s)"
    using assms(1) by (simp add: total_allocator_def)
  then show ?thesis
    unfolding fc_allocate_def wp_simps by (rule wp_mono) (rule assms(2))
qed

lemma wp_fc_deallocate:
  assumes "total_allocator (fc_alloc (fst s))" "\<And>w. Q () (fst s, w)"
  shows "wp (fc_deallocate p) Q s"
proof -
  have "wp (call_free (fc_alloc (fst s)) p) (\<lambda>_ w'. True) (snd s)"
    using assms(1) by (simp add: total_allocator_def)
  then show ?thesis
    unfolding fc_deallocate_def wp_simps by (rule wp_mono) (use assms(2) in simp)
qed

subsection \<open>The pool and the items\<close>

lemma items_inv_pool: "items_inv fc \<Longrightarrow> pl_inv (fc_workItemPool fc)"
  and items_inv_queue: "items_inv fc \<Longrightarrow> rb_inv (fc_workItemQueue fc)"
  and items_inv_semaphore: "items_inv fc \<Longrightarrow> rb_semaphore (fc_workItemQueue fc)"
  by (simp_all add: items_inv_def)

text \<open>What an allocation from the pool does to the state: a fresh item, or nothing at all.\<close>

definition pool_took :: "('d, 'w) file_context \<Rightarrow> addr \<Rightarrow> ('d, 'w) file_context \<Rightarrow> bool" where
  "pool_took fc a fc' \<longleftrightarrow>
     (if pl_free_slots (fc_workItemPool fc) = {} then a = nullptr \<and> fc' = fc
      else a \<noteq> nullptr \<and> fc_items fc a = None
        \<and> (\<exists>p. fc' = fc\<lparr>fc_workItemPool := p, fc_items := (fc_items fc)(a \<mapsto> new_work_item)\<rparr>)
        \<and> pl_free_slots (fc_workItemPool fc') = pl_free_slots (fc_workItemPool fc) - {a})
     \<and> items_inv fc'"

lemma wp_workItemPool_alloc:
  assumes "items_inv (fst s)" "\<And>a fc'. pool_took (fst s) a fc' \<Longrightarrow> Q a (fc', snd s)"
  shows "wp workItemPool_alloc Q s"
proof -
  let ?fc = "fst s"
  obtain a p' where a: "pl_alloc (fc_workItemPool ?fc) = (a, p')" by force
  have inv: "pl_inv (fc_workItemPool ?fc)" using assms(1) by (rule items_inv_pool)
  note r = wp.alloc_result [OF inv a]
  have st: "pl_storage (fc_workItemPool ?fc) \<noteq> nullptr" using inv by (simp add: pl_inv_def)
  have took: "pool_took ?fc a (?fc\<lparr>fc_workItemPool := p',
      fc_items := (if a \<noteq> nullptr then (fc_items ?fc)(a \<mapsto> new_work_item) else fc_items ?fc)\<rparr>)"
  proof (cases "a = nullptr")
    case True
    with r wp.alloc_none [OF inv] a assms(1) show ?thesis by (simp add: pool_took_def)
  next
    case False
    with r have ne: "pl_free_slots (fc_workItemPool ?fc) \<noteq> {}" by simp
    have "a \<notin> wp.used (fc_workItemPool ?fc)" using wp.alloc_fresh [OF inv a False] by simp
    moreover have dom: "dom (fc_items ?fc) = wp.used (fc_workItemPool ?fc)"
      using assms(1) by (simp only: items_inv_def)
    ultimately have none: "fc_items ?fc a = None" by blast
    have "dom ((fc_items ?fc)(a \<mapsto> new_work_item)) = wp.used p'"
      using r False dom by simp
    then have "items_inv (?fc\<lparr>fc_workItemPool := p', fc_items := (fc_items ?fc)(a \<mapsto> new_work_item)\<rparr>)"
      using r assms(1) False dom ne unfolding items_inv_def by (simp del: dom_fun_upd) (blast intro: subset_insertI2)
    with none False ne wp.alloc_some [OF inv ne a] show ?thesis
      by (simp add: pool_took_def) (rule exI, rule refl)
  qed
  show ?thesis
    using assms(2) [OF took] st a by (simp add: workItemPool_alloc_def wp_simps Let_def)
qed

text \<open>Changing an item, or the world, keeps the invariant.\<close>

lemma items_inv_update [simp]:
  "fc_items fc a = Some item \<Longrightarrow>
     items_inv (fc\<lparr>fc_items := (fc_items fc)(a \<mapsto> item')\<rparr>) \<longleftrightarrow> items_inv fc"
  by (simp add: items_inv_def insert_absorb domI)

lemma items_inv_other [simp]:
  "items_inv (fc\<lparr>fc_mounts := ms\<rparr>) \<longleftrightarrow> items_inv fc"
  "items_inv (fc\<lparr>fc_interfaces := is\<rparr>) \<longleftrightarrow> items_inv fc"
  "items_inv (fc\<lparr>fc_workItemQueueSemaphore := sem\<rparr>) \<longleftrightarrow> items_inv fc"
  "items_inv (fc\<lparr>fc_processingThread := t\<rparr>) \<longleftrightarrow> items_inv fc"
  "items_inv (fc\<lparr>fc_processing := b\<rparr>) \<longleftrightarrow> items_inv fc"
  "items_inv (fc\<lparr>fc_log := l\<rparr>) \<longleftrightarrow> items_inv fc"
  by (simp_all add: items_inv_def)

text \<open>The release of an item that is in use and not in the queue.\<close>

lemma items_inv_free:
  assumes "items_inv fc" "fc_items fc a = Some item" "a \<notin> set (pending fc)"
  shows "items_inv (fc\<lparr>fc_workItemPool := pl_free a (fc_workItemPool fc),
    fc_items := (fc_items fc)(a := None)\<rparr>)"
proof -
  have "a \<in> wp.used (fc_workItemPool fc)" using assms(1,2) by (auto simp: items_inv_def)
  from wp.free_used [OF _ this] assms show ?thesis by (auto simp: items_inv_def)
qed

subsection \<open>The queue\<close>

definition pushed :: "('d, 'w) file_context \<Rightarrow> addr \<Rightarrow> ('d, 'w) file_context \<Rightarrow> bool" where
  "pushed fc a fc' \<longleftrightarrow>
     (\<exists>q. fc' = fc\<lparr>fc_workItemQueue := q, fc_workItemQueueSemaphore :=
        (if pending fc = [] then sem_notify (fc_workItemQueueSemaphore fc)
         else fc_workItemQueueSemaphore fc)\<rparr>)
     \<and> pending fc' = pending fc @ [a]
     \<and> rb_capacity (fc_workItemQueue fc') = rb_capacity (fc_workItemQueue fc) \<and> items_inv fc'"

lemma pushed_fields:
  assumes "pushed fc a fc'"
  shows "fc_items fc' = fc_items fc" "fc_mounts fc' = fc_mounts fc" "fc_alloc fc' = fc_alloc fc"
    "fc_workItemPool fc' = fc_workItemPool fc" "fc_processing fc' = fc_processing fc"
    "fc_processingThread fc' = fc_processingThread fc" "fc_self fc' = fc_self fc"
  using assms by (auto simp: pushed_def)

lemma wp_push_work_item:
  assumes inv: "items_inv (fst s)" and a: "fc_items (fst s) a = Some item" "a \<notin> set (pending (fst s))"
    and room: "\<not> rb_full (fc_workItemQueue (fst s))"
    and Q: "\<And>fc'. pushed (fst s) a fc' \<Longrightarrow> Q () (fc', snd s)"
  shows "wp (push_work_item a) Q s"
proof -
  let ?fc = "fst s"
  from rb_push_room [OF items_inv_queue [OF inv] room, of a] items_inv_semaphore [OF inv] obtain q where
    push: "rb_push a (fc_workItemQueue ?fc) = Some (Inr (pending ?fc = [], q))"
    and q: "rb_contents q = pending ?fc @ [a]"
      "rb_capacity q = rb_capacity (fc_workItemQueue ?fc)" "rb_semaphore q" "rb_inv q"
    by auto
  let ?fc' = "?fc\<lparr>fc_workItemQueue := q, fc_workItemQueueSemaphore :=
        (if pending ?fc = [] then sem_notify (fc_workItemQueueSemaphore ?fc)
         else fc_workItemQueueSemaphore ?fc)\<rparr>"
  have "items_inv ?fc'" using inv a q by (auto simp: items_inv_def)
  then have "pushed ?fc a ?fc'"
    unfolding pushed_def using q(1,2) by (intro conjI exI [of _ q]) simp_all
  from Q [OF this] show ?thesis
    by (auto simp: push_work_item_def wp_simps wp_def [of "rb_push a"] push)
qed

lemma wlp_push_work_item:
  assumes "items_inv (fst s)" "fc_items (fst s) a = Some item" "a \<notin> set (pending (fst s))"
    and "\<And>fc'. pushed (fst s) a fc' \<Longrightarrow> Q () (fc', snd s)"
  shows "wlp (push_work_item a) Q s"
proof (cases "rb_full (fc_workItemQueue (fst s))")
  case True
  then have "rb_push a (fc_workItemQueue (fst s)) = None"
    using rb_push_Some_room [of a "fc_workItemQueue (fst s)"]
    by (cases "rb_push a (fc_workItemQueue (fst s))") blast+
  then show ?thesis by (simp add: push_work_item_def wp_simps wlp_def [of "rb_push a"])
next
  case False
  show ?thesis by (rule wp_wlp, rule wp_push_work_item [OF assms(1-3) False], rule assms(4))
qed

text \<open>What the thread finds in the queue.\<close>

definition popped :: "('d, 'w) file_context \<Rightarrow> addr \<Rightarrow> ('d, 'w) file_context \<Rightarrow> bool" where
  "popped fc a fc' \<longleftrightarrow>
     (case pending fc of
        [] \<Rightarrow> a = nullptr \<and> fc' = fc
      | b # rest \<Rightarrow> a = b \<and> (\<exists>q. fc' = fc\<lparr>fc_workItemQueue := q\<rparr>) \<and> pending fc' = rest)
     \<and> items_inv fc'"

lemma items_inv_not_null: "items_inv fc \<Longrightarrow> fc_items fc a = Some item \<Longrightarrow> a \<noteq> nullptr"
  using wp.slots_not_null [of "fc_workItemPool fc"]
  by (auto simp: items_inv_def wp.used_def dom_def)

lemma wp_pop:
  assumes inv: "items_inv (fst s)"
    and Q: "\<And>a fc'. popped (fst s) a fc' \<Longrightarrow> Q a (fc', snd s)"
  shows "wp (on_queue (rb_pop nullptr)) Q s"
proof (cases "pending (fst s)")
  case Nil
  then have "rb_pop nullptr (fc_workItemQueue (fst s)) = Some (Inr (nullptr, fc_workItemQueue (fst s)))"
    using items_inv_queue [OF inv] by (simp add: rb_pop_empty)
  moreover have "popped (fst s) nullptr ((fst s)\<lparr>fc_workItemQueue := fc_workItemQueue (fst s)\<rparr>)"
    using inv Nil by (simp add: popped_def)
  ultimately show ?thesis using Q [of nullptr "fst s"] by (simp add: wp_simps wp_def [of "rb_pop _"])
next
  case (Cons a rest)
  from rb_pop_item [OF items_inv_queue [OF inv] Cons, of nullptr] obtain q where
    pop: "rb_pop nullptr (fc_workItemQueue (fst s)) = Some (Inr (a, q))"
    and q: "rb_contents q = rest" "rb_inv q"
      "rb_semaphore q = rb_semaphore (fc_workItemQueue (fst s))" by blast
  have "items_inv ((fst s)\<lparr>fc_workItemQueue := q\<rparr>)"
    using inv q Cons by (auto simp: items_inv_def)
  then have "popped (fst s) a ((fst s)\<lparr>fc_workItemQueue := q\<rparr>)"
    using Cons q(1) by (auto simp: popped_def)
  with Q pop show ?thesis by (simp add: wp_simps wp_def [of "rb_pop _"])
qed

subsection \<open>Submission of a request\<close>

text \<open>The item that \<^verbatim>\<open>allocWorkItemCommon\<close> prepares.\<close>

definition prepared_item :: "addr \<Rightarrow> addr \<Rightarrow> string \<Rightarrow> lfs_file_operation_t \<Rightarrow> addr \<Rightarrow> addr
    \<Rightarrow> lfs_callback_buffer_action_t \<Rightarrow> 'w lfs_work_item_t" where
  "prepared_item this name path op callback callbackUserData bufferAction =
     new_work_item\<lparr>wi_operation := op, wi_filename := name, wi_filenameText := normalize path,
       wi_callback := callback, wi_callbackUserData := callbackUserData,
       wi_callbackBufferAction := bufferAction, wi_context := this\<rparr>"

text \<open>
  \<open>took fc a item fc'\<close>: a slot was free, and its object, which no one used, is now in use and holds
  \<open>item\<close>. Nothing else is different.
\<close>

definition took :: "('d, 'w) file_context \<Rightarrow> addr \<Rightarrow> 'w lfs_work_item_t \<Rightarrow> ('d, 'w) file_context \<Rightarrow> bool" where
  "took fc a item fc' \<longleftrightarrow>
     a \<noteq> nullptr \<and> fc_items fc a = None \<and> items_inv fc'
     \<and> (\<exists>p. fc' = fc\<lparr>fc_workItemPool := p, fc_items := (fc_items fc)(a \<mapsto> item)\<rparr>)
     \<and> pl_free_slots (fc_workItemPool fc') = pl_free_slots (fc_workItemPool fc) - {a}"

lemma took_fields:
  assumes "took fc a item fc'"
  shows "fc_items fc' = (fc_items fc)(a \<mapsto> item)" "fc_mounts fc' = fc_mounts fc"
    "fc_alloc fc' = fc_alloc fc" "fc_workItemQueue fc' = fc_workItemQueue fc"
    "fc_workItemQueueSemaphore fc' = fc_workItemQueueSemaphore fc"
    "fc_processing fc' = fc_processing fc" "fc_processingThread fc' = fc_processingThread fc"
    "fc_self fc' = fc_self fc"
proof -
  from assms obtain p where "fc' = fc\<lparr>fc_workItemPool := p, fc_items := (fc_items fc)(a \<mapsto> item)\<rparr>"
    unfolding took_def by blast
  then show "fc_items fc' = (fc_items fc)(a \<mapsto> item)" "fc_mounts fc' = fc_mounts fc"
    "fc_alloc fc' = fc_alloc fc" "fc_workItemQueue fc' = fc_workItemQueue fc"
    "fc_workItemQueueSemaphore fc' = fc_workItemQueueSemaphore fc"
    "fc_processing fc' = fc_processing fc" "fc_processingThread fc' = fc_processingThread fc"
    "fc_self fc' = fc_self fc" by simp_all
qed

lemma pool_took_took:
  "pool_took fc a fc' \<Longrightarrow> a \<noteq> nullptr \<Longrightarrow> took fc a new_work_item fc'"
  by (auto simp: pool_took_def took_def split: if_splits)

lemma took_update:
  assumes "took fc a item fc'"
  shows "took fc a item' (fc'\<lparr>fc_items := (fc_items fc)(a \<mapsto> item')\<rparr>)"
proof -
  from assms obtain p where
    fc': "fc' = fc\<lparr>fc_workItemPool := p, fc_items := (fc_items fc)(a \<mapsto> item)\<rparr>"
    unfolding took_def by blast
  then have "fc_items fc' a = Some item" "(fc_items fc')(a \<mapsto> item') = (fc_items fc)(a \<mapsto> item')"
    by simp_all
  with items_inv_update [of fc' a item item'] assms
  have "items_inv (fc'\<lparr>fc_items := (fc_items fc)(a \<mapsto> item')\<rparr>)" by (simp add: took_def)
  with assms fc' show ?thesis
    unfolding took_def by (intro conjI exI [of _ p]) simp_all
qed

text \<open>With a free slot, the preparation succeeds.\<close>

lemma wp_initWorkItem:
  assumes "total_allocator (fc_alloc (fst s))"
    and "\<And>name w. name \<noteq> nullptr \<Longrightarrow> Q (item\<lparr>wi_operation := op, wi_filename := name,
         wi_filenameText := normalize path, wi_callback := cb, wi_callbackUserData := ud,
         wi_callbackBufferAction := act, wi_completed := False, wi_context := fc_self (fst s)\<rparr>) (fst s, w)"
  shows "wp (initWorkItem item path op cb ud act) Q s"
  unfolding initWorkItem_def wp_simps
  by (rule wp_fc_allocate [OF assms(1)]) (simp add: assms(2) wp_simps)

lemma wlp_initWorkItem:
  assumes "\<And>item' w. Q item' (fst s, w)"
  shows "wlp (initWorkItem item path op cb ud act) Q s"
  unfolding initWorkItem_def wp_simps
  by (rule wlp_fc_allocate) (simp add: assms wp_simps)

lemma wp_allocWorkItemCommon:
  assumes inv: "items_inv (fst s)" and al: "total_allocator (fc_alloc (fst s))"
    and free: "pl_free_slots (fc_workItemPool (fst s)) \<noteq> {}"
    and Q: "\<And>a name fc' w. name \<noteq> nullptr \<Longrightarrow>
      took (fst s) a (prepared_item (fc_self (fst s)) name path op cb ud act) fc' \<Longrightarrow> Q a (fc', w)"
  shows "wp (allocWorkItemCommon cbs path op cb ud act) Q s"
  unfolding allocWorkItemCommon_def wp_simps
proof (rule wp_workItemPool_alloc [OF inv], goal_cases)
  case (1 a fc')
  then have pt: "pool_took (fst s) a fc'" .
  with free have a: "a \<noteq> nullptr" by (simp add: pool_took_def)
  note t = pool_took_took [OF pt a] and f = took_fields [OF pool_took_took [OF pt a]]
  have "wp (initWorkItem new_work_item path op cb ud act)
      (\<lambda>item'. wp (update_item a (\<lambda>_. item')) (\<lambda>_. wp (ret a) Q)) (fc', snd s)"
  proof (rule wp_initWorkItem)
    show "total_allocator (fc_alloc (fst (fc', snd s)))" using al f by simp
    fix name w
    assume name: "name \<noteq> nullptr"
    have item: "new_work_item\<lparr>wi_operation := op, wi_filename := name, wi_filenameText := normalize path,
        wi_callback := cb, wi_callbackUserData := ud, wi_callbackBufferAction := act,
        wi_completed := False, wi_context := fc_self fc'\<rparr>
      = prepared_item (fc_self (fst s)) name path op cb ud act"
      by (simp add: prepared_item_def new_work_item_def f)
    show "wp (update_item a (\<lambda>_. new_work_item\<lparr>wi_operation := op, wi_filename := name,
        wi_filenameText := normalize path, wi_callback := cb, wi_callbackUserData := ud,
        wi_callbackBufferAction := act, wi_completed := False,
        wi_context := fc_self (fst (fc', snd s))\<rparr>)) (\<lambda>_. wp (ret a) Q) (fst (fc', snd s), w)"
      using Q [OF name took_update [OF t]] f(1) by (simp add: wp_simps item)
  qed
  then show ?case
    using a f(1) unfolding wp_simps by simp
qed

end
