(* ===== verification/Requests.thy ===== *)
theory Requests
  imports Context_Invariant
begin

text \<open>
  The requests of a client: what each operation of the context that submits work adds to the state. A
  request is described by data, with the item it stands for; the operations of the code are shown to
  put exactly that item at the end of the queue.
\<close>

datatype 'w request =
    ReadFile string bool "'w lfs_allocator_t option"
  | ReadFileSegment string u64 u64 bool "'w lfs_allocator_t option"
  | WriteFile string addr u64
  | WriteFileSegment string u64 addr u64
  | AppendFile string addr u64
  | FileExists string
  | FileSize string
  | DeleteFile string
  | CreateDir string
  | DeleteDir string

text \<open>The operation of the code for a request, without and with a callback.\<close>

fun issue :: "('d, 'w) callbacks \<Rightarrow> 'w request \<Rightarrow> (addr, ('d, 'w) ctx) prog" where
  "issue cbs (ReadFile path nt al) = readFile cbs path nt al"
| "issue cbs (ReadFileSegment path off n nt al) = readFileSegment cbs path off n nt al"
| "issue cbs (WriteFile path buffer n) = writeFile cbs path buffer n"
| "issue cbs (WriteFileSegment path off buffer n) = writeFileSegment cbs path off buffer n"
| "issue cbs (AppendFile path buffer n) = appendFile cbs path buffer n"
| "issue cbs (FileExists path) = fileExists cbs path"
| "issue cbs (FileSize path) = fileSize cbs path"
| "issue cbs (DeleteFile path) = deleteFile cbs path"
| "issue cbs (CreateDir path) = createDir cbs path"
| "issue cbs (DeleteDir path) = deleteDir cbs path"

fun issue_callback :: "('d, 'w) callbacks \<Rightarrow> 'w request \<Rightarrow> addr \<Rightarrow> lfs_callback_buffer_action_t \<Rightarrow> addr
    \<Rightarrow> (unit, ('d, 'w) ctx) prog" where
  "issue_callback cbs (ReadFile path nt al) cb act ud = readFileWithCallback cbs path nt cb act ud al"
| "issue_callback cbs (ReadFileSegment path off n nt al) cb act ud =
     readFileSegmentWithCallback cbs path off n nt cb act ud al"
| "issue_callback cbs (WriteFile path buffer n) cb act ud =
     writeFileWithCallback cbs path buffer n cb act ud"
| "issue_callback cbs (WriteFileSegment path off buffer n) cb act ud =
     writeFileSegmentWithCallback cbs path off buffer n cb act ud"
| "issue_callback cbs (AppendFile path buffer n) cb act ud =
     appendFileWithCallback cbs path buffer n cb act ud"
| "issue_callback cbs (FileExists path) cb act ud = fileExistsWithCallback cbs path cb ud"
| "issue_callback cbs (FileSize path) cb act ud = fileSizeWithCallback cbs path cb ud"
| "issue_callback cbs (DeleteFile path) cb act ud = deleteFileWithCallback cbs path cb ud"
| "issue_callback cbs (CreateDir path) cb act ud = createDirWithCallback cbs path cb ud"
| "issue_callback cbs (DeleteDir path) cb act ud = deleteDirWithCallback cbs path cb ud"

text \<open>The item of a request: its path, its operation and the fields the operation needs.\<close>

fun request_path :: "'w request \<Rightarrow> string" where
  "request_path (ReadFile path nt al) = path"
| "request_path (ReadFileSegment path off n nt al) = path"
| "request_path (WriteFile path buffer n) = path"
| "request_path (WriteFileSegment path off buffer n) = path"
| "request_path (AppendFile path buffer n) = path"
| "request_path (FileExists path) = path"
| "request_path (FileSize path) = path"
| "request_path (DeleteFile path) = path"
| "request_path (CreateDir path) = path"
| "request_path (DeleteDir path) = path"

fun request_op :: "'w request \<Rightarrow> lfs_file_operation_t" where
  "request_op (ReadFile path nt al) = LFS_OP_READ"
| "request_op (ReadFileSegment path off n nt al) = LFS_OP_READ"
| "request_op (WriteFile path buffer n) = LFS_OP_WRITE"
| "request_op (WriteFileSegment path off buffer n) = LFS_OP_WRITE_SEGMENT"
| "request_op (AppendFile path buffer n) = LFS_OP_APPEND"
| "request_op (FileExists path) = LFS_OP_EXISTS"
| "request_op (FileSize path) = LFS_OP_SIZE"
| "request_op (DeleteFile path) = LFS_OP_DELETE"
| "request_op (CreateDir path) = LFS_OP_CREATE_DIR"
| "request_op (DeleteDir path) = LFS_OP_DELETE_DIR"

fun request_action :: "'w request \<Rightarrow> lfs_callback_buffer_action_t \<Rightarrow> lfs_callback_buffer_action_t" where
  "request_action (FileExists path) act = LFS_DO_NOT_FREE_BUFFER"
| "request_action (FileSize path) act = LFS_DO_NOT_FREE_BUFFER"
| "request_action (DeleteFile path) act = LFS_DO_NOT_FREE_BUFFER"
| "request_action (CreateDir path) act = LFS_DO_NOT_FREE_BUFFER"
| "request_action (DeleteDir path) act = LFS_DO_NOT_FREE_BUFFER"
| "request_action _ act = act"

fun request_fields :: "'w lfs_allocator_t \<Rightarrow> 'w request \<Rightarrow> 'w lfs_work_item_t \<Rightarrow> 'w lfs_work_item_t" where
  "request_fields ctxAlloc (ReadFile path nt al) it = it\<lparr>wi_allocator := case_option ctxAlloc id al,
     wi_nullTerminate := nt, wi_bufferBytes := 0xFFFFFFFFFFFFFFFF, wi_offset := 0\<rparr>"
| "request_fields ctxAlloc (ReadFileSegment path off n nt al) it =
     it\<lparr>wi_allocator := case_option ctxAlloc id al, wi_nullTerminate := nt, wi_bufferBytes := n,
        wi_offset := off\<rparr>"
| "request_fields ctxAlloc (WriteFile path buffer n) it =
     it\<lparr>wi_buffer := buffer, wi_bufferBytes := n, wi_offset := 0\<rparr>"
| "request_fields ctxAlloc (WriteFileSegment path off buffer n) it =
     it\<lparr>wi_buffer := buffer, wi_bufferBytes := n, wi_offset := off\<rparr>"
| "request_fields ctxAlloc (AppendFile path buffer n) it =
     it\<lparr>wi_buffer := buffer, wi_bufferBytes := n\<rparr>"
| "request_fields ctxAlloc _ it = it"

definition request_item :: "('d, 'w) file_context \<Rightarrow> addr \<Rightarrow> 'w request \<Rightarrow> addr
    \<Rightarrow> lfs_callback_buffer_action_t \<Rightarrow> addr \<Rightarrow> 'w lfs_work_item_t" where
  "request_item fc name req cb act ud =
     request_fields (fc_alloc fc) req
       (prepared_item (fc_self fc) name (request_path req) (request_op req) cb ud
         (request_action req act))"

text \<open>The state after a submission: one more item in use, at the end of the queue.\<close>

definition submitted :: "('d, 'w) file_context \<Rightarrow> addr \<Rightarrow> 'w lfs_work_item_t
    \<Rightarrow> ('d, 'w) file_context \<Rightarrow> bool" where
  "submitted fc a item fc' \<longleftrightarrow>
     a \<noteq> nullptr \<and> fc_items fc a = None \<and> fc_items fc' = (fc_items fc)(a \<mapsto> item)
     \<and> pending fc' = pending fc @ [a] \<and> items_inv fc'
     \<and> fc_mounts fc' = fc_mounts fc \<and> fc_alloc fc' = fc_alloc fc
     \<and> fc_processing fc' = fc_processing fc \<and> fc_processingThread fc' = fc_processingThread fc
     \<and> fc_workItemQueueSemaphore fc' =
         (if pending fc = [] then sem_notify (fc_workItemQueueSemaphore fc)
          else fc_workItemQueueSemaphore fc)"

lemma took_pushed_submitted:
  assumes "items_inv fc" "took fc a item fc1" "pushed fc1 a fc'"
  shows "submitted fc a item fc'"
proof -
  note t = took_fields [OF assms(2)] and p = pushed_fields [OF assms(3)]
  have "fc_workItemQueueSemaphore fc' = (if pending fc1 = [] then sem_notify (fc_workItemQueueSemaphore fc1)
      else fc_workItemQueueSemaphore fc1)"
    using assms(3) unfolding pushed_def by auto
  moreover have "pending fc' = pending fc1 @ [a]" "items_inv fc'" using assms(3) by (simp_all add: pushed_def)
  ultimately show ?thesis
    using assms(2) t p by (simp add: submitted_def took_def)
qed

lemma took_not_pending:
  assumes "items_inv fc" "took fc a item fc1"
  shows "a \<notin> set (pending fc1)"
  using assms took_fields [OF assms(2)] by (auto simp: took_def items_inv_def)

lemma wp_push_took:
  assumes "items_inv fc" "took fc a item fc1" "\<not> rb_full (fc_workItemQueue fc)"
    and "\<And>fc'. submitted fc a item fc' \<Longrightarrow> Q () (fc', w)"
  shows "wp (push_work_item a) Q (fc1, w)"
proof (rule wp_push_work_item)
  note t = took_fields [OF assms(2)]
  show "items_inv (fst (fc1, w))" using assms(2) by (simp add: took_def)
  show "fc_items (fst (fc1, w)) a = Some item" by (simp add: t)
  show "a \<notin> set (pending (fst (fc1, w)))" using took_not_pending [OF assms(1,2)] by simp
  show "\<not> rb_full (fc_workItemQueue (fst (fc1, w)))" using assms(3) by (simp add: t)
  show "Q () (fc', snd (fc1, w))" if "pushed (fst (fc1, w)) a fc'" for fc'
    using assms(4) [OF took_pushed_submitted [OF assms(1,2)]] that by simp
qed

lemma wp_update_push_took:
  assumes "items_inv fc" "took fc a item fc1" "\<not> rb_full (fc_workItemQueue fc)"
    and "\<And>fc'. submitted fc a (f item) fc' \<Longrightarrow> Q () (fc', w)"
  shows "wp (update_item a f) (\<lambda>_. wp (push_work_item a) Q) (fc1, w)"
proof -
  have i: "fc_items fc1 = (fc_items fc)(a \<mapsto> item)" by (rule took_fields(1) [OF assms(2)])
  then have "fc1\<lparr>fc_items := (fc_items fc1)(a \<mapsto> f item)\<rparr> = fc1\<lparr>fc_items := (fc_items fc)(a \<mapsto> f item)\<rparr>"
    by simp
  with wp_push_took [OF assms(1) took_update [OF assms(2)] assms(3), of "f item" Q w] assms(4) i
  show ?thesis unfolding wp_update_item by simp
qed

text \<open>The submission of an item that is prepared with a free slot and room in the queue.\<close>

definition accepted :: "('d, 'w) file_context \<Rightarrow> 'w request \<Rightarrow> addr \<Rightarrow> lfs_callback_buffer_action_t \<Rightarrow> addr
    \<Rightarrow> addr \<Rightarrow> ('d, 'w) file_context \<Rightarrow> bool" where
  "accepted fc req cb act ud a fc' \<longleftrightarrow>
     (\<exists>name. name \<noteq> nullptr \<and> submitted fc a (request_item fc name req cb act ud) fc')"

definition can_submit :: "('d, 'w) file_context \<Rightarrow> bool" where
  "can_submit fc \<longleftrightarrow>
     items_inv fc \<and> total_allocator (fc_alloc fc)
     \<and> pl_free_slots (fc_workItemPool fc) \<noteq> {} \<and> \<not> rb_full (fc_workItemQueue fc)"

lemma wp_prepare:
  assumes "can_submit (fst s)"
    and "\<And>a name fc1 w. name \<noteq> nullptr \<Longrightarrow> a \<noteq> nullptr \<Longrightarrow>
      took (fst s) a (prepared_item (fc_self (fst s)) name path op cb ud act) fc1 \<Longrightarrow> wp (k a) Q (fc1, w)"
  shows "wp (andThen (allocWorkItemCommon cbs path op cb ud act)
      (\<lambda>a. if a \<noteq> nullptr then k a else k' a)) Q s"
  unfolding wp_andThen wp_if
  using assms by (intro wp_allocWorkItemCommon) (auto simp: can_submit_def took_def)

lemma wp_push_prepared:
  assumes "can_submit fc" "name \<noteq> nullptr"
    and "took fc a (prepared_item (fc_self fc) name path op cb ud act) fc1"
    and "request_item fc name req cb act' ud = prepared_item (fc_self fc) name path op cb ud act"
    and "\<And>fc'. accepted fc req cb act' ud a fc' \<Longrightarrow> Q () (fc', w)"
  shows "wp (push_work_item a) Q (fc1, w)"
proof (rule wp_push_took)
  show "items_inv fc" "\<not> rb_full (fc_workItemQueue fc)" using assms(1) by (simp_all add: can_submit_def)
  show "took fc a (prepared_item (fc_self fc) name path op cb ud act) fc1" by (rule assms(3))
  show "Q () (fc', w)" if "submitted fc a (prepared_item (fc_self fc) name path op cb ud act) fc'" for fc'
    by (rule assms(5)) (use assms(2,4) that in \<open>auto simp: accepted_def\<close>)
qed

lemma wp_update_push_prepared:
  assumes "can_submit fc" "name \<noteq> nullptr"
    and "took fc a (prepared_item (fc_self fc) name path op cb ud act) fc1"
    and "request_item fc name req cb act' ud = f (prepared_item (fc_self fc) name path op cb ud act)"
    and "\<And>fc'. accepted fc req cb act' ud a fc' \<Longrightarrow> Q () (fc', w)"
  shows "wp (update_item a f) (\<lambda>_. wp (push_work_item a) Q) (fc1, w)"
proof (rule wp_update_push_took)
  show "items_inv fc" "\<not> rb_full (fc_workItemQueue fc)" using assms(1) by (simp_all add: can_submit_def)
  show "took fc a (prepared_item (fc_self fc) name path op cb ud act) fc1" by (rule assms(3))
  show "Q () (fc', w)" if "submitted fc a (f (prepared_item (fc_self fc) name path op cb ud act)) fc'" for fc'
    by (rule assms(5)) (use assms(2,4) that in \<open>auto simp: accepted_def\<close>)
qed

lemma wp_item_allocator [wp_simps]:
  "wp (item_allocator al) Q s \<longleftrightarrow> Q (case_option (fc_alloc (fst s)) id al) s"
  by (simp add: item_allocator_def wp_simps split: option.split)

lemmas submission_defs = readFile_def readFileSegment_def writeFileSegment_def appendFile_def
  fileExists_def fileSize_def deleteFile_def createDir_def deleteDir_def
  readFileWithCallback_def readFileSegmentWithCallback_def writeFileWithCallback_def
  writeFileSegmentWithCallback_def appendFileWithCallback_def fileExistsWithCallback_def
  fileSizeWithCallback_def deleteFileWithCallback_def createDirWithCallback_def deleteDirWithCallback_def

text \<open>The plain write: the operation of the item just pushed is changed.\<close>

lemma accepted_plain_write:
  assumes "accepted fc (WriteFileSegment path 0 buffer n) cb act ud a fc'"
  shows "\<exists>item. fc_items fc' a = Some item
    \<and> accepted fc (WriteFile path buffer n) cb act ud a
        (fc'\<lparr>fc_items := (fc_items fc')(a \<mapsto> item\<lparr>wi_operation := LFS_OP_WRITE\<rparr>)\<rparr>)"
proof -
  from assms obtain name where name: "name \<noteq> nullptr" and
    sub: "submitted fc a (request_item fc name (WriteFileSegment path 0 buffer n) cb act ud) fc'"
    by (auto simp: accepted_def)
  let ?item = "request_item fc name (WriteFileSegment path 0 buffer n) cb act ud"
  from sub have i: "fc_items fc' a = Some ?item" by (simp add: submitted_def)
  have "request_item fc name (WriteFile path buffer n) cb act ud = ?item\<lparr>wi_operation := LFS_OP_WRITE\<rparr>"
    by (simp add: request_item_def prepared_item_def)
  moreover have "items_inv (fc'\<lparr>fc_items := (fc_items fc')(a \<mapsto> ?item\<lparr>wi_operation := LFS_OP_WRITE\<rparr>)\<rparr>)"
    using items_inv_update [of fc' a, OF i] sub by (simp add: submitted_def)
  ultimately show ?thesis
    using sub i name unfolding accepted_def submitted_def by (intro exI [of _ ?item] conjI exI [of _ name]) auto
qed

text \<open>The three shapes of a submission: nothing to fill in, fields to fill in, and a read.\<close>

lemma wp_submit_plain:
  assumes "can_submit (fst s)"
    and "\<And>name. request_item (fst s) name req cb act ud
      = prepared_item (fc_self (fst s)) name path op cb ud act'"
    and "\<And>a fc' w. a \<noteq> nullptr \<Longrightarrow> accepted (fst s) req cb act ud a fc' \<Longrightarrow> Q (g a) (fc', w)"
  shows "wp (andThen (allocWorkItemCommon cbs path op cb ud act')
    (\<lambda>a. if a \<noteq> nullptr then andThen (push_work_item a) (\<lambda>_. ret (g a)) else ret (h a))) Q s"
  by (rule wp_prepare [OF assms(1)], unfold wp_andThen wp_ret,
      rule wp_push_prepared [OF assms(1)], assumption, assumption, rule assms(2), rule assms(3))

lemma wp_submit_fields:
  assumes "can_submit (fst s)"
    and "\<And>name. request_item (fst s) name req cb act ud
      = f (prepared_item (fc_self (fst s)) name path op cb ud act')"
    and "\<And>a fc' w. a \<noteq> nullptr \<Longrightarrow> accepted (fst s) req cb act ud a fc' \<Longrightarrow> Q (g a) (fc', w)"
  shows "wp (andThen (allocWorkItemCommon cbs path op cb ud act')
    (\<lambda>a. if a \<noteq> nullptr then andThen (update_item a f) (\<lambda>_. andThen (push_work_item a) (\<lambda>_. ret (g a)))
      else ret (h a))) Q s"
  by (rule wp_prepare [OF assms(1)], unfold wp_andThen wp_ret,
      rule wp_update_push_prepared [OF assms(1)], assumption, assumption, rule assms(2), rule assms(3))

lemma wp_submit_read:
  fixes s :: "('d, 'w) ctx"
  assumes "can_submit (fst s)"
    and "\<And>name. request_item (fst s) name req cb act ud
      = f (case_option (fc_alloc (fst s)) id al) (prepared_item (fc_self (fst s)) name path op cb ud act')"
    and "\<And>a fc' w. a \<noteq> nullptr \<Longrightarrow> accepted (fst s) req cb act ud a fc' \<Longrightarrow> Q (g a) (fc', w)"
  shows "wp (andThen (allocWorkItemCommon cbs path op cb ud act')
    (\<lambda>a. if a \<noteq> nullptr then andThen (item_allocator al) (\<lambda>al'. andThen (update_item a (f al'))
        (\<lambda>_. andThen (push_work_item a) (\<lambda>_. ret (g a)))) else ret (h a))) Q s"
proof (rule wp_prepare [OF assms(1)], unfold wp_andThen wp_ret wp_item_allocator)
  fix a name fc1 and w :: 'w
  assume *: "name \<noteq> nullptr" "a \<noteq> nullptr"
    "took (fst s) a (prepared_item (fc_self (fst s)) name path op cb ud act') fc1"
  have "fc_alloc (fst (fc1, w)) = fc_alloc (fst s)" using took_fields(3) [OF *(3)] by simp
  then show "wp (update_item a (f (case_option (fc_alloc (fst (fc1, w))) id al)))
      (\<lambda>x. wp (push_work_item a) (\<lambda>x. Q (g a))) (fc1, w)"
    by (simp only:) (rule wp_update_push_prepared [OF assms(1) *(1,3)], rule assms(2), rule assms(3) [OF *(2)])
qed

lemmas wp_submits = wp_submit_plain wp_submit_fields wp_submit_read

lemma max_bytes: "(0xFFFFFFFFFFFFFFFF :: u64) = - 1"
  by simp

text \<open>Every request without a callback, and every request with one, adds its item.\<close>

lemma wp_issue:
  assumes "can_submit (fst s)"
  shows "wp (issue cbs req)
    (\<lambda>a t. a \<noteq> nullptr \<and> accepted (fst s) req nullptr LFS_DO_NOT_FREE_BUFFER nullptr a (fst t)) s"
proof (cases req)
  case (WriteFile path buffer n)
  have seg: "wp (writeFileSegment cbs path 0 buffer n) (\<lambda>a t. a \<noteq> nullptr
      \<and> accepted (fst s) (WriteFileSegment path 0 buffer n) nullptr LFS_DO_NOT_FREE_BUFFER nullptr a (fst t)) s"
    unfolding submission_defs by (rule wp_submits [OF assms]) (simp_all add: request_item_def)
  show ?thesis
    unfolding WriteFile issue.simps writeFile_def wp_andThen make_plain_write_def wp_if
    by (rule wp_mono [OF seg]) (auto simp: wp_simps dest: accepted_plain_write)
qed (simp only: issue.simps submission_defs, rule wp_submits [OF assms],
    simp_all add: request_item_def max_bytes)+

lemma wp_issue_callback:
  assumes "can_submit (fst s)"
  shows "wp (issue_callback cbs req cb act ud) (\<lambda>_ t. \<exists>a. accepted (fst s) req cb act ud a (fst t)) s"
  by (cases req; simp only: issue_callback.simps submission_defs; rule wp_submits [OF assms];
      auto simp: request_item_def max_bytes)

subsection \<open>An empty pool\<close>

lemma workItemPool_alloc_none:
  assumes "items_inv fc" "pl_free_slots (fc_workItemPool fc) = {}"
  shows "workItemPool_alloc (fc, w) = Some (Inr (nullptr, (fc, w)))"
proof -
  have "pl_alloc (fc_workItemPool fc) = (nullptr, fc_workItemPool fc)"
    using items_inv_pool [OF assms(1)] assms(2) by (rule wp.alloc_none)
  then show ?thesis
    by (simp add: workItemPool_alloc_def fc_get_def fc_set_def andThen_def prog_simps Let_def)
qed

lemma allocWorkItemCommon_none:
  assumes "items_inv fc" "pl_free_slots (fc_workItemPool fc) = {}"
  shows "allocWorkItemCommon cbs path op cb ud act (fc, w) =
    (if cb \<noteq> nullptr then
       andThen (initWorkItem new_work_item path op cb ud act) (\<lambda>item.
       andThen (cbs cb (item\<lparr>wi_completed := True, wi_resultCode := LFS_OUT_OF_WORK_ITEMS\<rparr>) ud) (\<lambda>_.
       andThen (fc_deallocate (wi_filename item)) (\<lambda>_.
       ret nullptr))) (fc, w)
     else Some (Inr (nullptr, (fc, w))))"
  using workItemPool_alloc_none [OF assms]
  by (simp add: allocWorkItemCommon_def prog_simps Let_def)

text \<open>The run of a callback with the error item, which is on the stack of the caller.\<close>

definition report_exhaustion :: "('d, 'w) callbacks \<Rightarrow> 'w request \<Rightarrow> addr \<Rightarrow> lfs_callback_buffer_action_t
    \<Rightarrow> addr \<Rightarrow> (unit, ('d, 'w) ctx) prog" where
  "report_exhaustion cbs req cb act ud =
     andThen (initWorkItem new_work_item (request_path req) (request_op req) cb ud
       (request_action req act)) (\<lambda>item.
     andThen (cbs cb (item\<lparr>wi_completed := True, wi_resultCode := LFS_OUT_OF_WORK_ITEMS\<rparr>) ud) (\<lambda>_.
     fc_deallocate (wi_filename item)))"

subsection \<open>A context to apply the properties to\<close>

text \<open>A context with room for two items, over a world without state, and an allocator that always has memory.\<close>

definition sample_allocator :: "unit lfs_allocator_t" where
  "sample_allocator = \<lparr>al_alloc = Some (\<lambda>n al. ret 8), al_free = Some (\<lambda>p. ret ())\<rparr>"

definition sample_context :: "(unit, unit) mount_info list \<Rightarrow> u64 \<Rightarrow> (unit, unit) file_context" where
  "sample_context mounts poolSize = \<lparr>fc_self = 16, fc_interfaces = [], fc_mounts = mounts,
     fc_workItemPool = pl_new 4096 104 poolSize, fc_poolBitmask = 24, fc_items = Map.empty,
     fc_workItemQueueSemaphore = sem_new 0, fc_workItemQueue = rb_new [0, 0] 2 True,
     fc_queueBuffer = 32, fc_processingThread = AtLoop, fc_alloc = sample_allocator,
     fc_log = nullptr, fc_processing = True\<rparr>"

definition no_callbacks :: "('d, 'w) callbacks" where
  "no_callbacks = (\<lambda>f item u. ret ())"

lemma sample_allocator_total: "total_allocator sample_allocator"
  by (auto simp: total_allocator_def sample_allocator_def call_alloc_def call_free_def call_ptr_def
      wp_def ret_def)

lemma sample_context_inv:
  assumes "unat poolSize \<le> 1000"
  shows "items_inv (sample_context ms poolSize)"
    and "pl_free_slots (fc_workItemPool (sample_context ms poolSize)) = {} \<longleftrightarrow> poolSize = 0"
proof -
  have p: "pl_inv (pl_new 4096 104 poolSize)"
    "pl_free_slots (pl_new 4096 104 poolSize) = pl_slots (pl_new 4096 104 poolSize)"
    "card (pl_slots (pl_new 4096 104 poolSize)) = unat poolSize"
    using pl_new_inv [of 4096 104 poolSize] assms by simp_all
  then show "items_inv (sample_context ms poolSize)"
    by (simp add: items_inv_def sample_context_def wp.used_def rb_new_inv)
  show "pl_free_slots (fc_workItemPool (sample_context ms poolSize)) = {} \<longleftrightarrow> poolSize = 0"
    using p wp.slots_finite [OF p(1)] by (auto simp: sample_context_def unat_eq_0 simp flip: card_0_eq)
qed

lemma sample_can_submit: "can_submit (sample_context ms 2)"
  using sample_context_inv [of 2 ms] sample_allocator_total
  by (simp add: can_submit_def) (simp add: sample_context_def rb_new_def)

subsection \<open>Properties\<close>

text \<open>
  C4: every request without a callback that finds a free work item and room in the queue is accepted: the
  operation returns a work item that was not in use, the item holds the normalised path, the operation
  and the arguments of the request, is not completed, and stands at the end of the queue; no other item
  changes, and the pool and the queue stay well formed.
\<close>

theorem request_is_enqueued:
  assumes "can_submit fc"
  shows "\<exists>a name fc' w'. issue cbs req (fc, w) = Some (Inr (a, (fc', w')))
    \<and> a \<noteq> nullptr \<and> fc_items fc a = None
    \<and> fc_items fc' = (fc_items fc)(a \<mapsto>
        request_item fc name req nullptr LFS_DO_NOT_FREE_BUFFER nullptr)
    \<and> name \<noteq> nullptr \<and> pending fc' = pending fc @ [a] \<and> items_inv fc'"
  using wp_issue [of "(fc, w)" cbs req] assms
  by (fastforce simp: wp_iff accepted_def submitted_def)

lemma request_is_enqueued_witness:
  "\<exists>a fc' w'. issue no_callbacks (WriteFile ''/a//b'' 40 3) (sample_context [] 2, ())
      = Some (Inr (a, (fc', w'))) \<and> pending fc' = [a]
    \<and> map_option wi_operation (fc_items fc' a) = Some LFS_OP_WRITE"
  using request_is_enqueued [OF sample_can_submit [of "[]"], of no_callbacks "WriteFile ''/a//b'' 40 3" "()"]
  by (fastforce simp: request_item_def prepared_item_def sample_context_def)

text \<open>
  The same for every request with a callback; the item also holds the callback, its argument and,
  for reads and writes, what is to be done with the buffer.
\<close>

theorem callback_request_is_enqueued:
  assumes "can_submit fc"
  shows "\<exists>a name fc' w'. issue_callback cbs req cb act ud (fc, w) = Some (Inr ((), (fc', w')))
    \<and> a \<noteq> nullptr \<and> fc_items fc a = None
    \<and> fc_items fc' = (fc_items fc)(a \<mapsto> request_item fc name req cb act ud)
    \<and> name \<noteq> nullptr \<and> pending fc' = pending fc @ [a] \<and> items_inv fc'"
  using wp_issue_callback [of "(fc, w)" cbs req cb act ud] assms
  by (fastforce simp: wp_iff accepted_def submitted_def)

lemma callback_request_is_enqueued_witness:
  "\<exists>a fc' w'. issue_callback no_callbacks (FileSize ''/x'') 48 LFS_FREE_BUFFER 56 (sample_context [] 2, ())
      = Some (Inr ((), (fc', w'))) \<and> pending fc' = [a]
    \<and> map_option wi_callbackBufferAction (fc_items fc' a) = Some LFS_DO_NOT_FREE_BUFFER"
  using callback_request_is_enqueued [OF sample_can_submit [of "[]"], of no_callbacks
      "FileSize ''/x''" 48 LFS_FREE_BUFFER 56 "()"]
  by (fastforce simp: request_item_def prepared_item_def sample_context_def)

text \<open>
  C35: with no free work item, a request without a callback changes nothing and gives the null work item,
  whose result reads \<^verbatim>\<open>LFS_OUT_OF_WORK_ITEMS\<close> and which counts as completed; a request with a callback
  reports the same code to the callback at once and pushes nothing.
\<close>

theorem exhausted_pool_is_reported:
  assumes "items_inv fc" "pl_free_slots (fc_workItemPool fc) = {}"
  shows "issue cbs req (fc, w) = Some (Inr (nullptr, (fc, w)))
    \<and> WorkItemGetResult None = LFS_OUT_OF_WORK_ITEMS \<and> WorkItemCompleted None
    \<and> (cb \<noteq> nullptr \<longrightarrow> issue_callback cbs req cb act ud (fc, w) = report_exhaustion cbs req cb act ud (fc, w))"
proof -
  have "issue cbs req (fc, w) = Some (Inr (nullptr, (fc, w)))"
    by (cases req) (simp_all add: submission_defs writeFile_def make_plain_write_def prog_simps
        allocWorkItemCommon_none [OF assms])
  moreover have "andThen (allocWorkItemCommon cbs path op cb ud act') (\<lambda>a. if a \<noteq> nullptr then k a else ret ()) (fc, w)
      = andThen (initWorkItem new_work_item path op cb ud act') (\<lambda>item.
        andThen (cbs cb (item\<lparr>wi_completed := True, wi_resultCode := LFS_OUT_OF_WORK_ITEMS\<rparr>) ud) (\<lambda>_.
        fc_deallocate (wi_filename item))) (fc, w)" if "cb \<noteq> nullptr" for path op act' k
  proof -
    let ?m = "andThen (initWorkItem new_work_item path op cb ud act') (\<lambda>item.
       andThen (cbs cb (item\<lparr>wi_completed := True, wi_resultCode := LFS_OUT_OF_WORK_ITEMS\<rparr>) ud) (\<lambda>_.
       andThen (fc_deallocate (wi_filename item)) (\<lambda>_.
       ret nullptr)))"
    have "allocWorkItemCommon cbs path op cb ud act' (fc, w) = ?m (fc, w)"
      using that by (simp add: allocWorkItemCommon_none [OF assms])
    then have "andThen (allocWorkItemCommon cbs path op cb ud act') (\<lambda>a. if a \<noteq> nullptr then k a else ret ()) (fc, w)
      = andThen ?m (\<lambda>a. if a \<noteq> nullptr then k a else ret ()) (fc, w)"
      by (simp add: andThen_def)
    then show ?thesis
      by (simp only: andThen_assoc andThen_ret_left andThen_ret_unit not_True_eq_False refl if_False)
  qed
  then have "cb \<noteq> nullptr \<longrightarrow>
      issue_callback cbs req cb act ud (fc, w) = report_exhaustion cbs req cb act ud (fc, w)"
    by (cases req) (simp_all add: submission_defs report_exhaustion_def)
  ultimately show ?thesis
    by (simp add: WorkItemGetResult_def WorkItemCompleted_def)
qed

lemma exhausted_pool_is_reported_witness:
  "issue no_callbacks (FileExists ''/x'') (sample_context [] 0, ())
    = Some (Inr (nullptr, (sample_context [] 0, ())))"
proof -
  have "pl_free_slots (fc_workItemPool (sample_context [] 0)) = {}" "items_inv (sample_context [] 0)"
    using sample_context_inv [of 0 "[]"] by simp_all
  from exhausted_pool_is_reported [OF this(2,1)] show ?thesis by blast
qed

end
