(* ===== verification/Processing.thy ===== *)
theory Processing
  imports Requests
begin

text \<open>
  The processing thread at work: what one step does to the state, that a run of the thread empties the
  queue in the order of submission, and that the invariants of the context hold in every state that
  clients, callbacks and the thread can reach.
\<close>

subsection \<open>What processing changes in an item\<close>

text \<open>Only the byte count, the buffer and the result of an item change; the request stays as it was.\<close>

definition same_request :: "'w lfs_work_item_t \<Rightarrow> 'w lfs_work_item_t \<Rightarrow> bool" where
  "same_request item item' \<longleftrightarrow>
     (\<exists>n b c. item' = item\<lparr>wi_bufferBytes := n, wi_buffer := b, wi_resultCode := c\<rparr>)"

lemma same_request_updates [simp]:
  "same_request item item"
  "same_request item (item\<lparr>wi_resultCode := c\<rparr>)"
  "same_request item (item\<lparr>wi_bufferBytes := n, wi_resultCode := c\<rparr>)"
  "same_request item (item\<lparr>wi_bufferBytes := n, wi_buffer := b, wi_resultCode := c\<rparr>)"
proof -
  have full: "same_request item (item\<lparr>wi_bufferBytes := n, wi_buffer := b, wi_resultCode := c\<rparr>)" for n b c
    unfolding same_request_def by blast
  from full [where n = n and b = b and c = c]
  show "same_request item (item\<lparr>wi_bufferBytes := n, wi_buffer := b, wi_resultCode := c\<rparr>)" .
  from full [where n = "wi_bufferBytes item" and b = "wi_buffer item" and c = "wi_resultCode item"]
  show "same_request item item" by simp
  from full [where n = "wi_bufferBytes item" and b = "wi_buffer item" and c = c]
  show "same_request item (item\<lparr>wi_resultCode := c\<rparr>)" by simp
  from full [where n = n and b = "wi_buffer item" and c = c]
  show "same_request item (item\<lparr>wi_bufferBytes := n, wi_resultCode := c\<rparr>)" by simp
qed

lemma same_request_fields:
  assumes "same_request item item'"
  shows "wi_callback item' = wi_callback item" "wi_callbackUserData item' = wi_callbackUserData item"
    "wi_callbackBufferAction item' = wi_callbackBufferAction item"
    "wi_filename item' = wi_filename item" "wi_allocator item' = wi_allocator item"
    "wi_operation item' = wi_operation item"
  using assms by (auto simp: same_request_def)

lemma wlp_case_prod [wp_simps]:
  "wlp (case p of (x, y) \<Rightarrow> f x y) Q s \<longleftrightarrow> (\<forall>x y. p = (x, y) \<longrightarrow> wlp (f x y) Q s)"
  by (cases p) simp

lemma process_item_same_request: "wlp (process_item mounts item) (\<lambda>item' w'. same_request item item') w"
  by (cases "wi_operation item")
    (auto simp: process_item_def process_exists_def process_size_def process_read_def
      process_write_def process_simple_def wlp_ret intro!: wlp_then_ret split: option.split)

subsection \<open>One item without a callback\<close>

text \<open>
  The state after an item is done: the item carries its answer, the rest of the context is as it was when
  the item was fetched.
\<close>

lemma processing_step_item:
  assumes inv: "items_inv fc" and run: "fc_processing fc" "fc_processingThread fc = AtLoop"
    and queue: "pending fc = a # rest"
    and item: "fc_items fc a = Some item" "wi_callback item = nullptr"
    and result: "process_item (fc_mounts fc) item w = Some (Inr (item', w'))"
  shows "\<exists>fc'. processing_step cbs (fc, w) = Some (Inr (Moved, (fc', w')))
    \<and> fc_items fc' = (fc_items fc)(a \<mapsto> item'\<lparr>wi_completed := True\<rparr>) \<and> pending fc' = rest
    \<and> fc_processing fc' \<and> fc_processingThread fc' = AtLoop \<and> fc_mounts fc' = fc_mounts fc
    \<and> fc_workItemQueueSemaphore fc' = fc_workItemQueueSemaphore fc \<and> items_inv fc'"
proof -
  have cb: "wi_callback item' = nullptr"
    using process_item_same_request [of "fc_mounts fc" item w] result item(2)
    by (auto simp: wlp_iff dest: same_request_fields)
  let ?Q = "\<lambda>r (fc', v). r = Moved \<and> v = w'
    \<and> fc_items fc' = (fc_items fc)(a \<mapsto> item'\<lparr>wi_completed := True\<rparr>) \<and> pending fc' = rest
    \<and> fc_processing fc' \<and> fc_processingThread fc' = AtLoop \<and> fc_mounts fc' = fc_mounts fc
    \<and> fc_workItemQueueSemaphore fc' = fc_workItemQueueSemaphore fc \<and> items_inv fc'"
  have a: "a \<noteq> nullptr" using items_inv_not_null [OF inv item(1)] .
  have "wp (on_queue (rb_pop nullptr)) (\<lambda>x. wp
      (if x \<noteq> nullptr then andThen (set_thread InItem) (\<lambda>_. andThen (process_work_item cbs x)
         (\<lambda>_. andThen (set_thread AtLoop) (\<lambda>_. ret Moved)))
       else andThen (set_thread InWait) (\<lambda>_. ret Moved)) ?Q) (fc, w)"
  proof (rule wp_pop)
    show "items_inv (fst (fc, w))" using inv by simp
    fix x fc1
    assume "popped (fst (fc, w)) x fc1"
    then obtain q where x: "x = a" and fc1: "fc1 = fc\<lparr>fc_workItemQueue := q\<rparr>"
      and p: "pending fc1 = rest" and inv1: "items_inv fc1"
      using queue by (auto simp: popped_def)
    let ?fc2 = "fc1\<lparr>fc_processingThread := InItem\<rparr>"
    have i1: "fc_items fc1 a = Some item" using item(1) by (simp add: fc1)
    have "wp (process_work_item cbs a) (\<lambda>_ t. t = (?fc2\<lparr>fc_items := (fc_items fc)(a \<mapsto> item'\<lparr>wi_completed := True\<rparr>)\<rparr>, w'))
        (?fc2, w)"
      using item(1) result cb
      by (simp add: process_work_item_def run_callback_def wp_simps fc1 wp_def [of "process_item _ _"])
    moreover have "items_inv (fc1\<lparr>fc_items := (fc_items fc1)(a \<mapsto> item'\<lparr>wi_completed := True\<rparr>)\<rparr>)"
      using items_inv_update [of fc1 a item, OF i1] inv1 by simp
    then have "items_inv (?fc2\<lparr>fc_items := (fc_items fc)(a \<mapsto> item'\<lparr>wi_completed := True\<rparr>)\<rparr>)"
      by (auto simp: fc1 items_inv_def)
    ultimately show "wp (if x \<noteq> nullptr then andThen (set_thread InItem) (\<lambda>_. andThen (process_work_item cbs x)
         (\<lambda>_. andThen (set_thread AtLoop) (\<lambda>_. ret Moved)))
       else andThen (set_thread InWait) (\<lambda>_. ret Moved)) ?Q (fc1, snd (fc, w))"
      using a p run(1) unfolding x set_thread_def wp_simps
      by (auto simp: fc1 elim!: wp_mono)
  qed
  then have "wp (processing_step cbs) ?Q (fc, w)"
    using run by (simp add: processing_step_def wp_fc_get wp_andThen)
  then show ?thesis by (auto simp: wp_iff)
qed

subsection \<open>A run of the thread\<close>

lemma processingFunc_Moved:
  "processing_step cbs s = Some (Inr (Moved, s')) \<Longrightarrow> processingFunc cbs s = processingFunc cbs s'"
  by (simp add: processingFunc.simps [of cbs s] andThen_def)

lemma processingFunc_halt:
  "processing_step cbs s = Some (Inr (r, s')) \<Longrightarrow> r \<noteq> Moved \<Longrightarrow> processingFunc cbs s = Some (Inr (r, s'))"
  by (simp add: processingFunc.simps [of cbs s] andThen_def)

lemma processing_step_empty:
  assumes "items_inv fc" "fc_processing fc" "fc_processingThread fc = AtLoop" "pending fc = []"
  shows "processing_step cbs (fc, w) = Some (Inr (Moved, (fc\<lparr>fc_processingThread := InWait\<rparr>, w)))"
proof -
  have "rb_pop nullptr (fc_workItemQueue fc) = Some (Inr (nullptr, fc_workItemQueue fc))"
    using items_inv_queue [OF assms(1)] assms(4) by (rule rb_pop_empty)
  then have "on_queue (rb_pop nullptr) (fc, w) = Some (Inr (nullptr, (fc, w)))"
    by (simp add: on_queue_def)
  with assms(2,3) show ?thesis
    by (simp add: processing_step_def fc_get_def fc_set_def set_thread_def prog_simps)
qed

lemma processing_step_wait:
  assumes "fc_processingThread fc = InWait"
  shows "processing_step cbs (fc, w) =
    (case sem_wait (fc_workItemQueueSemaphore fc) of
       None \<Rightarrow> Some (Inr (Blocked, (fc, w)))
     | Some sem \<Rightarrow> Some (Inr (Moved, (fc\<lparr>fc_workItemQueueSemaphore := sem,
         fc_processingThread := AtLoop\<rparr>, w))))"
  using assms by (simp add: processing_step_def fc_get_def fc_set_def prog_simps split: option.split)

text \<open>With an empty queue the thread uses up the notifications that are left, and waits.\<close>

lemma processingFunc_idle:
  assumes "items_inv fc" "fc_processing fc" "fc_processingThread fc = AtLoop" "pending fc = []"
  shows "processingFunc cbs (fc, w) = Some (Inr (Blocked,
    (fc\<lparr>fc_processingThread := InWait, fc_workItemQueueSemaphore := sem_new 0\<rparr>, w)))"
  using assms
proof (induction "unat (sem_value (fc_workItemQueueSemaphore fc))" arbitrary: fc)
  case 0
  let ?fc = "fc\<lparr>fc_processingThread := InWait\<rparr>"
  have v: "sem_value (fc_workItemQueueSemaphore fc) = 0" using 0(1) by (simp add: unat_eq_0)
  then have "fc_workItemQueueSemaphore fc = sem_new 0" by (simp add: sem_new_def)
  moreover have "processing_step cbs (?fc, w) = Some (Inr (Blocked, (?fc, w)))"
    using v by (simp add: processing_step_wait sem_wait_def)
  ultimately show ?case
    using processingFunc_Moved [OF processing_step_empty [OF 0(2-5)]]
      processingFunc_halt [of cbs "(?fc, w)" Blocked "(?fc, w)"]
    by simp
next
  case (Suc n)
  let ?sem = "(fc_workItemQueueSemaphore fc)\<lparr>sem_value := sem_value (fc_workItemQueueSemaphore fc) - 1\<rparr>"
  let ?fc = "fc\<lparr>fc_processingThread := InWait\<rparr>"
  let ?fc' = "fc\<lparr>fc_workItemQueueSemaphore := ?sem\<rparr>"
  have v: "sem_value (fc_workItemQueueSemaphore fc) \<noteq> 0" using Suc.hyps(2) by auto
  then have step: "processing_step cbs (?fc, w) = Some (Inr (Moved, (?fc', w)))"
    using Suc.prems(3) by (simp add: processing_step_wait sem_wait_def)
  have "unat (sem_value ?sem) = n"
    using Suc.hyps(2) v by (simp add: unat_minus_one)
  then have "processingFunc cbs (?fc', w) = Some (Inr (Blocked,
      (?fc'\<lparr>fc_processingThread := InWait, fc_workItemQueueSemaphore := sem_new 0\<rparr>, w)))"
    using Suc.hyps(1) [of ?fc'] Suc.prems by simp
  then show ?case
    using processingFunc_Moved [OF processing_step_empty [OF Suc.prems]] processingFunc_Moved [OF step]
    by simp
qed

text \<open>The items of the queue, processed one after the other.\<close>

fun process_all :: "('d, 'w) mount_info list \<Rightarrow> 'w lfs_work_item_t list
    \<Rightarrow> ('w lfs_work_item_t list, 'w) prog" where
  "process_all mounts [] = ret []"
| "process_all mounts (item # items) =
     andThen (process_item mounts item) (\<lambda>item'.
     andThen (process_all mounts items) (\<lambda>items'. ret (item' # items')))"

definition completed :: "'w lfs_work_item_t \<Rightarrow> 'w lfs_work_item_t" where
  "completed item = item\<lparr>wi_completed := True\<rparr>"

lemma map_updates_first:
  "a \<notin> set as \<Longrightarrow> length as = length vs \<Longrightarrow> (m(a \<mapsto> v))(as [\<mapsto>] vs) = m(a # as [\<mapsto>] v # vs)"
  by simp

lemma processingFunc_drains:
  assumes "items_inv fc" "fc_processing fc" "fc_processingThread fc = AtLoop"
    and "\<forall>a \<in> set (pending fc). wi_callback (the (fc_items fc a)) = nullptr"
    and "process_all (fc_mounts fc) (map (\<lambda>a. the (fc_items fc a)) (pending fc)) w = Some (Inr (results, w'))"
  shows "\<exists>fc'. processingFunc cbs (fc, w) = Some (Inr (Blocked, (fc', w')))
    \<and> fc_items fc' = (fc_items fc)(pending fc [\<mapsto>] map completed results) \<and> pending fc' = []
    \<and> fc_processingThread fc' = InWait \<and> fc_workItemQueueSemaphore fc' = sem_new 0
    \<and> fc_processing fc' \<and> fc_mounts fc' = fc_mounts fc \<and> items_inv fc'"
  using assms
proof (induction "pending fc" arbitrary: fc w results)
  case Nil
  then have "results = []" "w' = w" by (simp_all add: prog_simps)
  with Nil processingFunc_idle [of fc cbs w] show ?case by (simp flip: Nil(1))
next
  case (Cons a rest)
  have pend: "pending fc = a # rest" using Cons.hyps(2) by simp
  have "a \<in> dom (fc_items fc)" using Cons.prems(1) pend by (auto simp: items_inv_def)
  then obtain item where item: "fc_items fc a = Some item" by blast
  have dist: "a \<notin> set rest" using Cons.prems(1) pend by (simp add: items_inv_def)
  from Cons.prems(5) obtain item' w1 results' where
    r1: "process_item (fc_mounts fc) item w = Some (Inr (item', w1))"
    and r2: "process_all (fc_mounts fc) (map (\<lambda>a. the (fc_items fc a)) rest) w1 = Some (Inr (results', w'))"
    and res: "results = item' # results'"
    unfolding pend by (auto simp: item prog_simps dest!: andThen_returnD)
  have cb: "wi_callback item = nullptr" using Cons.prems(4) pend item by simp
  from processing_step_item [OF Cons.prems(1-3) pend item cb r1, of cbs] obtain fc1 where
    step: "processing_step cbs (fc, w) = Some (Inr (Moved, (fc1, w1)))"
    and i1: "fc_items fc1 = (fc_items fc)(a \<mapsto> completed item')" and p1: "pending fc1 = rest"
    and s1: "fc_processing fc1" "fc_processingThread fc1 = AtLoop" "items_inv fc1"
      "fc_mounts fc1 = fc_mounts fc"
    by (auto simp: completed_def)
  have same: "map (\<lambda>a. the (fc_items fc1 a)) rest = map (\<lambda>a. the (fc_items fc a)) rest"
    using dist by (auto simp: i1)
  have "\<forall>b \<in> set (pending fc1). wi_callback (the (fc_items fc1 b)) = nullptr"
    using Cons.prems(4) pend dist by (auto simp: p1 i1)
  from Cons.hyps(1) [of fc1 w1 results', OF p1 [symmetric] s1(3,1,2) this] r2 obtain fc' where
    "processingFunc cbs (fc1, w1) = Some (Inr (Blocked, (fc', w')))"
    "fc_items fc' = (fc_items fc1)(pending fc1 [\<mapsto>] map completed results')"
    "pending fc' = []" "fc_processingThread fc' = InWait" "fc_workItemQueueSemaphore fc' = sem_new 0"
    "fc_processing fc'" "fc_mounts fc' = fc_mounts fc1" "items_inv fc'"
    unfolding s1(4) p1 same by blast
  with processingFunc_Moved [OF step] show ?case
    by (intro exI [of _ fc']) (simp add: i1 p1 pend res s1(4))
qed

subsection \<open>The invariant of the context\<close>

text \<open>
  Well-formed items, a thread that is not left waiting while there is work, and no item in the queue
  that is already marked as completed.
\<close>

definition ctx_inv :: "('d, 'w) file_context \<Rightarrow> bool" where
  "ctx_inv fc \<longleftrightarrow>
     items_inv fc \<and> thread_inv fc
     \<and> (\<forall>a \<in> set (pending fc). \<forall>item. fc_items fc a = Some item \<longrightarrow> \<not> wi_completed item)"

text \<open>
  What is asked of callbacks: they use the context through its operations, so they keep the invariant; and
  they leave the items that are in use with a callback outside the queue, one of which is their own.
  Called from the processing thread, they leave it where it is.
\<close>

definition polite :: "('d, 'w) callbacks \<Rightarrow> bool" where
  "polite cbs \<longleftrightarrow> (\<forall>f item u s. ctx_inv (fst s) \<longrightarrow>
     wlp (cbs f item u) (\<lambda>_ t. ctx_inv (fst t)
       \<and> fc_processingThread (fst t) = fc_processingThread (fst s)
       \<and> (\<forall>a i. fc_items (fst s) a = Some i \<and> wi_callback i \<noteq> nullptr \<and> a \<notin> set (pending (fst s)) \<longrightarrow>
            fc_items (fst t) a = Some i \<and> a \<notin> set (pending (fst t)))) s)"

lemma ctx_inv_items: "ctx_inv fc \<Longrightarrow> items_inv fc"
  by (simp add: ctx_inv_def)

lemma submitted_ctx_inv:
  assumes inv: "ctx_inv fc" and sub: "submitted fc a item fc'" and new: "\<not> wi_completed item"
    and sem: "sem_value (fc_workItemQueueSemaphore fc) \<noteq> - 1"
  shows "ctx_inv fc'"
proof -
  have "sem_value (fc_workItemQueueSemaphore fc) + 1 \<noteq> 0"
    using sem by (simp add: eq_neg_iff_add_eq_0)
  then have "thread_inv fc'"
    using inv sub by (auto simp: ctx_inv_def thread_inv_def submitted_def sem_notify_def split: if_splits)
  moreover have "a \<notin> set (pending fc)"
    using inv sub by (auto simp: ctx_inv_def items_inv_def submitted_def)
  ultimately show ?thesis
    using inv sub new by (auto simp: ctx_inv_def submitted_def)
qed

lemma wlp_push_ctx:
  assumes "ctx_inv fc" "took fc a item fc1" "\<not> wi_completed item"
    and "sem_value (fc_workItemQueueSemaphore fc) \<noteq> - 1"
    and "\<And>fc'. submitted fc a item fc' \<Longrightarrow> ctx_inv fc' \<Longrightarrow> Q () (fc', w)"
  shows "wlp (push_work_item a) Q (fc1, w)"
proof (rule wlp_push_work_item)
  note t = took_fields [OF assms(2)] and inv = ctx_inv_items [OF assms(1)]
  show "items_inv (fst (fc1, w))" using assms(2) by (simp add: took_def)
  show "fc_items (fst (fc1, w)) a = Some item" by (simp add: t)
  show "a \<notin> set (pending (fst (fc1, w)))" using took_not_pending [OF inv assms(2)] by simp
  show "Q () (fc', snd (fc1, w))" if "pushed (fst (fc1, w)) a fc'" for fc'
  proof -
    have "submitted fc a item fc'" using took_pushed_submitted [OF inv assms(2)] that by simp
    with assms(5) submitted_ctx_inv [OF assms(1) this assms(3,4)] show ?thesis by simp
  qed
qed

lemma wlp_update_push_ctx:
  assumes "ctx_inv fc" "took fc a item fc1" "\<not> wi_completed (f item)"
    and "sem_value (fc_workItemQueueSemaphore fc) \<noteq> - 1"
    and "\<And>fc'. submitted fc a (f item) fc' \<Longrightarrow> ctx_inv fc' \<Longrightarrow> Q () (fc', w)"
  shows "wlp (update_item a f) (\<lambda>_. wlp (push_work_item a) Q) (fc1, w)"
proof -
  have i: "fc_items fc1 = (fc_items fc)(a \<mapsto> item)" by (rule took_fields(1) [OF assms(2)])
  with wlp_push_ctx [OF assms(1) took_update [OF assms(2)] assms(3,4), of Q w] assms(5)
  show ?thesis unfolding wlp_update_item by simp
qed

text \<open>The preparation of an item, with its two outcomes.\<close>

lemma wlp_allocWorkItemCommon:
  fixes s :: "('d, 'w) ctx"
  assumes inv: "ctx_inv (fst s)" and cbs: "polite cbs"
    and taken: "\<And>a name fc' w. a \<noteq> nullptr \<Longrightarrow>
      took (fst s) a (prepared_item (fc_self (fst s)) name path op cb ud act) fc' \<Longrightarrow> Q a (fc', w)"
    and none: "\<And>t. ctx_inv (fst t) \<Longrightarrow> Q nullptr t"
  shows "wlp (allocWorkItemCommon cbs path op cb ud act) Q s"
  unfolding allocWorkItemCommon_def wlp_andThen wlp_if
proof (rule wp_wlp, rule wp_workItemPool_alloc [OF ctx_inv_items [OF inv]], goal_cases)
  case (1 a fc')
  show ?case
  proof (cases "a = nullptr")
    case True
    with 1 have fc': "fc' = fst s" by (auto simp: pool_took_def split: if_splits)
    have "wlp (initWorkItem new_work_item path op cb ud act) (\<lambda>x. wlp
        (let errorItem = x\<lparr>wi_completed := True, wi_resultCode := LFS_OUT_OF_WORK_ITEMS\<rparr>
         in andThen (cbs cb errorItem ud) (\<lambda>_. andThen (fc_deallocate (wi_filename errorItem)) (\<lambda>_. ret a))) Q)
        (fc', snd s)"
    proof (rule wlp_initWorkItem)
      fix item' :: "'w lfs_work_item_t" and w :: 'w
      let ?e = "item'\<lparr>wi_completed := True, wi_resultCode := LFS_OUT_OF_WORK_ITEMS\<rparr>"
      have "wlp (cbs cb ?e ud) (\<lambda>_ t. ctx_inv (fst t)) (fst (fc', snd s), w)"
        using cbs inv unfolding polite_def fc' by (fastforce elim!: wlp_mono)
      then show "wlp (let errorItem = ?e
         in andThen (cbs cb errorItem ud) (\<lambda>_. andThen (fc_deallocate (wi_filename errorItem)) (\<lambda>_. ret a))) Q
         (fst (fc', snd s), w)"
        unfolding Let_def wlp_andThen
        by (rule wlp_mono, intro wlp_fc_deallocate) (simp add: wlp_ret True none)
    qed
    with True none [of "(fc', snd s)"] inv show ?thesis by (simp add: fc' wlp_ret)
  next
    case False
    note t = pool_took_took [OF 1 False] and f = took_fields [OF pool_took_took [OF 1 False]]
    have "wlp (initWorkItem new_work_item path op cb ud act)
        (\<lambda>item'. wlp (update_item a (\<lambda>_. item')) (\<lambda>_. wlp (ret a) Q)) (fc', snd s)"
      unfolding initWorkItem_def wlp_andThen
    proof (rule wlp_fc_allocate, goal_cases)
      case (1 name w)
      have item: "new_work_item\<lparr>wi_operation := op, wi_filename := name, wi_filenameText := normalize path,
          wi_callback := cb, wi_callbackUserData := ud, wi_callbackBufferAction := act,
          wi_completed := False, wi_context := fc_self (fst s)\<rparr>
        = prepared_item (fc_self (fst s)) name path op cb ud act"
        by (simp add: prepared_item_def new_work_item_def)
      show ?case
        using taken [OF False took_update [OF t]] f(1,8)
        by (simp add: wp_simps item)
    qed
    with False f(1) show ?thesis unfolding wp_simps by simp
  qed
qed

subsection \<open>Every operation keeps the invariant\<close>

lemma wlp_item_allocator [wp_simps]:
  "wlp (item_allocator al) Q s \<longleftrightarrow> Q (case_option (fc_alloc (fst s)) id al) s"
  by (simp add: item_allocator_def wp_simps split: option.split)

text \<open>The three shapes of a submission, now without the assumption that it succeeds.\<close>

definition may_submit :: "('d, 'w) callbacks \<Rightarrow> ('d, 'w) file_context \<Rightarrow> bool" where
  "may_submit cbs fc \<longleftrightarrow>
     ctx_inv fc \<and> polite cbs \<and> sem_value (fc_workItemQueueSemaphore fc) \<noteq> - 1"

lemma prepared_not_completed: "\<not> wi_completed (prepared_item this name path op cb ud act)"
  by (simp add: prepared_item_def new_work_item_def)

lemma wlp_submit_plain:
  assumes "may_submit cbs (fst s)"
  shows "wlp (andThen (allocWorkItemCommon cbs path op cb ud act)
    (\<lambda>a. if a \<noteq> nullptr then andThen (push_work_item a) (\<lambda>_. ret (g a)) else ret (h a)))
    (\<lambda>_ t. ctx_inv (fst t)) s"
  unfolding wlp_andThen wlp_if
proof (rule wlp_allocWorkItemCommon)
  show "ctx_inv (fst s)" "polite cbs" using assms by (simp_all add: may_submit_def)
next
  fix a name fc1 w
  assume "a \<noteq> nullptr" "took (fst s) a (prepared_item (fc_self (fst s)) name path op cb ud act) fc1"
  with assms show "if a \<noteq> nullptr then wlp (push_work_item a) (\<lambda>x. wlp (ret (g a)) (\<lambda>_ t. ctx_inv (fst t))) (fc1, w)
      else wlp (ret (h a)) (\<lambda>_ t. ctx_inv (fst t)) (fc1, w)"
    by (auto simp: may_submit_def wlp_ret prepared_not_completed intro!: wlp_push_ctx)
qed (simp add: wlp_ret)

lemma wlp_submit_fields:
  assumes "may_submit cbs (fst s)" and "\<And>item. wi_completed (f item) = wi_completed item"
  shows "wlp (andThen (allocWorkItemCommon cbs path op cb ud act)
    (\<lambda>a. if a \<noteq> nullptr then andThen (update_item a f) (\<lambda>_. andThen (push_work_item a) (\<lambda>_. ret (g a)))
      else ret (h a))) (\<lambda>_ t. ctx_inv (fst t)) s"
  unfolding wlp_andThen wlp_if
proof (rule wlp_allocWorkItemCommon)
  show "ctx_inv (fst s)" "polite cbs" using assms by (simp_all add: may_submit_def)
next
  fix a name fc1 w
  assume "a \<noteq> nullptr" "took (fst s) a (prepared_item (fc_self (fst s)) name path op cb ud act) fc1"
  with assms show "if a \<noteq> nullptr then wlp (update_item a f)
        (\<lambda>_. wlp (push_work_item a) (\<lambda>x. wlp (ret (g a)) (\<lambda>_ t. ctx_inv (fst t)))) (fc1, w)
      else wlp (ret (h a)) (\<lambda>_ t. ctx_inv (fst t)) (fc1, w)"
    by (auto simp: may_submit_def wlp_ret prepared_not_completed intro!: wlp_update_push_ctx)
qed (simp add: wlp_ret)

lemma wlp_submit_read:
  assumes "may_submit cbs (fst s)" and "\<And>al item. wi_completed (f al item) = wi_completed item"
  shows "wlp (andThen (allocWorkItemCommon cbs path op cb ud act)
    (\<lambda>a. if a \<noteq> nullptr then andThen (item_allocator al) (\<lambda>al'. andThen (update_item a (f al'))
        (\<lambda>_. andThen (push_work_item a) (\<lambda>_. ret (g a)))) else ret (h a))) (\<lambda>_ t. ctx_inv (fst t)) s"
  unfolding wlp_andThen wlp_if wlp_item_allocator
proof (rule wlp_allocWorkItemCommon)
  show "ctx_inv (fst s)" "polite cbs" using assms by (simp_all add: may_submit_def)
next
  fix a name fc1 w
  assume "a \<noteq> nullptr" "took (fst s) a (prepared_item (fc_self (fst s)) name path op cb ud act) fc1"
  with assms show "if a \<noteq> nullptr then wlp (update_item a (f (case_option (fc_alloc (fst (fc1, w))) id al)))
        (\<lambda>_. wlp (push_work_item a) (\<lambda>x. wlp (ret (g a)) (\<lambda>_ t. ctx_inv (fst t)))) (fc1, w)
      else wlp (ret (h a)) (\<lambda>_ t. ctx_inv (fst t)) (fc1, w)"
    by (auto simp: may_submit_def wlp_ret prepared_not_completed intro!: wlp_update_push_ctx)
qed (simp add: wlp_ret)

lemmas wlp_submits = wlp_submit_plain wlp_submit_fields wlp_submit_read

text \<open>The change of operation at the end of a plain write.\<close>

lemma ctx_inv_update:
  assumes "ctx_inv fc" "fc_items fc a = Some item" "wi_completed item' = wi_completed item"
  shows "ctx_inv (fc\<lparr>fc_items := (fc_items fc)(a \<mapsto> item')\<rparr>)"
proof -
  have "items_inv (fc\<lparr>fc_items := (fc_items fc)(a \<mapsto> item')\<rparr>)"
    using assms(1,2) by (simp add: ctx_inv_def)
  with assms show ?thesis by (auto simp: ctx_inv_def thread_inv_def)
qed

lemma wlp_make_plain_write:
  "ctx_inv (fst s) \<Longrightarrow> wlp (make_plain_write a) (\<lambda>_ t. ctx_inv (fst t)) s"
  by (auto simp: make_plain_write_def wp_simps intro!: ctx_inv_update)

lemma wlp_issue:
  assumes "may_submit cbs (fst s)"
  shows "wlp (issue cbs req) (\<lambda>_ t. ctx_inv (fst t)) s"
proof (cases req)
  case (WriteFile path buffer n)
  have seg: "wlp (writeFileSegment cbs path 0 buffer n) (\<lambda>_ t. ctx_inv (fst t)) s"
    unfolding submission_defs by (rule wlp_submits [OF assms]) simp_all
  show ?thesis
    unfolding WriteFile issue.simps writeFile_def wlp_andThen wlp_ret
    by (rule wlp_mono [OF seg]) (rule wlp_make_plain_write)
qed (simp only: issue.simps submission_defs; rule wlp_submits [OF assms]; simp)+

lemma wlp_issue_callback:
  assumes "may_submit cbs (fst s)"
  shows "wlp (issue_callback cbs req cb act ud) (\<lambda>_ t. ctx_inv (fst t)) s"
  by (cases req; simp only: issue_callback.simps submission_defs; rule wlp_submits [OF assms]; simp)

text \<open>The release of a completed item.\<close>

lemma ctx_inv_free:
  assumes "ctx_inv fc" "fc_items fc a = Some item" "a \<notin> set (pending fc)"
  shows "ctx_inv (fc\<lparr>fc_workItemPool := pl_free a (fc_workItemPool fc), fc_items := (fc_items fc)(a := None)\<rparr>)"
  using assms items_inv_free [of fc a item] by (auto simp: ctx_inv_def thread_inv_def)

lemma wlp_releaseWorkItemInternal:
  assumes "ctx_inv (fst s)" "a \<notin> set (pending (fst s))"
  shows "wlp (releaseWorkItemInternal a) (\<lambda>_ t. ctx_inv (fst t)) s"
  unfolding releaseWorkItemInternal_def workItemPool_free_def wp_simps
  using assms by (auto intro!: wlp_fc_deallocate ctx_inv_free simp: wp_simps)

lemma wlp_releaseWorkItem:
  assumes "ctx_inv (fst s)" "\<And>item. fc_items (fst s) a = Some item \<Longrightarrow> wi_completed item"
  shows "wlp (releaseWorkItem a) (\<lambda>_ t. ctx_inv (fst t)) s"
proof (cases "fc_items (fst s) a")
  case None
  then show ?thesis using assms(1) by (simp add: releaseWorkItem_def wp_simps)
next
  case (Some item)
  with assms have "a \<notin> set (pending (fst s))" by (auto simp: ctx_inv_def)
  with assms(1) show ?thesis
    by (auto simp: releaseWorkItem_def wp_simps intro: wlp_releaseWorkItemInternal)
qed

lemma ctx_inv_update_idle:
  assumes "ctx_inv fc" "fc_items fc a = Some item" "a \<notin> set (pending fc)"
  shows "ctx_inv (fc\<lparr>fc_items := (fc_items fc)(a \<mapsto> item')\<rparr>)"
proof -
  have "items_inv (fc\<lparr>fc_items := (fc_items fc)(a \<mapsto> item')\<rparr>)"
    using assms(1,2) by (simp add: ctx_inv_def)
  with assms show ?thesis by (auto simp: ctx_inv_def thread_inv_def)
qed

text \<open>
  The end of an item on the processing thread. \<open>busy a t\<close> is the thread's view while it works on an item:
  the item is in use, not in the queue, and the thread is where it is.
\<close>

definition busy :: "addr \<Rightarrow> ('d, 'w) file_context \<Rightarrow> bool" where
  "busy a fc \<longleftrightarrow> ctx_inv fc \<and> fc_processingThread fc = InItem \<and> a \<notin> set (pending fc)"

lemma wlp_releaseWorkItemInternal_busy:
  assumes "busy a (fst s)"
  shows "wlp (releaseWorkItemInternal a) (\<lambda>_ t. ctx_inv (fst t) \<and> fc_processingThread (fst t) = InItem) s"
  unfolding releaseWorkItemInternal_def workItemPool_free_def wp_simps
  using assms by (auto simp: busy_def wp_simps intro!: wlp_fc_deallocate ctx_inv_free)

lemma wlp_run_callback:
  assumes "polite cbs" "busy a (fst s)"
  shows "wlp (run_callback cbs a) (\<lambda>_ t. ctx_inv (fst t) \<and> fc_processingThread (fst t) = InItem) s"
proof -
  let ?Q = "\<lambda>_ t. ctx_inv (fst t) \<and> fc_processingThread (fst t) = InItem"
  have rest: "wlp (andThen (item_at a) (\<lambda>item'. andThen
         (if wi_callbackBufferAction item' = LFS_FREE_BUFFER then
            andThen (on_snd (WorkItemFreeBuffer (Some item'))) (\<lambda>freed. update_item a (\<lambda>_. the freed))
          else ret ()) (\<lambda>_. releaseWorkItemInternal a))) ?Q t" if "busy a (fst t)" for t
    using that
    by (auto simp: wp_simps busy_def intro!: wlp_any wlp_releaseWorkItemInternal_busy ctx_inv_update_idle)
  show ?thesis
    unfolding run_callback_def
  proof (rule wlp_seq, unfold wlp_item_at, intro allI impI)
    fix item
    assume item: "fc_items (fst s) a = Some item"
    have "wlp (cbs (wi_callback item) item (wi_callbackUserData item)) (\<lambda>_ t. busy a (fst t)) s"
      if "wi_callback item \<noteq> nullptr"
      by (rule wlp_mono [OF assms(1) [unfolded polite_def, rule_format]])
        (use assms(2) item that in \<open>auto simp: busy_def\<close>)
    then show "wlp (if wi_callback item \<noteq> nullptr
        then andThen (cbs (wi_callback item) item (wi_callbackUserData item)) (\<lambda>_.
          andThen (item_at a) (\<lambda>item'. andThen
         (if wi_callbackBufferAction item' = LFS_FREE_BUFFER then
            andThen (on_snd (WorkItemFreeBuffer (Some item'))) (\<lambda>freed. update_item a (\<lambda>_. the freed))
          else ret ()) (\<lambda>_. releaseWorkItemInternal a)))
        else ret ()) ?Q s"
      using assms(2) by (auto simp: wlp_ret busy_def intro!: wlp_seq [OF wlp_mono] rest)
  qed
qed

lemma wlp_process_work_item:
  assumes "polite cbs" "busy a (fst s)"
  shows "wlp (process_work_item cbs a) (\<lambda>_ t. ctx_inv (fst t) \<and> fc_processingThread (fst t) = InItem) s"
  unfolding process_work_item_def wp_simps
proof (intro allI impI, goal_cases)
  case (1 item)
  show ?case
    by (rule wlp_any, intro allI impI, rule wlp_run_callback [OF assms(1)])
      (use assms(2) 1 in \<open>auto simp: busy_def intro: ctx_inv_update_idle\<close>)
qed

text \<open>A change of the resting point of the thread.\<close>

lemma ctx_inv_thread:
  assumes "ctx_inv fc" "fc_processing fc \<longleftrightarrow> t \<noteq> NotStarted"
    and "t = InWait \<Longrightarrow> pending fc \<noteq> [] \<Longrightarrow> sem_value (fc_workItemQueueSemaphore fc) \<noteq> 0"
  shows "ctx_inv (fc\<lparr>fc_processingThread := t\<rparr>)"
  using assms by (auto simp: ctx_inv_def thread_inv_def)

lemma ctx_inv_InItem: "ctx_inv fc \<Longrightarrow> fc_processingThread fc = InItem \<Longrightarrow> fc_processing fc"
  by (simp add: ctx_inv_def thread_inv_def)

lemma popped_ctx_inv:
  assumes "ctx_inv fc" "popped fc a fc'" "fc_processingThread fc = AtLoop"
  shows "ctx_inv fc' \<and> a \<notin> set (pending fc') \<and> fc_processing fc' = fc_processing fc
    \<and> fc_processingThread fc' = AtLoop \<and> (a = nullptr \<longrightarrow> pending fc' = [])"
proof (cases "pending fc")
  case Nil
  with assms show ?thesis by (simp add: popped_def)
next
  case (Cons b rest)
  with assms(2) obtain q where q: "a = b" "fc' = fc\<lparr>fc_workItemQueue := q\<rparr>" "pending fc' = rest" "items_inv fc'"
    by (auto simp: popped_def)
  have "b \<in> dom (fc_items fc)" "b \<notin> set rest"
    using assms(1) Cons by (auto simp: ctx_inv_def items_inv_def)
  moreover from this have "b \<noteq> nullptr"
    using items_inv_not_null assms(1) by (auto simp: ctx_inv_def)
  ultimately show ?thesis
    using assms(1,3) q Cons by (auto simp: ctx_inv_def thread_inv_def)
qed

lemma wlp_processing_step:
  assumes "ctx_inv (fst s)" "polite cbs"
  shows "wlp (processing_step cbs) (\<lambda>_ t. ctx_inv (fst t)) s"
proof (cases "fc_processingThread (fst s)")
  case AtLoop
  then have proc: "fc_processing (fst s)" using assms(1) by (simp add: ctx_inv_def thread_inv_def)
  let ?Q = "\<lambda>_ t. ctx_inv (fst t)"
  have "wlp (on_queue (rb_pop nullptr)) (\<lambda>x. wlp
      (if x \<noteq> nullptr then andThen (set_thread InItem) (\<lambda>_. andThen (process_work_item cbs x)
         (\<lambda>_. andThen (set_thread AtLoop) (\<lambda>_. ret Moved)))
       else andThen (set_thread InWait) (\<lambda>_. ret Moved)) ?Q) s"
  proof (rule wp_wlp, rule wp_pop [OF ctx_inv_items [OF assms(1)]])
    fix a fc'
    assume "popped (fst s) a fc'"
    note p = popped_ctx_inv [OF assms(1) this AtLoop]
    have "wlp (process_work_item cbs a) (\<lambda>_ t. ctx_inv (fst t) \<and> fc_processingThread (fst t) = InItem)
        (fc'\<lparr>fc_processingThread := InItem\<rparr>, snd s)"
      by (rule wlp_process_work_item [OF assms(2)]) (use p proc in \<open>auto simp: busy_def intro!: ctx_inv_thread\<close>)
    then show "wlp (if a \<noteq> nullptr then andThen (set_thread InItem) (\<lambda>_. andThen (process_work_item cbs a)
         (\<lambda>_. andThen (set_thread AtLoop) (\<lambda>_. ret Moved)))
       else andThen (set_thread InWait) (\<lambda>_. ret Moved)) ?Q (fc', snd s)"
      using p proc unfolding set_thread_def wp_simps
      by (auto elim!: wlp_mono intro!: ctx_inv_thread intro: ctx_inv_InItem)
  qed
  then show ?thesis using AtLoop proc by (simp add: processing_step_def wlp_fc_get wlp_andThen)
next
  case InWait
  with assms show ?thesis
    by (auto simp: processing_step_def wp_simps sem_wait_def ctx_inv_def thread_inv_def items_inv_def
        split: option.split)
qed (use assms in \<open>simp_all add: processing_step_def wp_simps\<close>)

lemma processingFunc_empties:
  assumes "ctx_inv fc" "fc_processing fc" "fc_processingThread fc \<noteq> InItem"
    and "\<forall>a \<in> set (pending fc). wi_callback (the (fc_items fc a)) = nullptr"
    and "process_all (fc_mounts fc) (map (\<lambda>a. the (fc_items fc a)) (pending fc)) w = Some (Inr (results, w'))"
  shows "\<exists>fc'. processingFunc cbs (fc, w) = Some (Inr (Blocked, (fc', w')))
    \<and> fc_items fc' = (fc_items fc)(pending fc [\<mapsto>] map completed results) \<and> pending fc' = []
    \<and> fc_processingThread fc' = InWait \<and> fc_workItemQueueSemaphore fc' = sem_new 0 \<and> items_inv fc'"
proof (cases "fc_processingThread fc")
  case AtLoop
  from processingFunc_drains [OF ctx_inv_items [OF assms(1)] assms(2) AtLoop assms(4,5)]
  show ?thesis by blast
next
  case InWait
  show ?thesis
  proof (cases "sem_value (fc_workItemQueueSemaphore fc) = 0")
    case True
    then have sem: "fc_workItemQueueSemaphore fc = sem_new 0" by (simp add: sem_new_def)
    have p: "pending fc = []" using assms(1) InWait True by (auto simp: ctx_inv_def thread_inv_def)
    then have "results = []" "w' = w" using assms(5) by (simp_all add: prog_simps)
    moreover have "processingFunc cbs (fc, w) = Some (Inr (Blocked, (fc, w)))"
      by (rule processingFunc_halt) (simp_all add: processing_step_wait [OF InWait] sem_wait_def True)
    ultimately show ?thesis using p sem InWait ctx_inv_items [OF assms(1)] by auto
  next
    case False
    let ?fc = "fc\<lparr>fc_workItemQueueSemaphore := (fc_workItemQueueSemaphore fc)\<lparr>sem_value :=
      sem_value (fc_workItemQueueSemaphore fc) - 1\<rparr>, fc_processingThread := AtLoop\<rparr>"
    have step: "processing_step cbs (fc, w) = Some (Inr (Moved, (?fc, w)))"
      by (simp add: processing_step_wait [OF InWait] sem_wait_def False)
    have "items_inv ?fc" using assms(1) by (simp add: ctx_inv_def)
    from processingFunc_drains [OF this, of w results w' cbs] assms(2,4,5) processingFunc_Moved [OF step]
    show ?thesis by auto
  qed
qed (use assms in \<open>simp_all add: ctx_inv_def thread_inv_def\<close>)

subsection \<open>Properties\<close>

text \<open>
  C3: the processing thread works the queue off. Started in a well-formed state, in the wait or before
  the loop, with any number of requests pending that have no callback and whose devices return, it
  processes them in the order they were submitted, each on the world the one before has left, marks every one
  completed with its answer, and then waits with an empty queue and no notification left over. It returns
  neither early nor never.
\<close>

theorem processing_empties_queue:
  assumes "ctx_inv fc" "fc_processing fc" "fc_processingThread fc \<noteq> InItem"
    and "\<forall>a \<in> set (pending fc). wi_callback (the (fc_items fc a)) = nullptr"
    and "process_all (fc_mounts fc) (map (\<lambda>a. the (fc_items fc a)) (pending fc)) w = Some (Inr (results, w'))"
  shows "\<exists>fc'. processingFunc cbs (fc, w) = Some (Inr (Blocked, (fc', w')))
    \<and> fc_items fc' = (fc_items fc)(pending fc [\<mapsto>] map completed results) \<and> pending fc' = []
    \<and> fc_processingThread fc' = InWait \<and> fc_workItemQueueSemaphore fc' = sem_new 0 \<and> items_inv fc'"
  using assms by (rule processingFunc_empties)

lemma sample_ctx_inv: "ctx_inv (sample_context ms 2)"
  using sample_context_inv(1) [of 2 ms]
  by (simp add: ctx_inv_def thread_inv_def) (simp add: sample_context_def)

lemma sample_submitted:
  obtains a name fc' where
    "issue no_callbacks (FileExists path) (sample_context [] 2, ()) = Some (Inr (a, (fc', ())))"
    and "submitted (sample_context [] 2) a
      (request_item (sample_context [] 2) name (FileExists path) nullptr LFS_DO_NOT_FREE_BUFFER nullptr) fc'"
    and "ctx_inv fc'"
proof -
  have "can_submit (fst (sample_context [] 2, ()))" using sample_can_submit by simp
  from wp_issue [OF this, of no_callbacks "FileExists path"] obtain a fc' name where
    *: "issue no_callbacks (FileExists path) (sample_context [] 2, ()) = Some (Inr (a, (fc', ())))"
    "submitted (sample_context [] 2) a
      (request_item (sample_context [] 2) name (FileExists path) nullptr LFS_DO_NOT_FREE_BUFFER nullptr) fc'"
    by (auto simp: wp_iff accepted_def simp del: issue.simps)
  have "ctx_inv fc'"
    by (rule submitted_ctx_inv [OF sample_ctx_inv *(2)])
      (simp_all add: request_item_def prepared_not_completed, simp add: sample_context_def sem_new_def)
  with * that show thesis by blast
qed

lemma processing_empties_queue_witness:
  "\<exists>a fc' fc''. issue no_callbacks (FileExists ''/x'') (sample_context [] 2, ()) = Some (Inr (a, (fc', ())))
    \<and> processingFunc no_callbacks (fc', ()) = Some (Inr (Blocked, (fc'', ())))
    \<and> map_option wi_resultCode (fc_items fc'' a) = Some LFS_NOT_FOUND"
proof -
  obtain a name fc' where i: "issue no_callbacks (FileExists ''/x'') (sample_context [] 2, ()) = Some (Inr (a, (fc', ())))"
    and s: "submitted (sample_context [] 2) a (request_item (sample_context [] 2) name (FileExists ''/x'')
      nullptr LFS_DO_NOT_FREE_BUFFER nullptr) fc'" and inv: "ctx_inv fc'"
    by (rule sample_submitted [of "''/x''"])
  let ?item = "request_item (sample_context [] 2) name (FileExists ''/x'') nullptr LFS_DO_NOT_FREE_BUFFER nullptr"
  have p: "pending fc' = [a]" and it: "fc_items fc' a = Some ?item" and t: "fc_processing fc'"
    "fc_processingThread fc' = AtLoop" and m: "fc_mounts fc' = []"
    using s by (simp_all add: submitted_def) (simp_all add: sample_context_def)
  have "process_all (fc_mounts fc') (map (\<lambda>a. the (fc_items fc' a)) (pending fc')) ()
      = Some (Inr ([?item\<lparr>wi_resultCode := LFS_NOT_FOUND\<rparr>], ()))"
    by (simp add: p it m process_item_def process_exists_def request_item_def prepared_item_def
        exists_loop.simps findNextMountAndPath_def prog_simps)
  from processing_empties_queue [OF inv t(1) _ _ this, of no_callbacks] obtain fc'' where
    "processingFunc no_callbacks (fc', ()) = Some (Inr (Blocked, (fc'', ())))"
    "fc_items fc'' = (fc_items fc')(pending fc' [\<mapsto>] map completed [?item\<lparr>wi_resultCode := LFS_NOT_FOUND\<rparr>])"
    using t p it by (auto simp: request_item_def prepared_item_def)
  with i p show ?thesis by (intro exI [of _ a] exI [of _ fc'] exI [of _ fc'']) (simp add: completed_def)
qed

end
