(* ===== verification/Context_Steps.thy ===== *)
theory Context_Steps
  imports Processing
begin

text \<open>
  The context as a transition system: clients submit requests, release items, make and release mounts and
  register interfaces, the processing thread takes its steps, and the world changes on its own, in any
  order. The invariant of \<open>Processing\<close> holds in every state that can be reached.
\<close>

subsection \<open>The operations on mounts and the thread\<close>

lemma ctx_inv_other:
  "ctx_inv fc \<Longrightarrow> ctx_inv (fc\<lparr>fc_mounts := ms\<rparr>)"
  "ctx_inv fc \<Longrightarrow> ctx_inv (fc\<lparr>fc_interfaces := is\<rparr>)"
  "ctx_inv fc \<Longrightarrow> ctx_inv (fc\<lparr>fc_log := l\<rparr>)"
  by (simp_all add: ctx_inv_def thread_inv_def)

lemma wlp_registerDeviceInterface:
  "ctx_inv (fst s) \<Longrightarrow> wlp (registerDeviceInterface i) (\<lambda>_ t. ctx_inv (fst t)) s"
  unfolding registerDeviceInterface_def wp_simps
  by (auto simp: wp_simps ctx_inv_other intro!: wlp_fc_allocate)

lemma wlp_createMount:
  "ctx_inv (fst s) \<Longrightarrow> wlp (createMount ty mp dp perm) (\<lambda>_ t. ctx_inv (fst t)) s"
  unfolding createMount_def Let_def wlp_andThen wlp_if wlp_fc_get
  by (auto simp: wp_simps ctx_inv_other intro!: wlp_fc_allocate wlp_fc_deallocate wlp_any_call
      split: option.split lfs_error_code_t.split)

text \<open>
  The stop of the thread leaves it not started, with the queue as it was. (Its notification may be left
  over in the semaphore.)
\<close>

definition stopped :: "('d, 'w) file_context \<Rightarrow> bool" where
  "stopped fc \<longleftrightarrow> ctx_inv fc \<and> fc_processingThread fc = NotStarted \<and> \<not> fc_processing fc"

lemma wlp_stopProcessingThread:
  assumes "ctx_inv (fst s)"
  shows "wlp stopProcessingThread (\<lambda>_ t. stopped (fst t) \<and> pending (fst t) = pending (fst s)
    \<and> fc_items (fst t) = fc_items (fst s) \<and> fc_mounts (fst t) = fc_mounts (fst s)) s"
  using assms
  by (cases "fc_processingThread (fst s)")
    (auto simp: stopProcessingThread_def join_processingThread_def wp_simps stopped_def ctx_inv_def thread_inv_def split: option.split)

lemma wlp_startProcessingThread:
  assumes "stopped (fst s)"
  shows "wlp startProcessingThread (\<lambda>_ t. ctx_inv (fst t) \<and> fc_processing (fst t)
    \<and> pending (fst t) = pending (fst s) \<and> fc_mounts (fst t) = fc_mounts (fst s)) s"
  using assms
  by (auto simp: startProcessingThread_def wp_simps stopped_def ctx_inv_def thread_inv_def)

lemma stopped_mounts: "stopped fc \<Longrightarrow> stopped (fc\<lparr>fc_mounts := ms\<rparr>)"
  by (simp add: stopped_def ctx_inv_other)

lemma wlp_releaseMount:
  assumes "ctx_inv (fst s)"
  shows "wlp (releaseMount m) (\<lambda>_ t. ctx_inv (fst t)) s"
  unfolding releaseMount_def
proof (rule wlp_seq, rule wlp_mono [OF wlp_stopProcessingThread [OF assms]])
  fix x and t :: "('a, 'b) ctx"
  assume *: "stopped (fst t) \<and> pending (fst t) = pending (fst s)
    \<and> fc_items (fst t) = fc_items (fst s) \<and> fc_mounts (fst t) = fc_mounts (fst s)"
  have start: "wlp startProcessingThread (\<lambda>_. wlp (ret r) (\<lambda>_ t. ctx_inv (fst t))) u"
    if "stopped (fst u)" for r u
    using wlp_startProcessingThread [OF that] by (rule wlp_mono) (simp add: wlp_ret)
  show "wlp (andThen (fc_get fc_mounts) (\<lambda>mounts. andThen
       (case List.find (\<lambda>m'. mi_self m' = m) mounts of
          None \<Rightarrow> ret False
        | Some m' \<Rightarrow>
            andThen (on_snd (call_ptr (di_destroy (mi_interface m')) (\<lambda>destroy. destroy (mi_device m')))) (\<lambda>_.
            andThen (fc_deallocate (mi_prefixPtr m')) (\<lambda>_.
            andThen (fc_deallocate (mi_self m')) (\<lambda>_.
            andThen (fc_set (\<lambda>fc. fc\<lparr>fc_mounts := erase_mount m (fc_mounts fc)\<rparr>)) (\<lambda>_.
            ret True)))))
       (\<lambda>result. andThen startProcessingThread (\<lambda>_. ret result)))) (\<lambda>_ t. ctx_inv (fst t)) t"
    using * unfolding wlp_andThen wlp_fc_get
    by (cases "List.find (\<lambda>m'. mi_self m' = m) (fc_mounts (fst t))")
      (auto simp: wp_simps intro!: wlp_any_call wlp_fc_deallocate start stopped_mounts)
qed

subsection \<open>The transition system\<close>

text \<open>
  The steps that return; a step that faults or blocks leads nowhere. Submissions and stops assume that the
  32-bit counter of the semaphore does not wrap. Clients release only items that are completed, as the header
  of the context asks of them.
\<close>

inductive ctx_step :: "('d, 'w) callbacks \<Rightarrow> ('d, 'w) ctx \<Rightarrow> ('d, 'w) ctx \<Rightarrow> bool" for cbs where
  Request: "issue cbs req s = Some (Inr (a, t)) \<Longrightarrow>
     sem_value (fc_workItemQueueSemaphore (fst s)) \<noteq> - 1 \<Longrightarrow> ctx_step cbs s t"
| CallbackRequest: "issue_callback cbs req cb act ud s = Some (Inr ((), t)) \<Longrightarrow>
     sem_value (fc_workItemQueueSemaphore (fst s)) \<noteq> - 1 \<Longrightarrow> ctx_step cbs s t"
| Release: "releaseWorkItem a s = Some (Inr ((), t)) \<Longrightarrow>
     (\<And>item. fc_items (fst s) a = Some item \<Longrightarrow> wi_completed item) \<Longrightarrow> ctx_step cbs s t"
| Thread: "processing_step cbs s = Some (Inr (r, t)) \<Longrightarrow> ctx_step cbs s t"
| Register: "registerDeviceInterface i s = Some (Inr (n, t)) \<Longrightarrow> ctx_step cbs s t"
| CreateMount: "createMount ty mp dp perm s = Some (Inr (r, t)) \<Longrightarrow> ctx_step cbs s t"
| ReleaseMount: "releaseMount m s = Some (Inr (b, t)) \<Longrightarrow> ctx_step cbs s t"
| World: "ctx_step cbs (fc, w) (fc, w')"

inductive reachable :: "('d, 'w) callbacks \<Rightarrow> ('d, 'w) ctx \<Rightarrow> ('d, 'w) ctx \<Rightarrow> bool" for cbs s where
  reachable_refl: "reachable cbs s s"
| reachable_step: "reachable cbs s t \<Longrightarrow> ctx_step cbs t u \<Longrightarrow> reachable cbs s u"

inductive_cases ctx_stepE: "ctx_step cbs s t"

lemma wlpD: "wlp m Q s \<Longrightarrow> m s = Some (Inr (x, t)) \<Longrightarrow> Q x t"
  by (simp add: wlp_iff)

text \<open>The invariant, step by step, and in every reachable state.\<close>

lemma ctx_step_inv:
  assumes "ctx_step cbs s t" "polite cbs" "ctx_inv (fst s)"
  shows "ctx_inv (fst t)"
  using assms(1)
proof cases
  case (Request req a)
  with assms(2,3) wlp_issue [of cbs s req] show ?thesis by (auto simp: may_submit_def dest: wlpD)
next
  case (CallbackRequest req cb act ud)
  with assms(2,3) wlp_issue_callback [of cbs s req cb act ud] show ?thesis
    by (auto simp: may_submit_def dest: wlpD)
next
  case (Release a)
  with assms(3) wlp_releaseWorkItem [of s a] show ?thesis by (blast dest: wlpD)
next
  case (Thread r)
  with assms(2,3) wlp_processing_step [of s cbs] show ?thesis by (blast dest: wlpD)
next
  case (Register i n)
  with assms(3) wlp_registerDeviceInterface [of s i] show ?thesis by (blast dest: wlpD)
next
  case (CreateMount ty mp dp perm r)
  with assms(3) wlp_createMount [of s ty mp dp perm] show ?thesis by (blast dest: wlpD)
next
  case (ReleaseMount m b)
  with assms(3) wlp_releaseMount [of s m] show ?thesis by (blast dest: wlpD)
qed (use assms(3) in simp)

lemma reachable_inv:
  "reachable cbs s t \<Longrightarrow> polite cbs \<Longrightarrow> ctx_inv (fst s) \<Longrightarrow> ctx_inv (fst t)"
  by (induction rule: reachable.induct) (auto intro: ctx_step_inv)

lemma no_callbacks_polite: "polite no_callbacks"
  by (simp add: polite_def no_callbacks_def wlp_ret)

subsection \<open>Properties\<close>

text \<open>
  C8: in every state that clients, callbacks, the thread and the world can reach, in any interleaving of
  their operations, the work items are accounted for: exactly the slots the pool has handed out hold
  items, so no item is lost or in two places; the queue holds only such items, each once, and none that is
  already completed; the pool and the queue are well formed.
\<close>

theorem work_items_accounted_for:
  assumes "reachable cbs s t" "polite cbs" "ctx_inv (fst s)"
  shows "dom (fc_items (fst t)) = pl_slots (fc_workItemPool (fst t)) - pl_free_slots (fc_workItemPool (fst t))
    \<and> set (pending (fst t)) \<subseteq> dom (fc_items (fst t)) \<and> distinct (pending (fst t))
    \<and> (\<forall>a item. a \<in> set (pending (fst t)) \<and> fc_items (fst t) a = Some item \<longrightarrow> \<not> wi_completed item)
    \<and> pl_inv (fc_workItemPool (fst t)) \<and> rb_inv (fc_workItemQueue (fst t))"
  using reachable_inv [OF assms] by (auto simp: ctx_inv_def items_inv_def wp.used_def)

lemma work_items_accounted_for_witness:
  "\<exists>t a. reachable no_callbacks (sample_context [] 2, ()) t \<and> pending (fst t) = [a]
    \<and> a \<in> pl_slots (fc_workItemPool (fst t)) - pl_free_slots (fc_workItemPool (fst t))"
proof -
  obtain a name fc' where
    i: "issue no_callbacks (FileExists ''/x'') (sample_context [] 2, ()) = Some (Inr (a, (fc', ())))"
    and s: "submitted (sample_context [] 2) a (request_item (sample_context [] 2) name (FileExists ''/x'')
      nullptr LFS_DO_NOT_FREE_BUFFER nullptr) fc'" and inv: "ctx_inv fc'"
    by (rule sample_submitted [of "''/x''"])
  have "ctx_step no_callbacks (sample_context [] 2, ()) (fc', ())"
    by (rule Request [OF i]) (simp add: sample_context_def sem_new_def)
  then have r: "reachable no_callbacks (sample_context [] 2, ()) (fc', ())"
    by (blast intro: reachable.intros)
  have p: "pending fc' = [a]"
    using s by (simp add: submitted_def) (simp add: sample_context_def)
  from work_items_accounted_for [OF r no_callbacks_polite] sample_ctx_inv r p show ?thesis
    by (intro exI [of _ "(fc', ())"] exI [of _ a]) auto
qed

text \<open>
  C9: no wakeup is lost. In every reachable state in which the processing thread is in its wait while the
  queue holds work, the semaphore has been notified, so the thread's next step takes it out of the wait:
  a thread with work to do is never blocked. And while it is not stopped, there is a thread.
\<close>

theorem no_lost_wakeup:
  assumes "reachable cbs s t" "polite cbs" "ctx_inv (fst s)"
    and "fc_processingThread (fst t) = InWait" "pending (fst t) \<noteq> []"
  shows "\<exists>fc'. processing_step cbs t = Some (Inr (Moved, (fc', snd t)))
    \<and> fc_processingThread fc' = AtLoop \<and> pending fc' = pending (fst t) \<and> fc_processing fc'"
proof -
  have "sem_value (fc_workItemQueueSemaphore (fst t)) \<noteq> 0" "fc_processing (fst t)"
    using reachable_inv [OF assms(1-3)] assms(4,5) by (auto simp: ctx_inv_def thread_inv_def)
  with processing_step_wait [OF assms(4), of cbs "snd t"] show ?thesis
    by (simp add: sem_wait_def)
qed

lemma sample_waiting:
  "ctx_inv (sample_context ms 2\<lparr>fc_processingThread := InWait\<rparr>)"
  "can_submit (sample_context ms 2\<lparr>fc_processingThread := InWait\<rparr>)"
  using sample_ctx_inv [of ms] sample_can_submit [of ms]
  by (auto simp: ctx_inv_def thread_inv_def can_submit_def) (simp_all add: sample_context_def)

lemma no_lost_wakeup_witness:
  "\<exists>t t'. reachable no_callbacks (sample_context [] 2, ()) t \<and> fc_processingThread (fst t) = InWait
    \<and> pending (fst t) \<noteq> [] \<and> processing_step no_callbacks t = Some (Inr (Moved, t'))"
proof -
  let ?s = "(sample_context [] 2, ())" and ?fc = "sample_context [] 2\<lparr>fc_processingThread := InWait\<rparr>"
  have "processing_step no_callbacks ?s = Some (Inr (Moved, (?fc, ())))"
    by (rule processing_step_empty) (use sample_context_inv(1) [of 2 "[]"] in \<open>simp_all add: sample_context_def\<close>)
  then have r1: "reachable no_callbacks ?s (?fc, ())"
    by (blast intro: reachable.intros ctx_step.Thread)
  have "can_submit (fst (?fc, ()))" using sample_waiting(2) by simp
  from wp_issue [OF this, of no_callbacks "FileExists ''/x''"] obtain a fc' name where
    i: "issue no_callbacks (FileExists ''/x'') (?fc, ()) = Some (Inr (a, (fc', ())))"
    and s: "submitted ?fc a (request_item ?fc name (FileExists ''/x'') nullptr LFS_DO_NOT_FREE_BUFFER nullptr) fc'"
    by (auto simp: wp_iff accepted_def simp del: issue.simps)
  have "ctx_step no_callbacks (?fc, ()) (fc', ())"
    by (rule Request [OF i]) (simp add: sample_context_def sem_new_def)
  with r1 have r: "reachable no_callbacks ?s (fc', ())" by (blast intro: reachable.intros)
  have w: "fc_processingThread (fst (fc', ())) = InWait" "pending (fst (fc', ())) \<noteq> []"
    using s by (simp_all add: submitted_def)
  have "ctx_inv (fst ?s)" using sample_ctx_inv by simp
  from no_lost_wakeup [OF r no_callbacks_polite this w] r w show ?thesis by blast
qed

end
