(* ===== verification/Mount_Management.thy ===== *)
theory Mount_Management
  imports Context_Steps
begin

text \<open>
  Making and releasing mounts, and the life of a context: the permissions a mount gets, the errors of
  \<^verbatim>\<open>createMount\<close>, the round trip of a mount through \<^verbatim>\<open>createMount\<close> and \<^verbatim>\<open>releaseMount\<close>, and
  the state the constructor leaves.
\<close>

subsection \<open>The permissions of a mount\<close>

lemma bit_mount_permissions:
  "bit LFS_MOUNT_READ k \<longleftrightarrow> k = 0" "bit LFS_MOUNT_WRITE_FILE k \<longleftrightarrow> k = 1"
  "bit LFS_MOUNT_DELETE_FILE k \<longleftrightarrow> k = 2" "bit LFS_MOUNT_CREATE_DIR k \<longleftrightarrow> k = 3"
  "bit LFS_MOUNT_DELETE_DIR k \<longleftrightarrow> k = 4"
  unfolding LFS_MOUNT_READ_def LFS_MOUNT_WRITE_FILE_def LFS_MOUNT_DELETE_FILE_def
    LFS_MOUNT_CREATE_DIR_def LFS_MOUNT_DELETE_DIR_def
  by (auto simp: bit_simps simp del: push_bit_of_1)

lemma bit_supportedPermissions:
  "bit (supportedPermissions i) k \<longleftrightarrow> k = 0
    \<or> (k = 1 \<and> di_writeFile i \<noteq> None) \<or> (k = 2 \<and> di_deleteFile i \<noteq> None)
    \<or> (k = 3 \<and> di_createDir i \<noteq> None) \<or> (k = 4 \<and> di_deleteDir i \<noteq> None)"
  by (auto simp: supportedPermissions_def bit_or_iff bit_mount_permissions)

lemma bit_calculatedPermissions:
  "bit (calculatedPermissions i p) k \<longleftrightarrow> bit (supportedPermissions i) k \<and> (p = LFS_MOUNT_DEFAULT \<or> bit p k)"
  by (auto simp: calculatedPermissions_def bit_and_iff)

lemma calculatedPermissions_supported:
  assumes "required_pointers (mi_interface m)"
    and "mi_permissions m = calculatedPermissions (mi_interface m) p"
  shows "supported m"
  using assms
  by (auto simp: supported_def permits_def tested_permission_def bit_calculatedPermissions
      bit_supportedPermissions)

subsection \<open>What createMount adds\<close>

definition interfaces_ok :: "('d, 'w) file_context \<Rightarrow> bool" where
  "interfaces_ok fc \<longleftrightarrow> (\<forall>(p, i) \<in> set (fc_interfaces fc). required_pointers i)"

text \<open>
  \<open>mounted\<close>: the mount a successful call adds, with the interface of the requested type, the requested
  point and only permissions that were asked for (any, by default) and that the interface supports.
\<close>

definition mounted :: "('d, 'w) file_context \<Rightarrow> u32 \<Rightarrow> string \<Rightarrow> u32 \<Rightarrow> addr \<Rightarrow> ('d, 'w) mount_info \<Rightarrow> bool" where
  "mounted fc deviceType mountPoint perm m mi \<longleftrightarrow>
     m \<noteq> nullptr \<and> mi_self mi = m \<and> mi_prefix mi = mountPoint \<and> mi_prefixPtr mi \<noteq> nullptr
     \<and> mi_prefixLen mi = of_nat (length mountPoint)
     \<and> unat deviceType < length (fc_interfaces fc)
     \<and> mi_interface mi = snd (fc_interfaces fc ! unat deviceType)
     \<and> mi_permissions mi = calculatedPermissions (mi_interface mi) perm \<and> mi_permissions mi \<noteq> 0"

lemma wlp_createMount_result:
  "wlp (createMount ty mp dp perm) (\<lambda>(m, code) t.
     (m = nullptr \<and> fst t = fst s)
     \<or> (code = LFS_OK \<and> mounted (fst s) ty mp perm m (last (fc_mounts (fst t)))
         \<and> fst t = (fst s)\<lparr>fc_mounts := fc_mounts (fst s) @ [last (fc_mounts (fst t))]\<rparr>)) s"
  unfolding createMount_def Let_def wlp_andThen wlp_if wlp_fc_get
  by (auto simp: wp_simps mounted_def intro!: wlp_fc_allocate wlp_fc_deallocate wlp_any_call
      split: option.split lfs_error_code_t.split)

lemma createMount_invalid:
  "length (fc_interfaces fc) \<le> unat ty \<Longrightarrow>
     createMount ty mp dp perm (fc, w) = Some (Inr ((nullptr, LFS_INVALID_DEVICE), (fc, w)))"
  by (simp add: createMount_def fc_get_def prog_simps)

lemma createMount_no_permission:
  "unat ty < length (fc_interfaces fc) \<Longrightarrow>
     calculatedPermissions (snd (fc_interfaces fc ! unat ty)) perm = 0 \<Longrightarrow>
     createMount ty mp dp perm (fc, w) = Some (Inr ((nullptr, LFS_PERMISSIONS_ERROR), (fc, w)))"
  by (simp add: createMount_def fc_get_def prog_simps)

text \<open>When the device cannot be made, its error is reported and the block of the mount is given back.\<close>

lemma createMount_device_error:
  assumes "unat ty < length (fc_interfaces fc)"
    and "calculatedPermissions (snd (fc_interfaces fc ! unat ty)) perm \<noteq> 0"
    and "total_allocator (fc_alloc fc)"
    and "\<And>w. wp (call_ptr (di_create (snd (fc_interfaces fc ! unat ty))) (\<lambda>f. f (fc_alloc fc) dp))
      (\<lambda>(c, d) w'. c = code \<and> code \<noteq> LFS_OK) w"
  shows "\<exists>w'. createMount ty mp dp perm (fc, w) = Some (Inr ((nullptr, code), (fc, w')))"
proof -
  have "wp (createMount ty mp dp perm) (\<lambda>r t. r = (nullptr, code) \<and> fst t = fc) (fc, w)"
    unfolding createMount_def Let_def wp_andThen wp_if wp_fc_get wp_on_snd
    using assms
    by (auto simp: wp_simps not_le intro!: wp_fc_allocate wp_fc_deallocate wp_mono [OF assms(4)]
        split: lfs_error_code_t.split)
  then show ?thesis by (auto simp: wp_iff)
qed

subsection \<open>What releaseMount takes away\<close>

lemma erase_mount_last:
  "m \<notin> mi_self ` set ms \<Longrightarrow> mi_self mi = m \<Longrightarrow> erase_mount m (ms @ [mi]) = ms"
  by (induction ms) auto

lemma find_last:
  "m \<notin> mi_self ` set ms \<Longrightarrow> mi_self mi = m \<Longrightarrow> List.find (\<lambda>m'. mi_self m' = m) (ms @ [mi]) = Some mi"
  by (induction ms) auto

text \<open>A running thread that is not in an item stops and starts again.\<close>

definition stoppable :: "('d, 'w) file_context \<Rightarrow> bool" where
  "stoppable fc \<longleftrightarrow>
     thread_inv fc \<and> fc_processingThread fc \<noteq> InItem \<and> sem_value (fc_workItemQueueSemaphore fc) \<noteq> - 1"

definition can_stop :: "('d, 'w) file_context \<Rightarrow> bool" where
  "can_stop fc \<longleftrightarrow>
     ctx_inv fc \<and> fc_processingThread fc \<noteq> InItem
     \<and> sem_value (fc_workItemQueueSemaphore fc) \<noteq> - 1 \<and> total_allocator (fc_alloc fc)"

definition same_work :: "('d, 'w) file_context \<Rightarrow> ('d, 'w) file_context \<Rightarrow> bool" where
  "same_work fc fc' \<longleftrightarrow>
     fc_items fc' = fc_items fc \<and> fc_workItemQueue fc' = fc_workItemQueue fc
     \<and> fc_workItemPool fc' = fc_workItemPool fc \<and> fc_interfaces fc' = fc_interfaces fc
     \<and> fc_alloc fc' = fc_alloc fc \<and> fc_self fc' = fc_self fc
     \<and> fc_queueBuffer fc' = fc_queueBuffer fc \<and> fc_poolBitmask fc' = fc_poolBitmask fc"

lemma can_stop_stoppable: "can_stop fc \<Longrightarrow> stoppable fc"
  by (simp add: can_stop_def stoppable_def ctx_inv_def)

lemma sem_inc_not_zero: "v \<noteq> - 1 \<Longrightarrow> v + 1 \<noteq> (0 :: u32)"
  by (simp add: eq_neg_iff_add_eq_0)

lemma wp_stopProcessingThread:
  assumes "stoppable (fst s)"
    and "\<And>fc. same_work (fst s) fc \<Longrightarrow> fc_mounts fc = fc_mounts (fst s) \<Longrightarrow> \<not> fc_processing fc \<Longrightarrow>
      fc_processingThread fc = NotStarted \<Longrightarrow> Q () (fc, snd s)"
  shows "wp stopProcessingThread Q s"
proof (cases "fc_processingThread (fst s)")
  case NotStarted
  with assms(1) assms(2) [of "fst s"] show ?thesis
    by (auto simp: stopProcessingThread_def wp_simps stoppable_def thread_inv_def same_work_def)
next
  case AtLoop
  with assms show ?thesis
    by (auto simp: stopProcessingThread_def join_processingThread_def wp_simps stoppable_def thread_inv_def same_work_def)
next
  case InWait
  have "sem_value (fc_workItemQueueSemaphore (fst s)) + 1 \<noteq> 0"
    using assms(1) by (intro sem_inc_not_zero) (simp add: stoppable_def)
  with InWait assms show ?thesis
    by (auto simp: stopProcessingThread_def join_processingThread_def wp_simps stoppable_def thread_inv_def same_work_def sem_wait_def sem_notify_def)
qed (use assms in \<open>simp add: stoppable_def\<close>)

text \<open>Releasing a mount, found or not, from such a state.\<close>

lemma wp_releaseMount_unknown:
  assumes "can_stop (fst s)" "m \<notin> mi_self ` set (fc_mounts (fst s))"
  shows "wp (releaseMount m) (\<lambda>r t. r = False \<and> fc_mounts (fst t) = fc_mounts (fst s)
    \<and> same_work (fst s) (fst t) \<and> fc_processingThread (fst t) = AtLoop \<and> snd t = snd s) s"
proof -
  have "List.find (\<lambda>m'. mi_self m' = m) (fc_mounts (fst s)) = None"
    using assms(2) by (auto simp: find_None_iff)
  then show ?thesis
    unfolding releaseMount_def wp_andThen
    by (intro wp_stopProcessingThread [OF can_stop_stoppable [OF assms(1)]])
      (simp add: wp_simps startProcessingThread_def same_work_def)
qed

lemma wp_releaseMount_last:
  assumes stop: "can_stop (fst s)" and ms: "fc_mounts (fst s) = ms @ [mi]" "mi_self mi \<notin> mi_self ` set ms"
    and destroy: "\<And>w. wp (call_ptr (di_destroy (mi_interface mi)) (\<lambda>f. f (mi_device mi))) (\<lambda>_ w'. True) w"
  shows "wp (releaseMount (mi_self mi)) (\<lambda>r t. r = True \<and> fc_mounts (fst t) = ms
    \<and> same_work (fst s) (fst t) \<and> fc_processingThread (fst t) = AtLoop) s"
  unfolding releaseMount_def wp_andThen
proof (rule wp_stopProcessingThread [OF can_stop_stoppable [OF stop]], goal_cases)
  case (1 fc)
  have al: "total_allocator (fc_alloc fc)" using stop 1(1) by (simp add: can_stop_def same_work_def)
  show ?case
    using 1 al
    by (simp add: wp_simps ms find_last erase_mount_last startProcessingThread_def)
      (auto intro!: wp_mono [OF destroy] wp_fc_deallocate simp: wp_simps same_work_def ms erase_mount_last)
qed

subsection \<open>The constructor\<close>

text \<open>
  A context made with an allocator that always has memory, whose first answer is a block that lies in the
  address space; and a queue whose array has fewer than \<open>2 ^ 64\<close> bytes.
\<close>

definition construction_ok :: "'w lfs_allocator_t \<Rightarrow> ('d, 'w) device_interface \<Rightarrow> u64 \<Rightarrow> u64 \<Rightarrow> 'w \<Rightarrow> bool" where
  "construction_ok alloc dir queueSize poolSize w \<longleftrightarrow>
     total_allocator alloc \<and> required_pointers dir \<and> 0 < queueSize \<and> unat queueSize < 2 ^ 61
     \<and> unat poolSize < 2 ^ 63
     \<and> wp (call_alloc alloc (104 * poolSize) 8)
         (\<lambda>p w'. p \<noteq> nullptr \<and> unat p + unat poolSize * 104 < 2 ^ 64) w"

lemma wp_FileContext_init:
  fixes s :: "('d, 'w) ctx"
  assumes "construction_ok alloc dir queueSize poolSize (snd s)"
  shows "wp (FileContext_init dir this alloc queueSize poolSize)
    (\<lambda>_ t. ctx_inv (fst t) \<and> pending (fst t) = [] \<and> fc_mounts (fst t) = [] \<and> fc_items (fst t) = Map.empty
      \<and> map snd (fc_interfaces (fst t)) = [dir] \<and> fc_processingThread (fst t) = AtLoop
      \<and> card (pl_free_slots (fc_workItemPool (fst t))) = unat poolSize
      \<and> rb_getCapacity (fc_workItemQueue (fst t)) = queueSize) s"
proof -
  note ok = assms [unfolded construction_ok_def]
  have al: "wp (call_alloc alloc n k) (\<lambda>p w'. p \<noteq> nullptr) v" for n k v
    using ok by (simp add: total_allocator_def)
  have init: "wp (andThen (registerDeviceInterface dir) (\<lambda>_. startProcessingThread)) Q (fc, v)"
    if "fc_alloc fc = alloc" "\<not> fc_processing fc" "fc_interfaces fc = []"
      and "\<And>p v. Q () (fc\<lparr>fc_interfaces := [(p, dir)], fc_processing := True,
        fc_processingThread := AtLoop\<rparr>, v)"
    for fc :: "('d, 'w) file_context" and Q v
    using ok that
    by (auto simp: registerDeviceInterface_def startProcessingThread_def wp_simps intro!: wp_fc_allocate)
  show ?thesis
    unfolding FileContext_init_def Let_def wp_andThen wp_on_snd
  proof (rule wp_mono [OF conjunct2 [OF conjunct2 [OF conjunct2 [OF conjunct2 [OF conjunct2 [OF ok]]]]]], goal_cases)
    case (1 storage v)
    then have st: "storage \<noteq> nullptr \<and> unat storage + unat poolSize * 104 < 2 ^ 64" .
    let ?pool = "pl_new storage 104 poolSize"
    have pool: "pl_inv ?pool" "pl_free_slots ?pool = pl_slots ?pool" "card (pl_slots ?pool) = unat poolSize"
      using pl_new_inv [of storage 104 poolSize] st ok by simp_all
    show ?case
      using ok pool
      by (auto simp: wp_andThen [of "on_snd _"] wp_andThen [of "fc_set _"] wp_on_snd wp_fc_set
          ctx_inv_def items_inv_def thread_inv_def wp.used_def rb_new_inv rb_getCapacity_def queue_entries
          intro!: wp_mono [OF al] init)
  qed
qed


subsection \<open>Properties\<close>

text \<open>
  C31: for a queue of at least one and fewer than \<open>2 ^ 61\<close> entries (whose array has fewer than \<open>2 ^ 64\<close> bytes) and an
  allocator with memory, the constructor leaves a context that is well formed and at work: nothing is pending or in use, as many
  work items as asked for are free, the queue has the capacity asked for, the directory device is the first
  (and only) device type, there are no mounts, and the processing thread runs.
\<close>

theorem constructor_establishes_invariant:
  assumes "construction_ok alloc dir queueSize poolSize w"
  shows "\<exists>fc' w'. FileContext_init dir this alloc queueSize poolSize (fc, w) = Some (Inr ((), (fc', w')))
    \<and> ctx_inv fc' \<and> pending fc' = [] \<and> fc_mounts fc' = [] \<and> fc_items fc' = Map.empty
    \<and> map snd (fc_interfaces fc') = [dir] \<and> fc_processingThread fc' = AtLoop
    \<and> card (pl_free_slots (fc_workItemPool fc')) = unat poolSize
    \<and> rb_getCapacity (fc_workItemQueue fc') = queueSize"
  using wp_FileContext_init [of alloc dir queueSize poolSize "(fc, w)" this] assms
  by (auto simp: wp_iff)

lemma constructor_establishes_invariant_witness:
  "\<exists>fc' w'. FileContext_init full_device 16 sample_allocator 128 1024 (sample_context [] 2, ())
      = Some (Inr ((), (fc', w'))) \<and> ctx_inv fc' \<and> card (pl_free_slots (fc_workItemPool fc')) = 1024"
proof -
  have "construction_ok sample_allocator full_device 128 1024 ()"
    using sample_allocator_total
    by (simp add: construction_ok_def required_pointers_def full_device_def)
      (simp add: sample_allocator_def call_alloc_def call_ptr_def wp_def ret_def)
  from constructor_establishes_invariant [OF this, of 16 "sample_context [] 2"] show ?thesis by auto
qed

text \<open>
  C19: a mount is added with the interface of its device type and the requested point, and with a permission
  exactly if the caller asked for it (or for the default) and the interface has the operation behind it. So
  every mount made is \<open>supported\<close>, which is what keeps processing from calling null pointers. When
  no mount is made, the context is unchanged.
\<close>

theorem created_mount_is_supported:
  assumes "createMount ty mp dp perm (fc, w) = Some (Inr ((m, code), (fc', w')))" "interfaces_ok fc"
  shows "if m = nullptr then fc' = fc
    else code = LFS_OK \<and> (\<exists>mi. fc' = fc\<lparr>fc_mounts := fc_mounts fc @ [mi]\<rparr> \<and> supported mi
      \<and> mi_self mi = m \<and> mi_prefix mi = mp \<and> mi_interface mi = snd (fc_interfaces fc ! unat ty)
      \<and> (\<forall>k. bit (mi_permissions mi) k \<longleftrightarrow> (perm = LFS_MOUNT_DEFAULT \<or> bit perm k) \<and>
          (k = 0 \<or> (k = 1 \<and> di_writeFile (mi_interface mi) \<noteq> None)
            \<or> (k = 2 \<and> di_deleteFile (mi_interface mi) \<noteq> None)
            \<or> (k = 3 \<and> di_createDir (mi_interface mi) \<noteq> None)
            \<or> (k = 4 \<and> di_deleteDir (mi_interface mi) \<noteq> None))))"
proof (cases "m = nullptr")
  case True
  with wlpD [OF wlp_createMount_result assms(1)] show ?thesis by (simp add: mounted_def)
next
  case False
  let ?mi = "last (fc_mounts fc')"
  have c: "code = LFS_OK" "mounted fc ty mp perm m ?mi" "fc' = fc\<lparr>fc_mounts := fc_mounts fc @ [?mi]\<rparr>"
    using wlpD [OF wlp_createMount_result assms(1)] False by simp_all
  then have "fc_interfaces fc ! unat ty \<in> set (fc_interfaces fc)" by (simp add: mounted_def)
  with assms(2) have "required_pointers (snd (fc_interfaces fc ! unat ty))"
    by (auto simp: interfaces_ok_def split_beta)
  then have "required_pointers (mi_interface ?mi)" using c(2) by (simp add: mounted_def)
  then have "supported ?mi"
    using c(2) by (auto simp: mounted_def intro: calculatedPermissions_supported)
  moreover have "bit (mi_permissions ?mi) k \<longleftrightarrow> (perm = LFS_MOUNT_DEFAULT \<or> bit perm k) \<and>
      bit (supportedPermissions (mi_interface ?mi)) k" for k
    using c(2) bit_calculatedPermissions [of "mi_interface ?mi" perm k] by (auto simp: mounted_def)
  ultimately show ?thesis
    using False c unfolding bit_supportedPermissions
    by (simp only: if_False) (intro conjI exI [of _ ?mi], auto simp: mounted_def)
qed

text \<open>
  C30: when \<^verbatim>\<open>createMount\<close> gives no mount, and with which code. An unknown device type is
  \<^verbatim>\<open>LFS_INVALID_DEVICE\<close>, and asking only for permissions the interface cannot give is
  \<^verbatim>\<open>LFS_PERMISSIONS_ERROR\<close>, both before anything is allocated or called. Otherwise the device is asked to
  create itself, and there is no mount exactly if it answers with another code than \<^verbatim>\<open>LFS_OK\<close> or leaves the
  device null; its code is passed on, so a device that leaves null with \<^verbatim>\<open>LFS_OK\<close> gives no mount and no error.
  The block of the mount is given back, and the context is as before in all cases. (These are all the ways to
  return without a mount. Without memory for the mount the call does not return: it writes through null.)
\<close>

theorem create_mount_errors:
  "createMount ty mp dp perm (fc, w) = Some (Inr ((nullptr, code), t)) \<longleftrightarrow>
     (if length (fc_interfaces fc) \<le> unat ty then code = LFS_INVALID_DEVICE \<and> t = (fc, w)
      else let i = snd (fc_interfaces fc ! unat ty) in
        if perm \<noteq> LFS_MOUNT_DEFAULT \<and> perm AND supportedPermissions i = 0
        then code = LFS_PERMISSIONS_ERROR \<and> t = (fc, w)
        else \<exists>m w1 device w2 w3. call_alloc (fc_alloc fc) 32 8 w = Some (Inr (m, w1)) \<and> m \<noteq> nullptr
          \<and> call_ptr (di_create i) (\<lambda>create. create (fc_alloc fc) dp) w1 = Some (Inr ((code, device), w2))
          \<and> (code \<noteq> LFS_OK \<or> device = None)
          \<and> call_free (fc_alloc fc) m w2 = Some (Inr ((), w3)) \<and> t = (fc, w3))"
proof -
  let ?i = "snd (fc_interfaces fc ! unat ty)"
  have "supportedPermissions ?i \<noteq> 0"
    using bit_supportedPermissions [of ?i 0] by auto
  then have perm: "calculatedPermissions ?i perm = 0 \<longleftrightarrow>
      perm \<noteq> LFS_MOUNT_DEFAULT \<and> perm AND supportedPermissions ?i = 0"
    by (auto simp: calculatedPermissions_def)
  show ?thesis
    by (auto simp: createMount_def perm Let_def fc_get_def fc_set_def fc_allocate_def fc_deallocate_def on_snd_def
        andThen_def prog_simps split: option.splits sum.splits lfs_error_code_t.splits prod.splits if_splits)
qed


text \<open>
  A mount is made and released again. After \<^verbatim>\<open>createMount\<close> has given a mount at a new address,
  \<^verbatim>\<open>releaseMount\<close> finds it, destroys its device and restores the list of mounts; requests that are
  pending and items in use are untouched, and the processing thread runs again. Releasing an unknown mount
  answers false and changes no mount.
\<close>

theorem mount_round_trip:
  assumes "createMount ty mp dp perm (fc, w) = Some (Inr ((m, code), (fc1, w1)))" "m \<noteq> nullptr"
    and "m \<notin> mi_self ` set (fc_mounts fc)" "can_stop fc"
    and "\<And>i d w. i = snd (fc_interfaces fc ! unat ty) \<Longrightarrow>
      wp (call_ptr (di_destroy i) (\<lambda>f. f d)) (\<lambda>_ w'. True) w"
  shows "(\<exists>fc2 w2. releaseMount m (fc1, w1) = Some (Inr (True, (fc2, w2)))
      \<and> fc_mounts fc2 = fc_mounts fc \<and> same_work fc fc2 \<and> fc_processingThread fc2 = AtLoop)
    \<and> (\<exists>fc2. releaseMount m (fc, w) = Some (Inr (False, (fc2, w)))
      \<and> fc_mounts fc2 = fc_mounts fc \<and> same_work fc fc2 \<and> fc_processingThread fc2 = AtLoop)"
proof -
  let ?mi = "last (fc_mounts fc1)"
  have c: "mounted fc ty mp perm m ?mi" "fc1 = fc\<lparr>fc_mounts := fc_mounts fc @ [?mi]\<rparr>"
    using wlpD [OF wlp_createMount_result assms(1)] assms(2) by simp_all
  then have m: "mi_self ?mi = m" by (simp add: mounted_def)
  have stop: "can_stop fc1"
    using assms(4) by (subst c(2)) (simp add: can_stop_def ctx_inv_other)
  have ms: "fc_mounts fc1 = fc_mounts fc @ [?mi]" by (subst c(2)) simp
  have same: "same_work fc1 u \<longleftrightarrow> same_work fc u" for u
    unfolding same_work_def by (subst (1 2 3 4 5 6 7 8) c(2)) simp
  have "wp (releaseMount (mi_self ?mi)) (\<lambda>r t. r = True \<and> fc_mounts (fst t) = fc_mounts fc
      \<and> same_work (fst (fc1, w1)) (fst t) \<and> fc_processingThread (fst t) = AtLoop) (fc1, w1)"
    by (rule wp_releaseMount_last) (use stop ms assms(3,5) c(1) in \<open>auto simp: m mounted_def\<close>)
  moreover have "wp (releaseMount m) (\<lambda>r t. r = False \<and> fc_mounts (fst t) = fc_mounts (fst (fc, w))
    \<and> same_work (fst (fc, w)) (fst t) \<and> fc_processingThread (fst t) = AtLoop \<and> snd t = snd (fc, w)) (fc, w)"
    by (rule wp_releaseMount_unknown) (use assms(3,4) in simp_all)
  ultimately show ?thesis by (auto simp: wp_iff same m)
qed

subsection \<open>The properties at work\<close>

definition sample_devices :: "(unit, unit) device_interface \<Rightarrow> (unit, unit) file_context" where
  "sample_devices i = sample_context [] 2\<lparr>fc_interfaces := [(40, i)]\<rparr>"

lemma sample_createMount:
  "createMount 0 ''/a'' ''dir'' 19 (sample_devices full_device, ()) = Some (Inr ((8, LFS_OK),
    (sample_devices full_device\<lparr>fc_mounts := [\<lparr>mi_self = 8, mi_prefix = ''/a'', mi_prefixPtr = 8,
       mi_device = (), mi_interface = full_device, mi_prefixLen = 2, mi_permissions = 3\<rparr>]\<rparr>, ())))"
  by (simp add: createMount_def sample_devices_def sample_context_def sample_allocator_def fc_get_def fc_set_def
      fc_allocate_def call_alloc_def calculatedPermissions_def supportedPermissions_def full_device_def
      mount_permission_defs prog_simps Let_def)

lemma created_mount_is_supported_witness:
  "\<exists>fc1 mi. createMount 0 ''/a'' ''dir'' 19 (sample_devices full_device, ()) = Some (Inr ((8, LFS_OK), (fc1, ())))
    \<and> fc_mounts fc1 = [mi] \<and> supported mi"
proof -
  have ok: "interfaces_ok (sample_devices full_device)"
    by (simp add: interfaces_ok_def sample_devices_def required_pointers_def full_device_def)
  have n: "fc_mounts (sample_devices full_device) = []"
    by (simp add: sample_devices_def sample_context_def)
  from sample_createMount obtain fc1 where
    c: "createMount 0 ''/a'' ''dir'' 19 (sample_devices full_device, ()) = Some (Inr ((8, LFS_OK), (fc1, ())))"
    by blast
  from created_mount_is_supported [OF c ok] obtain mi where
    "fc1 = sample_devices full_device\<lparr>fc_mounts := fc_mounts (sample_devices full_device) @ [mi]\<rparr>"
    "supported mi" by auto
  with c n show ?thesis by (intro exI [of _ fc1] exI [of _ mi]) simp
qed

text \<open>A device that refuses, one that leaves null without an error, an unknown type, and a permission not to be had.\<close>

lemma create_mount_errors_witness:
  "(\<exists>w'. createMount 0 ''/a'' ''gone'' 1 (sample_devices (full_device\<lparr>di_create := Some (\<lambda>a p. ret (LFS_NOT_FOUND, None))\<rparr>), ())
      = Some (Inr ((nullptr, LFS_NOT_FOUND), w')))
   \<and> (\<exists>w'. createMount 0 ''/a'' ''null'' 1 (sample_devices (full_device\<lparr>di_create := Some (\<lambda>a p. ret (LFS_OK, None))\<rparr>), ())
      = Some (Inr ((nullptr, LFS_OK), w')))
   \<and> createMount 1 ''/a'' ''dir'' 1 (sample_devices full_device, ())
      = Some (Inr ((nullptr, LFS_INVALID_DEVICE), (sample_devices full_device, ())))
   \<and> createMount 0 ''/a'' ''dir'' 16 (sample_devices full_device, ())
      = Some (Inr ((nullptr, LFS_PERMISSIONS_ERROR), (sample_devices full_device, ())))"
proof -
  let ?i = "\<lambda>code. full_device\<lparr>di_create := Some (\<lambda>a p. ret (code, None))\<rparr>"
  have "bit (1 AND supportedPermissions (?i code)) 0" for code
    unfolding bit_and_iff bit_supportedPermissions by simp
  then have "1 AND supportedPermissions (?i code) \<noteq> 0" for code by (metis bit_0_eq bot_apply bot_bool_def)
  then have "\<exists>w'. createMount 0 ''/a'' dp 1 (sample_devices (?i code), ()) = Some (Inr ((nullptr, code), w'))" for code dp
    unfolding create_mount_errors
    by (auto simp: sample_devices_def sample_context_def sample_allocator_def call_alloc_def call_free_def prog_simps)
  moreover have "createMount 1 ''/a'' ''dir'' 1 (sample_devices full_device, ())
      = Some (Inr ((nullptr, LFS_INVALID_DEVICE), (sample_devices full_device, ())))"
    "createMount 0 ''/a'' ''dir'' 16 (sample_devices full_device, ())
      = Some (Inr ((nullptr, LFS_PERMISSIONS_ERROR), (sample_devices full_device, ())))"
    by (simp_all add: create_mount_errors sample_devices_def full_device_def supportedPermissions_def
        mount_permission_values LFS_MOUNT_DEFAULT_def)
  ultimately show ?thesis by blast
qed

lemma mount_round_trip_witness:
  "\<exists>fc1 fc2. createMount 0 ''/a'' ''dir'' 19 (sample_devices full_device, ()) = Some (Inr ((8, LFS_OK), (fc1, ())))
    \<and> releaseMount 8 (fc1, ()) = Some (Inr (True, (fc2, ()))) \<and> fc_mounts fc2 = []"
proof -
  have "can_stop (sample_devices full_device)"
    using sample_ctx_inv [of "[]"] sample_allocator_total
    by (simp add: can_stop_def sample_devices_def ctx_inv_other) (simp add: sample_context_def sem_new_def)
  with mount_round_trip [OF sample_createMount] show ?thesis
    using sample_createMount
    by (fastforce simp: sample_devices_def sample_context_def full_device_def call_ptr_def wp_def ret_def)
qed

end
