(* ===== verification/Interleaving.thy ===== *)
theory Interleaving
  imports Processing
begin

text \<open>
  The client's \<^verbatim>\<open>writeFile\<close> and the processing thread. The operation pushes a segment write and makes it
  a plain write afterwards, when the thread may already have fetched it. The two orders of the same steps
  are compared: what the device is asked to do depends on which comes first.
\<close>

text \<open>The next step of the thread performs the write that is first in the queue.\<close>

lemma processing_step_write:
  assumes "items_inv fc" "fc_processing fc" "fc_processingThread fc = AtLoop" "pending fc = a # rest"
    and "fc_items fc a = Some item" "wi_callback item = nullptr"
    and "wi_operation item \<in> {LFS_OP_WRITE, LFS_OP_WRITE_SEGMENT, LFS_OP_APPEND}"
    and "findMutableMountAndPath (wi_filenameText item) (wi_operation item) (fc_mounts fc) = Some (m, p)"
    and "di_writeFile (mi_interface m) = Some f"
    and "f (mi_device m) p (wi_offset item) (wi_buffer item) (wi_bufferBytes item)
      (write_mode (wi_operation item)) (wi_resultCode item) w = Some (Inr ((n, c), w'))"
  shows "\<exists>fc'. processing_step cbs (fc, w) = Some (Inr (Moved, (fc', w')))
    \<and> fc_items fc' a = Some (item\<lparr>wi_bufferBytes := n, wi_resultCode := c, wi_completed := True\<rparr>)"
proof -
  have "process_item (fc_mounts fc) item w
      = Some (Inr (item\<lparr>wi_bufferBytes := n, wi_resultCode := c\<rparr>, w'))"
    using assms(7-10) by (auto simp: process_item_def process_write_def prog_simps)
  from processing_step_item [OF assms(1-6) this, of cbs] show ?thesis by auto
qed

lemma request_write_fields:
  "wi_offset (request_item fc name (WriteFile path buffer n) cb act ud) = 0"
  "wi_buffer (request_item fc name (WriteFile path buffer n) cb act ud) = buffer"
  "wi_bufferBytes (request_item fc name (WriteFile path buffer n) cb act ud) = n"
  "wi_resultCode (request_item fc name (WriteFile path buffer n) cb act ud) = LFS_OK"
  "wi_operation (request_item fc name (WriteFile path buffer n) cb act ud) = LFS_OP_WRITE"
  "wi_filenameText (request_item fc name (WriteFile path buffer n) cb act ud) = normalize path"
  "wi_callback (request_item fc name (WriteFile path buffer n) cb act ud) = cb"
  "wi_offset (request_item fc name (WriteFileSegment path off buffer n) cb act ud) = off"
  "wi_buffer (request_item fc name (WriteFileSegment path off buffer n) cb act ud) = buffer"
  "wi_bufferBytes (request_item fc name (WriteFileSegment path off buffer n) cb act ud) = n"
  "wi_resultCode (request_item fc name (WriteFileSegment path off buffer n) cb act ud) = LFS_OK"
  "wi_operation (request_item fc name (WriteFileSegment path off buffer n) cb act ud) = LFS_OP_WRITE_SEGMENT"
  "wi_filenameText (request_item fc name (WriteFileSegment path off buffer n) cb act ud) = normalize path"
  "wi_callback (request_item fc name (WriteFileSegment path off buffer n) cb act ud) = cb"
  by (simp_all add: request_item_def prepared_item_def new_work_item_def)

text \<open>The queue had nothing else in it, so the item submitted is the next one.\<close>

lemma submitted_alone:
  assumes "accepted fc req nullptr act ud a fc'" "pending fc = []"
  obtains name where "fc_items fc' a = Some (request_item fc name req nullptr act ud)"
    and "pending fc' = [a]" "items_inv fc'" "fc_mounts fc' = fc_mounts fc"
    and "fc_processing fc' = fc_processing fc" "fc_processingThread fc' = fc_processingThread fc"
  using assms by (auto simp: accepted_def submitted_def)

text \<open>
  C20: how a plain write is done depends on when the processing thread takes it. If the thread takes a step
  only after \<^verbatim>\<open>writeFile\<close> has returned, the device is asked to truncate the file and write; if the step falls
  between the two parts of \<^verbatim>\<open>writeFile\<close>, the device is asked to write a segment of the file, whose old
  content beyond the bytes written stays, and the item ends as a completed plain write all the same.
\<close>

theorem plain_write_depends_on_interleaving:
  assumes "can_submit fc" "fc_processing fc" "fc_processingThread fc = AtLoop" "pending fc = []"
    and "findMutableMountAndPath (normalize path) LFS_OP_WRITE (fc_mounts fc) = Some (m, p)"
    and "findMutableMountAndPath (normalize path) LFS_OP_WRITE_SEGMENT (fc_mounts fc) = Some (m, p)"
    and "di_writeFile (mi_interface m) = Some f"
    and "\<And>mode v. \<exists>n c v'. f (mi_device m) p 0 buffer bytes mode LFS_OK v = Some (Inr ((n, c), v'))"
  shows "(\<exists>a fc1 w1 n c fc2 w2.
      writeFile cbs path buffer bytes (fc, w) = Some (Inr (a, (fc1, w1)))
      \<and> processing_step cbs (fc1, w1) = Some (Inr (Moved, (fc2, w2)))
      \<and> f (mi_device m) p 0 buffer bytes LFS_WRITE_TRUNCATE LFS_OK w1 = Some (Inr ((n, c), w2)))
    \<and> (\<exists>a fc1 w1 n c fc2 w2 fc3.
      writeFileSegment cbs path 0 buffer bytes (fc, w) = Some (Inr (a, (fc1, w1)))
      \<and> processing_step cbs (fc1, w1) = Some (Inr (Moved, (fc2, w2)))
      \<and> f (mi_device m) p 0 buffer bytes LFS_WRITE_SEGMENT LFS_OK w1 = Some (Inr ((n, c), w2))
      \<and> make_plain_write a (fc2, w2) = Some (Inr ((), (fc3, w2)))
      \<and> map_option (\<lambda>it. (wi_operation it, wi_completed it, wi_resultCode it)) (fc_items fc3 a)
          = Some (LFS_OP_WRITE, True, c))"
proof (intro conjI)
  from wp_issue [of "(fc, w)" cbs "WriteFile path buffer bytes"] assms(1)
  obtain a fc1 w1 where i: "writeFile cbs path buffer bytes (fc, w) = Some (Inr (a, (fc1, w1)))"
    and acc: "accepted fc (WriteFile path buffer bytes) nullptr LFS_DO_NOT_FREE_BUFFER nullptr a fc1"
    by (auto simp: wp_iff)
  from acc assms(4) obtain name where it: "fc_items fc1 a = Some (request_item fc name
        (WriteFile path buffer bytes) nullptr LFS_DO_NOT_FREE_BUFFER nullptr)"
    and s: "pending fc1 = [a]" "items_inv fc1" "fc_mounts fc1 = fc_mounts fc"
      "fc_processing fc1 = fc_processing fc" "fc_processingThread fc1 = fc_processingThread fc"
    by (rule submitted_alone)
  obtain n c w2 where f: "f (mi_device m) p 0 buffer bytes LFS_WRITE_TRUNCATE LFS_OK w1 = Some (Inr ((n, c), w2))"
    using assms(8) by blast
  have "\<exists>fc2. processing_step cbs (fc1, w1) = Some (Inr (Moved, (fc2, w2)))"
    using processing_step_write [OF s(2) _ _ s(1) it, of m p f w1 n c w2 cbs] s assms(2,3,5,7) f
    by (auto simp: request_write_fields write_mode_def)
  with i f show "\<exists>a fc1 w1 n c fc2 w2.
      writeFile cbs path buffer bytes (fc, w) = Some (Inr (a, (fc1, w1)))
      \<and> processing_step cbs (fc1, w1) = Some (Inr (Moved, (fc2, w2)))
      \<and> f (mi_device m) p 0 buffer bytes LFS_WRITE_TRUNCATE LFS_OK w1 = Some (Inr ((n, c), w2))" by blast
next
  from wp_issue [of "(fc, w)" cbs "WriteFileSegment path 0 buffer bytes"] assms(1)
  obtain a fc1 w1 where i: "writeFileSegment cbs path 0 buffer bytes (fc, w) = Some (Inr (a, (fc1, w1)))"
    and a: "a \<noteq> nullptr"
    and acc: "accepted fc (WriteFileSegment path 0 buffer bytes) nullptr LFS_DO_NOT_FREE_BUFFER nullptr a fc1"
    by (auto simp: wp_iff)
  from acc assms(4) obtain name where it: "fc_items fc1 a = Some (request_item fc name
        (WriteFileSegment path 0 buffer bytes) nullptr LFS_DO_NOT_FREE_BUFFER nullptr)"
    and s: "pending fc1 = [a]" "items_inv fc1" "fc_mounts fc1 = fc_mounts fc"
      "fc_processing fc1 = fc_processing fc" "fc_processingThread fc1 = fc_processingThread fc"
    by (rule submitted_alone)
  obtain n c w2 where f: "f (mi_device m) p 0 buffer bytes LFS_WRITE_SEGMENT LFS_OK w1 = Some (Inr ((n, c), w2))"
    using assms(8) by blast
  obtain fc2 item where step: "processing_step cbs (fc1, w1) = Some (Inr (Moved, (fc2, w2)))"
    and it2: "fc_items fc2 a = Some (item\<lparr>wi_bufferBytes := n, wi_resultCode := c, wi_completed := True\<rparr>)"
    using processing_step_write [OF s(2) _ _ s(1) it, of m p f w1 n c w2 cbs] s assms(2,3,6,7) f
    by (auto simp: request_write_fields write_mode_def)
  let ?fc3 = "fc2\<lparr>fc_items := (fc_items fc2)(a \<mapsto> item\<lparr>wi_bufferBytes := n, wi_resultCode := c,
    wi_completed := True, wi_operation := LFS_OP_WRITE\<rparr>)\<rparr>"
  have "make_plain_write a (fc2, w2) = Some (Inr ((), (?fc3, w2)))"
    using a it2 by (simp add: make_plain_write_def update_item_def item_at_def fc_get_def fc_set_def prog_simps)
  with i step f show "\<exists>a fc1 w1 n c fc2 w2 fc3.
      writeFileSegment cbs path 0 buffer bytes (fc, w) = Some (Inr (a, (fc1, w1)))
      \<and> processing_step cbs (fc1, w1) = Some (Inr (Moved, (fc2, w2)))
      \<and> f (mi_device m) p 0 buffer bytes LFS_WRITE_SEGMENT LFS_OK w1 = Some (Inr ((n, c), w2))
      \<and> make_plain_write a (fc2, w2) = Some (Inr ((), (fc3, w2)))
      \<and> map_option (\<lambda>it. (wi_operation it, wi_completed it, wi_resultCode it)) (fc_items fc3 a)
          = Some (LFS_OP_WRITE, True, c)"
    by (intro exI [of _ a] exI [of _ fc1] exI [of _ w1] exI [of _ n] exI [of _ c] exI [of _ fc2]
        exI [of _ w2] exI [of _ ?fc3]) simp
qed


lemma plain_write_depends_on_interleaving_witness:
  "\<exists>a fc1 fc2 fc3.
      writeFileSegment no_callbacks ''/f'' 0 40 3 (sample_context
        [sample_mount 8 ''/'' 15\<lparr>mi_interface := full_device\<rparr>] 2, ()) = Some (Inr (a, (fc1, ())))
    \<and> processing_step no_callbacks (fc1, ()) = Some (Inr (Moved, (fc2, ())))
    \<and> make_plain_write a (fc2, ()) = Some (Inr ((), (fc3, ())))
    \<and> map_option (\<lambda>it. (wi_operation it, wi_completed it, wi_resultCode it)) (fc_items fc3 a)
        = Some (LFS_OP_WRITE, True, LFS_OK)"
proof -
  let ?m = "sample_mount 8 ''/'' 15\<lparr>mi_interface := full_device\<rparr>"
  let ?fc = "sample_context [?m] 2"
  let ?f = "\<lambda>d p off b n md c. ret (n, LFS_OK) :: (u64 \<times> lfs_error_code_t, unit) prog"
  have n: "normalize ''/f'' = ''/f''" by code_simp
  have run: "fc_processing ?fc" "fc_processingThread ?fc = AtLoop" "pending ?fc = []" "fc_mounts ?fc = [?m]"
    by (simp_all add: sample_context_def)
  have found: "findMutableMountAndPath (normalize ''/f'') op (fc_mounts ?fc) = Some (?m, ''/f'')"
    if "op = LFS_OP_WRITE \<or> op = LFS_OP_WRITE_SEGMENT" for op
    unfolding run n
    using that
    by (auto simp: findMutableMountAndPath_def sample_mount_def mount_matches_def mount_denies_def
        mount_devicePath_def mount_permission_values bit_simps)
  have f: "di_writeFile (mi_interface ?m) = Some ?f" by (simp add: full_device_def)
  have calls: "\<exists>n c v'. ?f (mi_device ?m) ''/f'' 0 40 3 mode LFS_OK v = Some (Inr ((n, c), v'))" for mode v
    by (simp add: ret_def)
  from plain_write_depends_on_interleaving [OF sample_can_submit run(1-3) found found f calls,
      where cbs = no_callbacks and w = "()"]
  show ?thesis by (auto simp: ret_def)
qed

end
