(* ===== verification/Posix.thy ===== *)
theory Posix
  imports Device_Interface
begin

text \<open>
  The operating system as the directory device sees it. The system calls are a parameter \<open>px\<close>: functions on
  the state of the system, which is left abstract. A call that fails gives the error number, which the C
  library stores in \<^verbatim>\<open>errno\<close>; the device reads it there. The world of a program is the system's state,
  \<^verbatim>\<open>errno\<close>, and the memory blocks that hold file data.
\<close>

type_synonym errno = int

text \<open>The error numbers and flags the code names, with their values on Linux.\<close>

definition EPERM :: errno where "EPERM = 1"
definition ENOENT :: errno where "ENOENT = 2"
definition EINTR :: errno where "EINTR = 4"
definition EACCES :: errno where "EACCES = 13"
definition EEXIST :: errno where "EEXIST = 17"
definition ENOSPC :: errno where "ENOSPC = 28"
definition EROFS :: errno where "EROFS = 30"

definition O_RDONLY :: u32 where "O_RDONLY = 0"
definition O_WRONLY :: u32 where "O_WRONLY = 1"
definition O_CREAT :: u32 where "O_CREAT = 0x40"
definition O_TRUNC :: u32 where "O_TRUNC = 0x200"
definition O_APPEND :: u32 where "O_APPEND = 0x400"

lemmas errno_defs = EPERM_def ENOENT_def EINTR_def EACCES_def EEXIST_def ENOSPC_def EROFS_def

lemmas open_flag_defs = O_RDONLY_def O_WRONLY_def O_CREAT_def O_TRUNC_def O_APPEND_def

datatype file_kind = S_IFREG | S_IFDIR | S_IFOTHER

record stat_info =
  st_kind :: file_kind
  st_size :: u64

datatype whence = SEEK_SET | SEEK_END

datatype fts_info =
    FTS_D | FTS_DEFAULT | FTS_DP | FTS_F | FTS_SL | FTS_SLNONE
  | FTS_DC | FTS_DOT | FTS_NSOK | FTS_NS | FTS_DNR | FTS_ERR

record ftsent =
  fts_info :: fts_info
  fts_accpath :: string
  fts_errno :: errno

text \<open>
  The calls. \<^verbatim>\<open>stat\<close> only reads the system's state. \<^verbatim>\<open>read\<close> gives the bytes it stored,
  \<^verbatim>\<open>write\<close> takes the bytes it is given and says how many it wrote. \<^verbatim>\<open>fts_read\<close> gives no entry with
  error number 0 at the end of the walk.
\<close>

record 'os posix =
  px_stat :: "string \<Rightarrow> 'os \<Rightarrow> errno + stat_info"
  px_open :: "string \<Rightarrow> u32 \<Rightarrow> u32 \<Rightarrow> 'os \<Rightarrow> (errno + int) \<times> 'os"
  px_lseek :: "int \<Rightarrow> u64 \<Rightarrow> whence \<Rightarrow> 'os \<Rightarrow> (errno + u64) \<times> 'os"
  px_read :: "int \<Rightarrow> u64 \<Rightarrow> 'os \<Rightarrow> (errno + u8 list) \<times> 'os"
  px_write :: "int \<Rightarrow> u8 list \<Rightarrow> 'os \<Rightarrow> (errno + u64) \<times> 'os"
  px_close :: "int \<Rightarrow> 'os \<Rightarrow> (errno + unit) \<times> 'os"
  px_unlink :: "string \<Rightarrow> 'os \<Rightarrow> (errno + unit) \<times> 'os"
  px_mkdir :: "string \<Rightarrow> u32 \<Rightarrow> 'os \<Rightarrow> (errno + unit) \<times> 'os"
  px_remove :: "string \<Rightarrow> 'os \<Rightarrow> (errno + unit) \<times> 'os"
  px_fts_open :: "string \<Rightarrow> 'os \<Rightarrow> (errno + addr) \<times> 'os"
  px_fts_read :: "addr \<Rightarrow> 'os \<Rightarrow> (errno + ftsent) \<times> 'os"
  px_fts_close :: "addr \<Rightarrow> 'os \<Rightarrow> (errno + unit) \<times> 'os"

record 'os world =
  w_os :: 'os
  w_errno :: errno
  w_heap :: "addr \<Rightarrow> u8 list option"

text \<open>A system call from C: \<open>None\<close> for the failure value, with \<^verbatim>\<open>errno\<close> set.\<close>

definition syscall :: "('os \<Rightarrow> (errno + 'a) \<times> 'os) \<Rightarrow> ('a option, 'os world) prog" where
  "syscall f w =
     (case f (w_os w) of
        (Inl e, os) \<Rightarrow> Some (Inr (None, w\<lparr>w_os := os, w_errno := e\<rparr>))
      | (Inr x, os) \<Rightarrow> Some (Inr (Some x, w\<lparr>w_os := os\<rparr>)))"

definition get_errno :: "(errno, 'os world) prog" where
  "get_errno = gets w_errno"

definition set_errno :: "errno \<Rightarrow> (unit, 'os world) prog" where
  "set_errno e = modify (\<lambda>w. w\<lparr>w_errno := e\<rparr>)"

text \<open>Stores into a block, and loads from one; a load of no bytes touches no memory.\<close>

definition store_bytes :: "addr \<Rightarrow> nat \<Rightarrow> u8 list \<Rightarrow> (unit, 'os world) prog" where
  "store_bytes p i bs w =
     (if bs = [] then Some (Inr ((), w))
      else case w_heap w p of
        None \<Rightarrow> Some (Inl NullDeref)
      | Some block \<Rightarrow>
          if i + length bs \<le> length block then
            Some (Inr ((), w\<lparr>w_heap := (w_heap w)(p \<mapsto> take i block @ bs @ drop (i + length bs) block)\<rparr>))
          else Some (Inl OutOfBounds))"

definition load_bytes :: "addr \<Rightarrow> nat \<Rightarrow> (u8 list, 'os world) prog" where
  "load_bytes p n w =
     (if n = 0 then Some (Inr ([], w))
      else case w_heap w p of
        None \<Rightarrow> Some (Inl NullDeref)
      | Some block \<Rightarrow>
          if n \<le> length block then Some (Inr (take n block, w)) else Some (Inl OutOfBounds))"

end
