(* ===== verification/Directory_Device.thy ===== *)
theory Directory_Device
  imports Posix Item_Processing Program_Logic
begin

text \<open>
  The directory device of \<^verbatim>\<open>src/device/Directory.cpp\<close>, in its POSIX variant: files are looked up below a
  directory of the host by appending the virtual path to the directory's path. (The Windows variant, chosen
  by the preprocessor, is in \<open>Directory_Win32\<close>.)
\<close>

definition convertError :: "errno \<Rightarrow> lfs_error_code_t" where
  "convertError error =
     (if error = EEXIST then LFS_ALREADY_EXISTS
      else if error = EPERM \<or> error = EACCES then LFS_PERMISSIONS_ERROR
      else if error = EROFS then LFS_UNSUPPORTED
      else if error = ENOENT then LFS_NOT_FOUND
      else if error = ENOSPC then LFS_OUT_OF_SPACE
      else LFS_GENERIC_ERROR)"

record 'os directory_device =
  dd_self :: addr
  dd_alloc :: "'os world lfs_allocator_t"
  dd_devicePathPtr :: addr      \<comment> \<open>the block of the path\<close>
  dd_devicePath :: string
  dd_pathLen :: u32

text \<open>The constructor: the length of the path is cut to 32 bits, and the block is made for that length.\<close>

definition DirectoryDevice_new :: "addr \<Rightarrow> 'os world lfs_allocator_t \<Rightarrow> string
    \<Rightarrow> ('os directory_device, 'os world) prog" where
  "DirectoryDevice_new self allocator path =
     (let pathLen = of_nat (length path) :: u32
      in andThen (call_alloc allocator (ucast (pathLen + 1)) 1) (\<lambda>p.
         if p = nullptr then fail_with NullDeref
         else if unat (pathLen + 1) < length path + 1 then fail_with OutOfBounds
         else ret \<lparr>dd_self = self, dd_alloc = allocator, dd_devicePathPtr = p,
                dd_devicePath = path, dd_pathLen = pathLen\<rparr>))"

definition DirectoryDevice_create :: "'os posix \<Rightarrow> 'os world lfs_allocator_t \<Rightarrow> string
    \<Rightarrow> (lfs_error_code_t \<times> 'os directory_device option, 'os world) prog" where
  "DirectoryDevice_create px alloc path =
     andThen (syscall (\<lambda>os. (px_stat px path os, os))) (\<lambda>result.
     case result of
       Some statInfo \<Rightarrow>
         if st_kind statInfo = S_IFDIR then
           andThen (call_alloc alloc 24 8) (\<lambda>self.
           if self = nullptr then fail_with NullDeref
           else andThen (DirectoryDevice_new self alloc path) (\<lambda>d.
             ret (LFS_OK, Some d)))
         else ret (LFS_NOT_FOUND, None)
     | None \<Rightarrow> ret (LFS_NOT_FOUND, None))"

definition DirectoryDevice_destructor :: "'os directory_device \<Rightarrow> (unit, 'os world) prog" where
  "DirectoryDevice_destructor d = call_free (dd_alloc d) (dd_devicePathPtr d)"

definition DirectoryDevice_destroy :: "'os directory_device \<Rightarrow> (unit, 'os world) prog" where
  "DirectoryDevice_destroy d =
     andThen (DirectoryDevice_destructor d) (\<lambda>_.
     call_free (dd_alloc d) (dd_self d))"

text \<open>
  The path on the host: a fresh block and the characters in it. The two copies are checked against the
  size of the block, which is computed in 32 bits.
\<close>

definition getDevicePath :: "'os directory_device \<Rightarrow> string \<Rightarrow> (addr \<times> string, 'os world) prog" where
  "getDevicePath d filePath =
     (let diskPathLen = ucast (ucast (dd_pathLen d) + of_nat (length filePath) + 1 :: u64) :: u32
      in andThen (call_alloc (dd_alloc d) (ucast diskPathLen) 1) (\<lambda>p.
         if p = nullptr then fail_with NullDeref
         else if unat diskPathLen < length (dd_devicePath d) + 1
              \<or> unat diskPathLen < unat (dd_pathLen d) + length filePath + 1
         then fail_with OutOfBounds
         else ret (p, take (unat (dd_pathLen d)) (dd_devicePath d) @ filePath)))"

definition freeDevicePath :: "'os directory_device \<Rightarrow> addr \<Rightarrow> (unit, 'os world) prog" where
  "freeDevicePath d p = call_free (dd_alloc d) p"

text \<open>
  The loop around a system call that may be interrupted: \<^verbatim>\<open>do x = call; while (x == -1 && errno == EINTR)\<close>.
  It need not end. The file is opened with mode 0644.
\<close>

partial_function (option) retry :: "('a option, 'os world) prog \<Rightarrow> 'os world
    \<Rightarrow> (fault + 'a option \<times> 'os world) option" where
  "retry call w =
     andThen call (\<lambda>x w'.
       if x = None \<and> w_errno w' = EINTR then retry call w' else Some (Inr (x, w'))) w"

definition open_loop :: "'os posix \<Rightarrow> string \<Rightarrow> u32 \<Rightarrow> (int option, 'os world) prog" where
  "open_loop px path flags = retry (syscall (px_open px path flags 0x1A4))"

definition openFile :: "'os posix \<Rightarrow> 'os directory_device \<Rightarrow> string \<Rightarrow> u32
    \<Rightarrow> (int option, 'os world) prog" where
  "openFile px d filePath openFlags =
     andThen (getDevicePath d filePath) (\<lambda>(p, diskPath).
     andThen (open_loop px diskPath openFlags) (\<lambda>file.
     andThen (freeDevicePath d p) (\<lambda>_.
     ret file)))"

definition DirectoryDevice_fileExists :: "'os posix \<Rightarrow> 'os directory_device \<Rightarrow> string
    \<Rightarrow> (bool, 'os world) prog" where
  "DirectoryDevice_fileExists px d filePath =
     andThen (getDevicePath d filePath) (\<lambda>(p, diskPath).
     andThen (syscall (\<lambda>os. (px_stat px diskPath os, os))) (\<lambda>result.
     andThen (freeDevicePath d p) (\<lambda>_.
     ret (case result of Some statInfo \<Rightarrow> st_kind statInfo = S_IFREG | None \<Rightarrow> False))))"

definition DirectoryDevice_fileSize :: "'os posix \<Rightarrow> 'os directory_device \<Rightarrow> string \<Rightarrow> lfs_error_code_t
    \<Rightarrow> (u64 \<times> lfs_error_code_t, 'os world) prog" where
  "DirectoryDevice_fileSize px d filePath outError =
     andThen (getDevicePath d filePath) (\<lambda>(p, diskPath).
     andThen (syscall (\<lambda>os. (px_stat px diskPath os, os))) (\<lambda>result.
     andThen (freeDevicePath d p) (\<lambda>_.
     case result of
       Some statInfo \<Rightarrow>
         if st_kind statInfo = S_IFREG then ret (st_size statInfo, LFS_OK)
         else ret (0, LFS_UNSUPPORTED)
     | None \<Rightarrow> andThen get_errno (\<lambda>e. ret (0, convertError e)))))"


subsection \<open>Reading\<close>

text \<open>
  What the caller of a call that may fail sees: the value \<open>-1\<close> for a failure. The read is tried again while
  it is interrupted; what it gives is stored at the start of the buffer.
\<close>

definition off_result :: "u64 option \<Rightarrow> u64" where
  "off_result r = (case r of None \<Rightarrow> - 1 | Some x \<Rightarrow> x)"

definition read_call :: "'os posix \<Rightarrow> int \<Rightarrow> addr \<Rightarrow> u64 \<Rightarrow> (u64 option, 'os world) prog" where
  "read_call px file buffer n =
     andThen (syscall (px_read px file n)) (\<lambda>r.
     case r of
       None \<Rightarrow> ret None
     | Some bytes \<Rightarrow> andThen (store_bytes buffer 0 bytes) (\<lambda>_. ret (Some (of_nat (length bytes)))))"

text \<open>
  The part after a successful \<^verbatim>\<open>open\<close>. The value \<open>seekedOffset\<close> is that of the comparison, as the source
  has it; an empty file leaves the error code and the buffer as they are.
\<close>

definition read_open_file :: "'os posix \<Rightarrow> int \<Rightarrow> u64 \<Rightarrow> u64 \<Rightarrow> 'os world lfs_allocator_t \<Rightarrow> addr \<Rightarrow> bool
    \<Rightarrow> lfs_error_code_t \<Rightarrow> (u64 \<times> addr \<times> lfs_error_code_t, 'os world) prog" where
  "read_open_file px file offset maxBytes alloc buffer nullTerminate outError =
     andThen (syscall (px_lseek px file 0 SEEK_END)) (\<lambda>e.
     let fileSize = off_result e in
     if fileSize = - 1 then
       andThen get_errno (\<lambda>en.
       andThen (syscall (px_close px file)) (\<lambda>_.
       ret (0, buffer, convertError en)))
     else if fileSize \<noteq> 0 then
       andThen (syscall (px_lseek px file offset SEEK_SET)) (\<lambda>s.
       let seekedOffset = (if off_result s = offset then 1 else 0 :: u64) in
       if seekedOffset \<noteq> - 1 then
         let n = min (fileSize - offset) maxBytes in
         andThen (call_alloc alloc (n + (if nullTerminate then 1 else 0)) 1) (\<lambda>buffer.
         if buffer \<noteq> nullptr then
           andThen (retry (read_call px file buffer n)) (\<lambda>bytes.
           case bytes of
             None \<Rightarrow>
               andThen (call_free alloc buffer) (\<lambda>_.
               andThen get_errno (\<lambda>en.
               andThen (syscall (px_close px file)) (\<lambda>_.
               ret (0, nullptr, convertError en))))
           | Some bytesRead \<Rightarrow>
               andThen (if nullTerminate then store_bytes buffer (unat bytesRead) [0] else ret ()) (\<lambda>_.
               andThen (syscall (px_close px file)) (\<lambda>_.
               ret (bytesRead, buffer, LFS_OK))))
         else
           andThen (syscall (px_close px file)) (\<lambda>_.
           ret (0, nullptr, LFS_OK)))
       else
         andThen get_errno (\<lambda>en.
         andThen (syscall (px_close px file)) (\<lambda>_.
         ret (0, buffer, convertError en))))
     else
       andThen (syscall (px_close px file)) (\<lambda>_.
       ret (0, buffer, outError)))"

definition DirectoryDevice_readFile :: "'os posix \<Rightarrow> 'os directory_device \<Rightarrow> string \<Rightarrow> u64 \<Rightarrow> u64
    \<Rightarrow> 'os world lfs_allocator_t \<Rightarrow> addr \<Rightarrow> bool \<Rightarrow> lfs_error_code_t
    \<Rightarrow> (u64 \<times> addr \<times> lfs_error_code_t, 'os world) prog" where
  "DirectoryDevice_readFile px d filePath offset maxBytes alloc buffer nullTerminate outError =
     andThen (openFile px d filePath O_RDONLY) (\<lambda>file.
     case file of
       Some fd \<Rightarrow> read_open_file px fd offset maxBytes alloc buffer nullTerminate outError
     | None \<Rightarrow> andThen get_errno (\<lambda>en. ret (0, buffer, convertError en)))"

subsection \<open>Writing\<close>

fun openFlags_of_mode :: "lfs_write_mode_t \<Rightarrow> u32" where
  "openFlags_of_mode LFS_WRITE_TRUNCATE = O_TRUNC"
| "openFlags_of_mode LFS_WRITE_APPEND = O_APPEND"
| "openFlags_of_mode LFS_WRITE_SEGMENT = 0"

definition write_call :: "'os posix \<Rightarrow> int \<Rightarrow> addr \<Rightarrow> u64 \<Rightarrow> (u64 option, 'os world) prog" where
  "write_call px file buffer n =
     andThen (load_bytes buffer (unat n)) (\<lambda>bytes. syscall (px_write px file bytes))"

definition DirectoryDevice_writeFile :: "'os posix \<Rightarrow> 'os directory_device \<Rightarrow> string \<Rightarrow> u64 \<Rightarrow> addr \<Rightarrow> u64
    \<Rightarrow> lfs_write_mode_t \<Rightarrow> lfs_error_code_t \<Rightarrow> (u64 \<times> lfs_error_code_t, 'os world) prog" where
  "DirectoryDevice_writeFile px d filePath offset buffer bytesToWrite writeMode outError =
     andThen (openFile px d filePath (or (or O_WRONLY O_CREAT) (openFlags_of_mode writeMode))) (\<lambda>file.
     case file of
       Some fd \<Rightarrow>
         andThen (syscall (px_lseek px fd offset SEEK_SET)) (\<lambda>s.
         if off_result s = offset then
           andThen (retry (write_call px fd buffer bytesToWrite)) (\<lambda>bytes.
           case bytes of
             None \<Rightarrow>
               andThen get_errno (\<lambda>en.
               andThen (syscall (px_close px fd)) (\<lambda>_.
               ret (0, convertError en)))
           | Some bytesWritten \<Rightarrow>
               andThen (syscall (px_close px fd)) (\<lambda>_.
               ret (bytesWritten, LFS_OK)))
         else
           andThen get_errno (\<lambda>en.
           andThen (syscall (px_close px fd)) (\<lambda>_.
           ret (0, convertError en))))
     | None \<Rightarrow> andThen get_errno (\<lambda>en. ret (0, convertError en)))"


subsection \<open>Deleting files, and directories\<close>

definition DirectoryDevice_deleteFile :: "'os posix \<Rightarrow> 'os directory_device \<Rightarrow> string
    \<Rightarrow> (lfs_error_code_t, 'os world) prog" where
  "DirectoryDevice_deleteFile px d filePath =
     andThen (getDevicePath d filePath) (\<lambda>(p, diskPath).
     andThen (syscall (px_unlink px diskPath)) (\<lambda>r.
     andThen (if r = None then andThen get_errno (\<lambda>en. ret (convertError en)) else ret LFS_OK) (\<lambda>resultCode.
     andThen (freeDevicePath d p) (\<lambda>_.
     ret resultCode))))"

text \<open>The mode of a new directory is \<^verbatim>\<open>DEFFILEMODE | S_IXUSR | S_IXGRP | S_IRWXO\<close>, that is, 0777.\<close>

definition DirectoryDevice_createDir :: "'os posix \<Rightarrow> 'os directory_device \<Rightarrow> string
    \<Rightarrow> (lfs_error_code_t, 'os world) prog" where
  "DirectoryDevice_createDir px d path =
     andThen (getDevicePath d path) (\<lambda>(p, diskPath).
     andThen (syscall (px_mkdir px diskPath 0x1FF)) (\<lambda>r.
     andThen (if r = None then andThen get_errno (\<lambda>en. ret (convertError en)) else ret LFS_OK) (\<lambda>resultCode.
     andThen (freeDevicePath d p) (\<lambda>_.
     ret resultCode))))"

text \<open>One entry of the walk: what it does, and whether it failed.\<close>

definition delete_entry :: "'os posix \<Rightarrow> ftsent \<Rightarrow> (bool, 'os world) prog" where
  "delete_entry px ent =
     (case fts_info ent of
        FTS_D \<Rightarrow> ret False
      | FTS_DEFAULT \<Rightarrow> andThen (syscall (px_remove px (fts_accpath ent))) (\<lambda>r. ret (r = None))
      | FTS_DP \<Rightarrow> andThen (syscall (px_remove px (fts_accpath ent))) (\<lambda>r. ret (r = None))
      | FTS_F \<Rightarrow> andThen (syscall (px_remove px (fts_accpath ent))) (\<lambda>r. ret (r = None))
      | FTS_SL \<Rightarrow> andThen (syscall (px_remove px (fts_accpath ent))) (\<lambda>r. ret (r = None))
      | FTS_SLNONE \<Rightarrow> andThen (syscall (px_remove px (fts_accpath ent))) (\<lambda>r. ret (r = None))
      | FTS_DC \<Rightarrow> ret False
      | FTS_DOT \<Rightarrow> ret False
      | FTS_NSOK \<Rightarrow> ret False
      | FTS_NS \<Rightarrow> andThen (set_errno (fts_errno ent)) (\<lambda>_. ret True)
      | FTS_DNR \<Rightarrow> andThen (set_errno (fts_errno ent)) (\<lambda>_. ret True)
      | FTS_ERR \<Rightarrow> andThen (set_errno (fts_errno ent)) (\<lambda>_. ret True))"

partial_function (option) delete_walk :: "'os posix \<Rightarrow> addr \<Rightarrow> 'os world
    \<Rightarrow> (fault + bool \<times> 'os world) option" where
  "delete_walk px fts w =
     andThen (syscall (px_fts_read px fts)) (\<lambda>ent.
       case ent of
         None \<Rightarrow> ret False
       | Some e \<Rightarrow> andThen (delete_entry px e) (\<lambda>error w'.
           if error then Some (Inr (True, w')) else delete_walk px fts w')) w"

definition DirectoryDevice_deleteDir :: "'os posix \<Rightarrow> 'os directory_device \<Rightarrow> string
    \<Rightarrow> (lfs_error_code_t, 'os world) prog" where
  "DirectoryDevice_deleteDir px d path =
     andThen (getDevicePath d path) (\<lambda>(p, diskPath).
     andThen (syscall (px_fts_open px diskPath)) (\<lambda>fts.
     andThen (case fts of
         None \<Rightarrow> ret False
       | Some h \<Rightarrow>
           andThen (delete_walk px h) (\<lambda>failed.
           andThen get_errno (\<lambda>en.
           andThen (syscall (px_fts_close px h)) (\<lambda>_.
           ret (failed \<or> en \<noteq> 0))))) (\<lambda>error.
     andThen (if error then andThen get_errno (\<lambda>en. ret (convertError en)) else ret LFS_OK) (\<lambda>resultCode.
     andThen (freeDevicePath d p) (\<lambda>_.
     ret resultCode)))))"

text \<open>The interface the context registers for device type 0.\<close>

definition directory_interface :: "'os posix \<Rightarrow> ('os directory_device, 'os world) device_interface" where
  "directory_interface px = \<lparr>
     di_create = Some (DirectoryDevice_create px),
     di_destroy = Some DirectoryDevice_destroy,
     di_fileExists = Some (DirectoryDevice_fileExists px),
     di_fileSize = Some (DirectoryDevice_fileSize px),
     di_readFile = Some (DirectoryDevice_readFile px),
     di_writeFile = Some (DirectoryDevice_writeFile px),
     di_deleteFile = Some (DirectoryDevice_deleteFile px),
     di_createDir = Some (DirectoryDevice_createDir px),
     di_deleteDir = Some (DirectoryDevice_deleteDir px)\<rparr>"

lemma directory_interface_pointers: "required_pointers (directory_interface px)"
  by (simp add: required_pointers_def directory_interface_def)


subsection \<open>What the device relies on\<close>

text \<open>
  An allocator that always has memory, and whose functions leave the system and (for \<^verbatim>\<open>free\<close>) \<^verbatim>\<open>errno\<close>
  alone; and a path short enough that its length with the device's path fits in 32 bits.
\<close>

definition steady_allocator :: "'os world lfs_allocator_t \<Rightarrow> bool" where
  "steady_allocator a \<longleftrightarrow>
     (\<forall>n k w. \<exists>p w'. call_alloc a n k w = Some (Inr (p, w')) \<and> p \<noteq> nullptr \<and> w_os w' = w_os w)
     \<and> (\<forall>p w. \<exists>w'. call_free a p w = Some (Inr ((), w')) \<and> w_os w' = w_os w \<and> w_errno w' = w_errno w)"

definition servable_path :: "'os directory_device \<Rightarrow> string \<Rightarrow> bool" where
  "servable_path d p \<longleftrightarrow> steady_allocator (dd_alloc d)
     \<and> unat (dd_pathLen d) = length (dd_devicePath d)
     \<and> length (dd_devicePath d) + length p + 1 < 2 ^ 32"

lemma steady_allocE:
  assumes "steady_allocator a"
  obtains p w' where "call_alloc a n k w = Some (Inr (p, w'))" "p \<noteq> nullptr" "w_os w' = w_os w"
  using assms unfolding steady_allocator_def by blast

lemma steady_freeE:
  assumes "steady_allocator a"
  obtains w' where "call_free a p w = Some (Inr ((), w'))" "w_os w' = w_os w" "w_errno w' = w_errno w"
  using assms unfolding steady_allocator_def by blast

lemma diskPathLen_exact:
  fixes n :: u32
  assumes "unat n + m + 1 < 2 ^ 32"
  shows "unat (ucast (ucast n + of_nat m + 1 :: u64) :: u32) = unat n + m + 1"
proof -
  have eq: "(ucast n + of_nat m + 1 :: u64) = of_nat (unat n + m + 1)"
    by (simp add: of_nat_unat)
  from assms have "take_bit 32 (unat n + m + 1) = unat n + m + 1"
    by (simp add: take_bit_nat_eq_self_iff)
  moreover have "unat (of_nat k :: u64) = k" if "k < 2 ^ 32" for k
    using that by (simp add: unat_of_nat take_bit_nat_eq_self_iff)
  with assms have "unat (of_nat (unat n + m + 1) :: u64) = unat n + m + 1" by blast
  moreover have "unat (ucast x :: u32) = take_bit 32 (unat x)" for x :: u64
    by (simp add: unsigned_ucast_eq unsigned_take_bit_eq)
  ultimately show ?thesis
    unfolding eq by presburger
qed

lemma getDevicePath_exact:
  assumes "servable_path d p"
  obtains q w' where "getDevicePath d p w = Some (Inr ((q, dd_devicePath d @ p), w'))"
    and "w_os w' = w_os w"
proof -
  let ?n = "ucast (ucast (dd_pathLen d) + of_nat (length p) + 1 :: u64) :: u32"
  from assms have steady: "steady_allocator (dd_alloc d)"
    and len: "unat (dd_pathLen d) = length (dd_devicePath d)"
    and fits: "unat (dd_pathLen d) + length p + 1 < 2 ^ 32"
    by (auto simp: servable_path_def)
  obtain q w' where call: "call_alloc (dd_alloc d) (ucast ?n) 1 w = Some (Inr (q, w'))"
    and q: "q \<noteq> nullptr" "w_os w' = w_os w"
    using steady by (rule steady_allocE)
  have "unat ?n = unat (dd_pathLen d) + length p + 1"
    using fits by (rule diskPathLen_exact)
  with call q len have "getDevicePath d p w = Some (Inr ((q, dd_devicePath d @ p), w'))"
    by (simp add: getDevicePath_def Let_def prog_simps)
  with q that show thesis by blast
qed


subsection \<open>The directory device can be probed\<close>

lemma convertError_not_OK: "convertError e \<noteq> LFS_OK"
  by (simp add: convertError_def)

definition status_of_stat :: "errno + stat_info \<Rightarrow> path_status" where
  "status_of_stat r =
     (case r of
        Inl e \<Rightarrow> if convertError e = LFS_NOT_FOUND then Missing else Refused (convertError e)
      | Inr st \<Rightarrow> if st_kind st = S_IFREG then FileOf (st_size st) else Refused LFS_UNSUPPORTED)"

definition directory_status :: "'os posix \<Rightarrow> 'os world \<Rightarrow> 'os directory_device \<Rightarrow> string \<Rightarrow> path_status" where
  "directory_status px w d p = status_of_stat (px_stat px (dd_devicePath d @ p) (w_os w))"

lemma stat_between_alloc_and_free:
  fixes k :: "stat_info option \<Rightarrow> ('r, 'os world) prog"
  assumes "servable_path d p"
  obtains w' where "andThen (getDevicePath d p) (\<lambda>(q, diskPath).
      andThen (syscall (\<lambda>os. (px_stat px diskPath os, os))) (\<lambda>r.
      andThen (freeDevicePath d q) (\<lambda>_. k r))) w
      = k (case px_stat px (dd_devicePath d @ p) (w_os w) of Inl e \<Rightarrow> None | Inr st \<Rightarrow> Some st) w'"
    and "w_os w' = w_os w"
    and "\<And>e. px_stat px (dd_devicePath d @ p) (w_os w) = Inl e \<Longrightarrow> w_errno w' = e"
proof -
  obtain q w1 where path: "getDevicePath d p w = Some (Inr ((q, dd_devicePath d @ p), w1))"
    and w1: "w_os w1 = w_os w" using assms by (rule getDevicePath_exact)
  let ?r = "px_stat px (dd_devicePath d @ p) (w_os w)"
  let ?w2 = "case ?r of Inl e \<Rightarrow> w1\<lparr>w_os := w_os w, w_errno := e\<rparr> | Inr _ \<Rightarrow> w1\<lparr>w_os := w_os w\<rparr>"
  have steady: "steady_allocator (dd_alloc d)" using assms by (simp add: servable_path_def)
  then obtain w3 where free: "call_free (dd_alloc d) q ?w2 = Some (Inr ((), w3))" "w_os w3 = w_os ?w2"
      "w_errno w3 = w_errno ?w2"
    by (rule steady_freeE)
  show thesis
    by (cases ?r; rule that [of w3])
      (use path w1 free in \<open>simp_all add: freeDevicePath_def syscall_def prog_simps\<close>)
qed

lemma directory_fileExists:
  assumes "servable_path d p"
  shows "\<exists>w'. DirectoryDevice_fileExists px d p w
      = Some (Inr (is_file (directory_status px w d p), w')) \<and> w_os w' = w_os w"
proof -
  let ?r = "px_stat px (dd_devicePath d @ p) (w_os w)"
  obtain w' where "DirectoryDevice_fileExists px d p w
      = ret (case case ?r of Inl e \<Rightarrow> None | Inr st \<Rightarrow> Some st of
               Some st \<Rightarrow> st_kind st = S_IFREG | None \<Rightarrow> False) w'"
    and "w_os w' = w_os w"
    unfolding DirectoryDevice_fileExists_def
    using assms by (rule stat_between_alloc_and_free)
  then show ?thesis
    by (cases ?r) (auto simp: prog_simps directory_status_def status_of_stat_def is_file_def)
qed

lemma directory_fileSize:
  assumes "servable_path d p"
  shows "\<exists>w'. DirectoryDevice_fileSize px d p c w
      = Some (Inr (size_of_status (directory_status px w d p), w')) \<and> w_os w' = w_os w"
proof -
  let ?r = "px_stat px (dd_devicePath d @ p) (w_os w)"
  obtain w' where "DirectoryDevice_fileSize px d p c w
      = (case case ?r of Inl e \<Rightarrow> None | Inr st \<Rightarrow> Some st of
           Some st \<Rightarrow> if st_kind st = S_IFREG then ret (st_size st, LFS_OK) else ret (0, LFS_UNSUPPORTED)
         | None \<Rightarrow> andThen get_errno (\<lambda>e. ret (0, convertError e))) w'"
    and "w_os w' = w_os w" and "\<And>e. ?r = Inl e \<Longrightarrow> w_errno w' = e"
    unfolding DirectoryDevice_fileSize_def
    using stat_between_alloc_and_free [OF assms, where px = px and w = w and k = "\<lambda>r. case r of
        Some st \<Rightarrow> if st_kind st = S_IFREG then ret (st_size st, LFS_OK) else ret (0, LFS_UNSUPPORTED)
      | None \<Rightarrow> andThen get_errno (\<lambda>e. ret (0, convertError e))"] by blast
  then show ?thesis
    by (cases ?r) (auto simp: prog_simps get_errno_def directory_status_def status_of_stat_def)
qed

interpretation dir: probing_device "directory_interface px" servable_path "directory_status px"
  for px :: "'os posix"
proof
  show "\<exists>f. di_fileExists (directory_interface px) = Some f \<and>
      (\<exists>w'. f d p w = Some (Inr (is_file (directory_status px w d p), w'))
         \<and> directory_status px w' = directory_status px w)" if "servable_path d p" for d p w
    using directory_fileExists [OF that, of px w]
    by (auto simp: directory_interface_def directory_status_def fun_eq_iff)
  show "\<exists>f. di_fileSize (directory_interface px) = Some f \<and>
      (\<exists>w'. f d p c w = Some (Inr (size_of_status (directory_status px w d p), w'))
         \<and> directory_status px w' = directory_status px w)" if "servable_path d p" for d p c w
    using directory_fileSize [OF that, of px c w]
    by (auto simp: directory_interface_def directory_status_def fun_eq_iff)
  show "e \<noteq> LFS_OK \<and> e \<noteq> LFS_NOT_FOUND" if "directory_status px w d p = Refused e" for w d p e
    using that convertError_not_OK
    by (auto simp: directory_status_def status_of_stat_def split: sum.splits if_splits)
qed

end
