(* ===== verification/Memory_System.thy ===== *)
theory Memory_System
  imports Directory_Device "HOL-Library.AList"
begin

text \<open>
  A small system in memory, with regular files, directories and one open file, and an allocator, to apply
  the properties of the directory device to. It is an instance of the parameter \<open>px\<close> of the model, no
  part of the program.
\<close>

record memory_os =
  mo_files :: "(string \<times> u8 list) list"
  mo_dirs :: "string list"
  mo_path :: string          \<comment> \<open>the file that is open\<close>
  mo_pos :: nat

definition ENOTDIR :: errno where "ENOTDIR = 20"
definition ENOTEMPTY :: errno where "ENOTEMPTY = 39"

definition content_of :: "memory_os \<Rightarrow> string \<Rightarrow> u8 list" where
  "content_of os path = (case map_of (mo_files os) path of None \<Rightarrow> [] | Some bs \<Rightarrow> bs)"

definition below_file :: "memory_os \<Rightarrow> string \<Rightarrow> bool" where
  "below_file os path = list_ex (\<lambda>(f, bs). take (length f + 1) path = f @ [slash]) (mo_files os)"

definition no_such :: "memory_os \<Rightarrow> string \<Rightarrow> errno" where
  "no_such os path = (if below_file os path then ENOTDIR else ENOENT)"

definition mem_stat :: "string \<Rightarrow> memory_os \<Rightarrow> errno + stat_info" where
  "mem_stat path os =
     (case map_of (mo_files os) path of
        Some bs \<Rightarrow> Inr \<lparr>st_kind = S_IFREG, st_size = of_nat (length bs)\<rparr>
      | None \<Rightarrow> if path \<in> set (mo_dirs os) then Inr \<lparr>st_kind = S_IFDIR, st_size = 4096\<rparr>
          else Inl (no_such os path))"

definition mem_open :: "string \<Rightarrow> u32 \<Rightarrow> u32 \<Rightarrow> memory_os \<Rightarrow> (errno + int) \<times> memory_os" where
  "mem_open path flags mode os =
     (if map_of (mo_files os) path \<noteq> None then
        (Inr 3, os\<lparr>mo_path := path, mo_pos := 0,
           mo_files := if and flags O_TRUNC \<noteq> 0 then AList.update path [] (mo_files os) else mo_files os\<rparr>)
      else if and flags O_CREAT \<noteq> 0 \<and> path \<notin> set (mo_dirs os) \<and> \<not> below_file os path then
        (Inr 3, os\<lparr>mo_path := path, mo_pos := 0, mo_files := AList.update path [] (mo_files os)\<rparr>)
      else (Inl (no_such os path), os))"

definition mem_lseek :: "int \<Rightarrow> u64 \<Rightarrow> whence \<Rightarrow> memory_os \<Rightarrow> (errno + u64) \<times> memory_os" where
  "mem_lseek fd off wh os =
     (let pos = (case wh of SEEK_SET \<Rightarrow> unat off | SEEK_END \<Rightarrow> length (content_of os (mo_path os)) + unat off)
      in (Inr (of_nat pos), os\<lparr>mo_pos := pos\<rparr>))"

definition mem_read :: "int \<Rightarrow> u64 \<Rightarrow> memory_os \<Rightarrow> (errno + u8 list) \<times> memory_os" where
  "mem_read fd n os =
     (let bs = take (unat n) (drop (mo_pos os) (content_of os (mo_path os)))
      in (Inr bs, os\<lparr>mo_pos := mo_pos os + length bs\<rparr>))"

definition mem_write :: "int \<Rightarrow> u8 list \<Rightarrow> memory_os \<Rightarrow> (errno + u64) \<times> memory_os" where
  "mem_write fd bs os =
     (let old = content_of os (mo_path os); pos = mo_pos os;
          new = take pos old @ replicate (pos - length old) 0 @ bs @ drop (pos + length bs) old
      in (Inr (of_nat (length bs)),
          os\<lparr>mo_files := AList.update (mo_path os) new (mo_files os), mo_pos := pos + length bs\<rparr>))"

definition mem_unlink :: "string \<Rightarrow> memory_os \<Rightarrow> (errno + unit) \<times> memory_os" where
  "mem_unlink path os =
     (if map_of (mo_files os) path \<noteq> None then (Inr (), os\<lparr>mo_files := AList.delete path (mo_files os)\<rparr>)
      else (Inl (no_such os path), os))"

definition mem_mkdir :: "string \<Rightarrow> u32 \<Rightarrow> memory_os \<Rightarrow> (errno + unit) \<times> memory_os" where
  "mem_mkdir path mode os =
     (if map_of (mo_files os) path \<noteq> None \<or> path \<in> set (mo_dirs os) then (Inl EEXIST, os)
      else (Inr (), os\<lparr>mo_dirs := path # mo_dirs os\<rparr>))"

text \<open>The walk of a directory tree cannot be started: the system has no memory for it.\<close>

definition mem_posix :: "memory_os posix" where
  "mem_posix = \<lparr>px_stat = mem_stat, px_open = mem_open, px_lseek = mem_lseek, px_read = mem_read,
     px_write = mem_write, px_close = (\<lambda>fd os. (Inr (), os)), px_unlink = mem_unlink, px_mkdir = mem_mkdir,
     px_remove = mem_unlink, px_fts_open = (\<lambda>p os. (Inl 12, os)), px_fts_read = (\<lambda>h os. (Inl 0, os)),
     px_fts_close = (\<lambda>h os. (Inr (), os))\<rparr>"

text \<open>An allocator with one block for each of two alignments.\<close>

definition mem_allocator :: "'os world lfs_allocator_t" where
  "mem_allocator = \<lparr>
     al_alloc = Some (\<lambda>n k w. let p = (if k = 8 then 0x2000 else 0x1000) in
       Some (Inr (p, w\<lparr>w_heap := (w_heap w)(p \<mapsto> replicate (unat n) 0)\<rparr>))),
     al_free = Some (\<lambda>p w. Some (Inr ((), w\<lparr>w_heap := (w_heap w)(p := None)\<rparr>)))\<rparr>"

lemma mem_allocator_steady [simp]: "steady_allocator mem_allocator"
  by (auto simp: steady_allocator_def mem_allocator_def call_alloc_def call_free_def call_ptr_def Let_def)

definition mem_world :: "(string \<times> u8 list) list \<Rightarrow> string list \<Rightarrow> memory_os world" where
  "mem_world files dirs = \<lparr>w_os = \<lparr>mo_files = files, mo_dirs = dirs, mo_path = [], mo_pos = 0\<rparr>,
     w_errno = 0, w_heap = Map.empty\<rparr>"

definition mem_device :: "string \<Rightarrow> memory_os directory_device" where
  "mem_device path = \<lparr>dd_self = 0x2000, dd_alloc = mem_allocator, dd_devicePathPtr = 0x1000,
     dd_devicePath = path, dd_pathLen = of_nat (length path)\<rparr>"

lemmas mem_posix_simps = mem_posix_def mem_stat_def mem_open_def mem_lseek_def mem_read_def mem_write_def
  mem_unlink_def mem_mkdir_def content_of_def no_such_def below_file_def

lemmas mem_simps = mem_posix_simps mem_world_def mem_device_def ENOTDIR_def errno_defs open_flag_defs

end
