(* ===== verification/Null_Calls.thy ===== *)
theory Null_Calls
  imports Memory_System
begin

text \<open>
  Calls through null function pointers: which pointers the processing of an item calls, in the interfaces of
  the devices and in the allocators, and why they are there. The contract of a device is a locale, interpreted
  on the directory device.
\<close>

subsection \<open>Programs that call no null pointer\<close>

definition clean :: "('a, 'w) prog \<Rightarrow> bool" where
  "clean p \<longleftrightarrow> (\<forall>w. p w \<noteq> Some (Inl NullCall))"

named_theorems cleaning \<open>programs that call no null pointer\<close>

lemma clean_ret [cleaning]: "clean (ret x)"
  and clean_fail [cleaning]: "e \<noteq> NullCall \<Longrightarrow> clean (fail_with e)"
  and clean_gets [cleaning]: "clean (gets f)"
  by (simp_all add: clean_def prog_simps)

lemma clean_andThen [cleaning]: "clean m \<Longrightarrow> (\<And>x. clean (k x)) \<Longrightarrow> clean (andThen m k)"
  by (auto simp: clean_def andThen_def split: option.splits sum.splits)

lemma clean_if [cleaning]: "clean m \<Longrightarrow> clean m' \<Longrightarrow> clean (if b then m else m')"
  by simp

lemma clean_case_option [cleaning]:
  "clean m \<Longrightarrow> (\<And>x. clean (k x)) \<Longrightarrow> clean (case r of None \<Rightarrow> m | Some x \<Rightarrow> k x)"
  by (cases r) simp_all

lemma clean_case_prod [cleaning]: "(\<And>x y. clean (k x y)) \<Longrightarrow> clean (case r of (x, y) \<Rightarrow> k x y)"
  by (cases r) simp

lemma clean_call_ptr: "fp \<noteq> None \<Longrightarrow> (\<And>f. fp = Some f \<Longrightarrow> clean (k f)) \<Longrightarrow> clean (call_ptr fp k)"
  by (auto simp: call_ptr_def)

text \<open>An allocator both of whose functions are there and call no null pointers themselves.\<close>

definition usable_allocator :: "'w lfs_allocator_t \<Rightarrow> bool" where
  "usable_allocator a \<longleftrightarrow> (\<forall>n k. clean (call_alloc a n k)) \<and> (\<forall>p. clean (call_free a p))"

lemma usable_allocator_pointers: "usable_allocator a \<Longrightarrow> al_alloc a \<noteq> None \<and> al_free a \<noteq> None"
  by (cases "al_alloc a"; cases "al_free a")
    (auto simp: usable_allocator_def clean_def call_alloc_def call_free_def prog_simps)

subsection \<open>The contract of a device\<close>

text \<open>
  The operations a device has call no null pointers, for devices that are \<open>sound\<close>; a read is given a usable
  allocator.
\<close>

locale calling_device =
  fixes di :: "('d, 'w) device_interface"
    and sound :: "'d \<Rightarrow> bool"
  assumes exists_clean: "sound d \<Longrightarrow> di_fileExists di = Some f \<Longrightarrow> clean (f d p)"
    and size_clean: "sound d \<Longrightarrow> di_fileSize di = Some g \<Longrightarrow> clean (g d p c)"
    and read_clean: "sound d \<Longrightarrow> di_readFile di = Some r \<Longrightarrow> usable_allocator al \<Longrightarrow>
      clean (r d p off n al buf nt c)"
    and write_clean: "sound d \<Longrightarrow> di_writeFile di = Some h \<Longrightarrow> clean (h d p off buf n mode c)"
    and deleteFile_clean: "sound d \<Longrightarrow> di_deleteFile di = Some s \<Longrightarrow> clean (s d p)"
    and createDir_clean: "sound d \<Longrightarrow> di_createDir di = Some s \<Longrightarrow> clean (s d p)"
    and deleteDir_clean: "sound d \<Longrightarrow> di_deleteDir di = Some s \<Longrightarrow> clean (s d p)"
begin

lemma required_calls_clean:
  assumes "sound d" "required_pointers di"
  shows "clean (call_ptr (di_fileExists di) (\<lambda>f. f d p))"
    and "clean (call_ptr (di_fileSize di) (\<lambda>f. f d p c))"
    and "usable_allocator al \<Longrightarrow> clean (call_ptr (di_readFile di) (\<lambda>f. f d p off n al buf nt c))"
  using assms by (auto simp: required_pointers_def prog_simps intro: exists_clean size_clean read_clean)

lemma optional_calls_clean:
  assumes "sound d"
  shows "di_writeFile di \<noteq> None \<Longrightarrow> clean (call_ptr (di_writeFile di) (\<lambda>f. f d p off buf n mode c))"
    and "di_deleteFile di \<noteq> None \<Longrightarrow> clean (call_ptr (di_deleteFile di) (\<lambda>f. f d p))"
    and "di_createDir di \<noteq> None \<Longrightarrow> clean (call_ptr (di_createDir di) (\<lambda>f. f d p))"
    and "di_deleteDir di \<noteq> None \<Longrightarrow> clean (call_ptr (di_deleteDir di) (\<lambda>f. f d p))"
  using assms
  by (auto simp: prog_simps intro: write_clean deleteFile_clean createDir_clean deleteDir_clean)

end

definition good_mount :: "('d \<Rightarrow> bool) \<Rightarrow> ('d, 'w) mount_info \<Rightarrow> bool" where
  "good_mount sound m \<longleftrightarrow> supported m \<and> calling_device (mi_interface m) sound \<and> sound (mi_device m)"

lemma good_mount_calls:
  assumes "good_mount sound m"
  shows "clean (call_ptr (di_fileExists (mi_interface m)) (\<lambda>f. f (mi_device m) p))"
    and "clean (call_ptr (di_fileSize (mi_interface m)) (\<lambda>f. f (mi_device m) p c))"
    and "usable_allocator a \<Longrightarrow> clean (call_ptr (di_readFile (mi_interface m)) (\<lambda>f. f (mi_device m) p off n a b nt c))"
    and "permits LFS_OP_WRITE (mi_permissions m)
      \<Longrightarrow> clean (call_ptr (di_writeFile (mi_interface m)) (\<lambda>f. f (mi_device m) p off b n md c))"
    and "permits LFS_OP_DELETE (mi_permissions m)
      \<Longrightarrow> clean (call_ptr (di_deleteFile (mi_interface m)) (\<lambda>f. f (mi_device m) p))"
    and "permits LFS_OP_CREATE_DIR (mi_permissions m)
      \<Longrightarrow> clean (call_ptr (di_createDir (mi_interface m)) (\<lambda>f. f (mi_device m) p))"
    and "permits LFS_OP_DELETE_DIR (mi_permissions m)
      \<Longrightarrow> clean (call_ptr (di_deleteDir (mi_interface m)) (\<lambda>f. f (mi_device m) p))"
proof -
  from assms have m: "supported m" and dev: "calling_device (mi_interface m) sound" "sound (mi_device m)"
    by (simp_all add: good_mount_def)
  note required = calling_device.required_calls_clean [OF dev] and optional = calling_device.optional_calls_clean [OF dev]
  show "clean (call_ptr (di_fileExists (mi_interface m)) (\<lambda>f. f (mi_device m) p))"
    and "clean (call_ptr (di_fileSize (mi_interface m)) (\<lambda>f. f (mi_device m) p c))"
    and "usable_allocator a \<Longrightarrow> clean (call_ptr (di_readFile (mi_interface m)) (\<lambda>f. f (mi_device m) p off n a b nt c))"
    using m by (simp_all add: supported_def required)
  show "permits LFS_OP_WRITE (mi_permissions m)
      \<Longrightarrow> clean (call_ptr (di_writeFile (mi_interface m)) (\<lambda>f. f (mi_device m) p off b n md c))"
    and "permits LFS_OP_DELETE (mi_permissions m)
      \<Longrightarrow> clean (call_ptr (di_deleteFile (mi_interface m)) (\<lambda>f. f (mi_device m) p))"
    and "permits LFS_OP_CREATE_DIR (mi_permissions m)
      \<Longrightarrow> clean (call_ptr (di_createDir (mi_interface m)) (\<lambda>f. f (mi_device m) p))"
    and "permits LFS_OP_DELETE_DIR (mi_permissions m)
      \<Longrightarrow> clean (call_ptr (di_deleteDir (mi_interface m)) (\<lambda>f. f (mi_device m) p))"
    using m optional by (simp_all add: supported_def)
qed

lemma clean_ask_exists: "\<forall>m \<in> set ms. good_mount sound m \<Longrightarrow> clean (ask_exists path ms)"
  by (induction ms) (auto intro!: cleaning good_mount_calls)

lemma clean_ask_size: "\<forall>m \<in> set ms. good_mount sound m \<Longrightarrow> clean (ask_size path b c ms)"
  by (induction ms arbitrary: b c) (auto intro!: cleaning good_mount_calls)

lemma clean_ask_read:
  "\<forall>m \<in> set ms. good_mount sound m \<Longrightarrow> usable_allocator (wi_allocator it) \<Longrightarrow> clean (ask_read it n b f c ms)"
  by (induction ms arbitrary: b f c) (auto intro!: cleaning good_mount_calls)

subsection \<open>The directory device\<close>

lemma clean_host [cleaning]:
  "clean (syscall f)" "clean get_errno" "clean (set_errno e)" "clean (store_bytes p i bs)" "clean (load_bytes p n)"
  by (auto simp: clean_def syscall_def get_errno_def set_errno_def store_bytes_def load_bytes_def gets_def modify_def
      split: option.split sum.split prod.split)

lemma clean_retry [cleaning]:
  fixes call :: "('a option, 'b world) prog"
  assumes "clean call"
  shows "clean (retry call)"
proof -
  have "clean call \<longrightarrow> y \<noteq> Inl NullCall" if "retry call w = Some y" for w y
  proof (rule retry.raw_induct [where P = "\<lambda>call w y. clean call \<longrightarrow> y \<noteq> Inl NullCall", OF _ that])
    fix f :: "('a option, 'b world) prog \<Rightarrow> 'b world \<Rightarrow> (fault + 'a option \<times> 'b world) option" and call w y
    assume IH: "\<And>call w y. f call w = Some y \<Longrightarrow> clean call \<longrightarrow> y \<noteq> Inl NullCall"
      and step: "andThen call (\<lambda>x w'. if x = None \<and> w_errno w' = EINTR then f call w' else Some (Inr (x, w'))) w = Some y"
    from step IH [of call _ "Inl NullCall"] show "clean call \<longrightarrow> y \<noteq> Inl NullCall"
      by (auto simp: andThen_def clean_def split: option.splits sum.splits if_splits)
  qed
  with assms show ?thesis by (auto simp: clean_def)
qed

lemma clean_delete_entry [cleaning]: "clean (delete_entry px e)"
  unfolding delete_entry_def by (cases "fts_info e") (auto intro!: cleaning)

lemma clean_delete_walk [cleaning]: "clean (delete_walk px fts)"
proof -
  have "y \<noteq> Inl NullCall" if "delete_walk px fts w = Some y" for w y
  proof (rule delete_walk.raw_induct [where P = "\<lambda>px fts w y. y \<noteq> Inl NullCall", OF _ that])
    fix f and px :: "'a posix" and fts w y
    assume IH: "\<And>px fts w y. f px fts w = Some y \<Longrightarrow> y \<noteq> Inl NullCall"
      and step: "andThen (syscall (px_fts_read px fts)) (\<lambda>ent. case ent of None \<Rightarrow> ret False
        | Some e \<Rightarrow> andThen (delete_entry px e) (\<lambda>error w'.
            if error then Some (Inr (True, w')) else f px fts w')) w = Some y"
    have "clean (syscall (px_fts_read px fts))" "clean (delete_entry px e)" for e
      by (rule cleaning)+
    with step IH [of px fts _ "Inl NullCall"] show "y \<noteq> Inl NullCall"
      by (auto simp: andThen_def clean_def ret_def split: option.splits sum.splits if_splits)
  qed
  then show ?thesis by (auto simp: clean_def)
qed

lemma usable_calls:
  assumes "usable_allocator a"
  shows "clean (call_alloc a n k)" "clean (call_free a p)"
  using assms by (simp_all add: usable_allocator_def)

lemma directory_clean:
  assumes "usable_allocator (dd_alloc d)"
  shows "clean (openFile px d p flags)"
    and "clean (DirectoryDevice_fileExists px d p)"
    and "clean (DirectoryDevice_fileSize px d p c)"
    and "clean (DirectoryDevice_deleteFile px d p)"
    and "clean (DirectoryDevice_createDir px d p)"
    and "clean (DirectoryDevice_deleteDir px d p)"
  unfolding openFile_def open_loop_def DirectoryDevice_fileExists_def DirectoryDevice_fileSize_def
    DirectoryDevice_deleteFile_def DirectoryDevice_createDir_def DirectoryDevice_deleteDir_def
    freeDevicePath_def getDevicePath_def Let_def
  by (intro cleaning usable_calls [OF assms]; simp)+

lemma directory_transfer_clean:
  assumes "usable_allocator (dd_alloc d)"
  shows "clean (DirectoryDevice_writeFile px d p offset buffer n mode c)"
    and "usable_allocator al \<Longrightarrow> clean (DirectoryDevice_readFile px d p offset m al buffer nt c)"
  unfolding DirectoryDevice_writeFile_def write_call_def DirectoryDevice_readFile_def read_open_file_def read_call_def
    Let_def
  by (intro cleaning directory_clean(1) [OF assms] usable_calls; simp)+

interpretation directory_calls: calling_device "directory_interface px" "\<lambda>d. usable_allocator (dd_alloc d)"
  for px :: "'os posix"
  by unfold_locales (auto simp: directory_interface_def directory_clean directory_transfer_clean)

subsection \<open>Properties\<close>


text \<open>Two mounted directories, one of them read-only, and an item for any operation but a segment write.\<close>

definition two_directories :: "(memory_os directory_device, memory_os world) mount_info list" where
  "two_directories = map (\<lambda>(self, point, perm). \<lparr>mi_self = self, mi_prefix = point, mi_prefixPtr = self + 8,
      mi_device = mem_device ''/a'', mi_interface = directory_interface mem_posix,
      mi_prefixLen = of_nat (length point), mi_permissions = perm\<rparr>)
    [(0x10, ''/'', LFS_MOUNT_READ), (0x20, ''/b'', 31)]"


end
