(* ===== verification/Directory_Overlay.thy ===== *)
theory Directory_Overlay
  imports Memory_System
begin

text \<open>
  The overlay of mounted directories: what a lookup through the mount table finds on the host. Every mount
  is a directory device; the mounts a virtual path is visible in are asked from the newest to the oldest.
\<close>

text \<open>The path of the host that a virtual path stands for in a mount.\<close>

abbreviation host_path :: "string \<Rightarrow> ('os directory_device, 'os world) mount_info \<Rightarrow> string" where
  "host_path path m \<equiv> dd_devicePath (mi_device m) @ mount_devicePath path m"

definition host_status :: "'os posix \<Rightarrow> 'os \<Rightarrow> string \<Rightarrow> ('os directory_device, 'os world) mount_info
    \<Rightarrow> path_status" where
  "host_status px os path m =
     status_of_stat (px_stat px (host_path path m) os)"

definition directory_mount :: "'os posix \<Rightarrow> string \<Rightarrow> ('os directory_device, 'os world) mount_info \<Rightarrow> bool" where
  "directory_mount px path m \<longleftrightarrow>
     mi_interface m = directory_interface px \<and> servable_path (mi_device m) (mount_devicePath path m)"

lemma statuses_host:
  "dir.statuses px w path ms = map (host_status px (w_os w) path) ms"
  by (simp add: dir.statuses_def directory_status_def host_status_def)

lemma host_status_unchanged:
  "directory_status px w' = directory_status px w \<Longrightarrow> host_status px (w_os w') = host_status px (w_os w)"
proof (intro ext)
  fix path and m :: "('a directory_device, 'a world) mount_info"
  assume eq: "directory_status px w' = directory_status px w"
  show "host_status px (w_os w') path m = host_status px (w_os w) path m"
    using fun_cong [OF fun_cong [OF eq], of "mi_device m" "mount_devicePath path m"]
    by (simp add: directory_status_def host_status_def)
qed

lemma process_exists_overlay:
  assumes "mounts_ok mounts" "\<forall>m \<in> set mounts. directory_mount px (wi_filenameText item) m"
    and "wi_operation item = LFS_OP_EXISTS"
  shows "\<exists>w'. process_item mounts item w = Some (Inr (item\<lparr>wi_resultCode :=
        if \<exists>m \<in> set (visible_mounts (wi_filenameText item) mounts).
             is_file (host_status px (w_os w) (wi_filenameText item) m)
        then LFS_OK else LFS_NOT_FOUND\<rparr>, w'))
    \<and> host_status px (w_os w') = host_status px (w_os w)"
proof -
  let ?path = "wi_filenameText item"
  have "\<forall>m \<in> set (visible_mounts ?path mounts). mi_interface m = directory_interface px
      \<and> servable_path (mi_device m) (mount_devicePath ?path m)"
    using assms(2) visible_mounts_subset [of ?path mounts] by (auto simp: directory_mount_def)
  from dir.ask_exists_status [OF this, of w] assms(3) show ?thesis
    by (auto simp: process_item_def process_exists_def loops_ask [OF assms(1)] prog_simps
        statuses_host dest: host_status_unchanged)
qed

text \<open>
  C12: an existence query over mounted directories is answered with \<^verbatim>\<open>LFS_OK\<close> exactly when some mount
  the path is visible in has a regular file there, and with \<^verbatim>\<open>LFS_NOT_FOUND\<close> otherwise; it changes
  nothing of the item but the code, and no file of the host.
\<close>

theorem exists_in_overlay:
  assumes "mounts_ok mounts" "\<forall>m \<in> set mounts. directory_mount px (wi_filenameText item) m"
    and "wi_operation item = LFS_OP_EXISTS"
  shows "\<exists>w'. process_item mounts item w = Some (Inr (item\<lparr>wi_resultCode :=
        if \<exists>m \<in> set (visible_mounts (wi_filenameText item) mounts).
             is_file (host_status px (w_os w) (wi_filenameText item) m)
        then LFS_OK else LFS_NOT_FOUND\<rparr>, w'))
    \<and> host_status px (w_os w') = host_status px (w_os w)"
  using assms by (rule process_exists_overlay)

text \<open>
  C13: a size query over mounted directories is answered by the newest visible mount that has anything at
  the path: with the size of the regular file there, or with the error of that mount, which hides the
  mounts below it; if no mount has anything, the answer is \<^verbatim>\<open>LFS_NOT_FOUND\<close>.
\<close>

theorem size_in_overlay:
  assumes "mounts_ok mounts" "\<forall>m \<in> set mounts. directory_mount px (wi_filenameText item) m"
    and "wi_operation item = LFS_OP_SIZE"
  shows "\<exists>w' bytes code. process_item mounts item w
      = Some (Inr (item\<lparr>wi_bufferBytes := bytes, wi_resultCode := code\<rparr>, w'))
    \<and> (bytes, code) = size_of_status (first_status
        (map (host_status px (w_os w) (wi_filenameText item)) (visible_mounts (wi_filenameText item) mounts)))
    \<and> host_status px (w_os w') = host_status px (w_os w)"
proof -
  let ?path = "wi_filenameText item"
  let ?st = "first_status (map (host_status px (w_os w) ?path) (visible_mounts ?path mounts))"
  have "\<forall>m \<in> set (visible_mounts ?path mounts). mi_interface m = directory_interface px
      \<and> servable_path (mi_device m) (mount_devicePath ?path m)"
    using assms(2) visible_mounts_subset [of ?path mounts] by (auto simp: directory_mount_def)
  from dir.ask_size_status [OF this, of w] obtain w' where
    ask: "ask_size ?path 0 LFS_NOT_FOUND (visible_mounts ?path mounts) w
      = Some (Inr (size_of_status ?st, w'))" and st: "directory_status px w' = directory_status px w"
    by (auto simp: statuses_host)
  obtain b c where "size_of_status ?st = (b, c)" by fastforce
  with ask assms(3) host_status_unchanged [OF st] show ?thesis
    by (auto simp: process_item_def process_size_def loops_ask [OF assms(1)] prog_simps)
qed


text \<open>Two directories of the memory system mounted at the root, \<open>/b\<close> over \<open>/a\<close>.\<close>

definition root_mount :: "addr \<Rightarrow> string \<Rightarrow> (memory_os directory_device, memory_os world) mount_info" where
  "root_mount self dir =
     \<lparr>mi_self = self, mi_prefix = ''/'', mi_prefixPtr = self + 8, mi_device = mem_device dir,
      mi_interface = directory_interface mem_posix, mi_prefixLen = 1, mi_permissions = LFS_MOUNT_READ\<rparr>"

definition two_mounts :: "(memory_os directory_device, memory_os world) mount_info list" where
  "two_mounts = [root_mount 0x10 ''/a'', root_mount 0x20 ''/b'']"

lemma two_mounts_ok: "mounts_ok two_mounts"
  by (simp add: two_mounts_def root_mount_def mounts_ok_def mount_ok_def)

lemma two_mounts_directory:
  "length path < 100 \<Longrightarrow> \<forall>m \<in> set two_mounts. directory_mount mem_posix path m"
  by (simp add: two_mounts_def root_mount_def directory_mount_def servable_path_def mem_device_def
      mount_devicePath_def)

lemma two_mounts_visible:
  "visible_mounts (slash # path) two_mounts = rev two_mounts"
  by (simp add: two_mounts_def root_mount_def visible_mounts_def readable_def mount_matches_def
      mount_permission_values)

lemma two_mounts_status:
  "map (host_status mem_posix os (slash # path)) (rev two_mounts)
    = [status_of_stat (mem_stat (''/b'' @ slash # path) os), status_of_stat (mem_stat (''/a'' @ slash # path) os)]"
  by (simp add: two_mounts_def root_mount_def host_status_def mem_device_def mem_posix_def
      mount_devicePath_def)

lemma exists_in_overlay_witness:
  "\<exists>w'. process_item two_mounts (new_work_item\<lparr>wi_filenameText := ''/f'', wi_operation := LFS_OP_EXISTS\<rparr>)
      (mem_world [(''/a/f'', [1, 2, 3])] [''/a'', ''/b''])
    = Some (Inr (new_work_item\<lparr>wi_filenameText := ''/f'', wi_operation := LFS_OP_EXISTS,
        wi_resultCode := LFS_OK\<rparr>, w'))"
proof -
  let ?w = "mem_world [(''/a/f'', [1, 2, 3])] [''/a'', ''/b'']"
  let ?it = "new_work_item\<lparr>wi_filenameText := ''/f'', wi_operation := LFS_OP_EXISTS\<rparr>"
  have "map (host_status mem_posix (w_os ?w) ''/f'') (rev two_mounts) = [Missing, FileOf 3]"
    using two_mounts_status [of "w_os ?w" "''f''"]
    by (simp add: mem_simps status_of_stat_def convertError_def)
  then have "\<exists>m \<in> set (visible_mounts ''/f'' two_mounts). is_file (host_status mem_posix (w_os ?w) ''/f'' m)"
    using two_mounts_visible [of "''f''"]
    by (auto simp: two_mounts_def is_file_def)
  then show ?thesis
    using exists_in_overlay [OF two_mounts_ok two_mounts_directory, of ?it ?w]
    by auto
qed

text \<open>
  Existence and size can disagree. When the newest visible mount answers for the path with an error
  other than \<^verbatim>\<open>LFS_NOT_FOUND\<close> (on Linux, when a component of the path is a regular file there), an
  older mount that has the file makes the existence query succeed while the size query fails.
\<close>

theorem exists_and_size_disagree:
  assumes "mounts_ok mounts" "\<forall>m \<in> set mounts. directory_mount px path m"
    and "visible_mounts path mounts = newest # older"
    and "host_status px (w_os w) path newest = Refused e"
    and "older_mount \<in> set older" "host_status px (w_os w) path older_mount = FileOf n"
  shows "\<exists>w' w''.
      process_item mounts (item\<lparr>wi_filenameText := path, wi_operation := LFS_OP_EXISTS\<rparr>) w
        = Some (Inr (item\<lparr>wi_filenameText := path, wi_operation := LFS_OP_EXISTS, wi_resultCode := LFS_OK\<rparr>, w'))
    \<and> process_item mounts (item\<lparr>wi_filenameText := path, wi_operation := LFS_OP_SIZE\<rparr>) w
        = Some (Inr (item\<lparr>wi_filenameText := path, wi_operation := LFS_OP_SIZE, wi_bufferBytes := 0,
            wi_resultCode := e\<rparr>, w''))"
proof -
  have vis: "\<forall>m \<in> set (newest # older). mi_interface m = directory_interface px
      \<and> servable_path (mi_device m) (mount_devicePath path m)"
    using assms(2) visible_mounts_subset [of path mounts] assms(3) by (auto simp: directory_mount_def)
  have "\<exists>st \<in> set (dir.statuses px w path (newest # older)). is_file st"
    using assms(5,6) by (force simp: statuses_host is_file_def)
  then obtain w1 where "ask_exists path (newest # older) w = Some (Inr (LFS_OK, w1))"
    using dir.ask_exists_status [OF vis, of w] by auto
  moreover obtain w2 where "ask_size path 0 LFS_NOT_FOUND (newest # older) w = Some (Inr ((0, e), w2))"
    using dir.ask_size_status [OF vis, of w] assms(4) by (auto simp: statuses_host)
  ultimately show ?thesis
    by (simp add: process_item_def process_exists_def process_size_def loops_ask [OF assms(1)] assms(3)
        prog_simps)
qed

lemma exists_and_size_disagree_witness:
  "\<exists>w' w''.
      process_item two_mounts (new_work_item\<lparr>wi_filenameText := ''/x/y'', wi_operation := LFS_OP_EXISTS\<rparr>)
        (mem_world [(''/a/x/y'', [1, 2]), (''/b/x'', [])] [''/a'', ''/b'', ''/a/x''])
      = Some (Inr (new_work_item\<lparr>wi_filenameText := ''/x/y'', wi_operation := LFS_OP_EXISTS,
          wi_resultCode := LFS_OK\<rparr>, w'))
    \<and> process_item two_mounts (new_work_item\<lparr>wi_filenameText := ''/x/y'', wi_operation := LFS_OP_SIZE\<rparr>)
        (mem_world [(''/a/x/y'', [1, 2]), (''/b/x'', [])] [''/a'', ''/b'', ''/a/x''])
      = Some (Inr (new_work_item\<lparr>wi_filenameText := ''/x/y'', wi_operation := LFS_OP_SIZE,
          wi_bufferBytes := 0, wi_resultCode := LFS_GENERIC_ERROR\<rparr>, w''))"
proof -
  let ?w = "mem_world [(''/a/x/y'', [1, 2]), (''/b/x'', [])] [''/a'', ''/b'', ''/a/x'']"
  have st: "map (host_status mem_posix (w_os ?w) ''/x/y'') (rev two_mounts)
      = [Refused LFS_GENERIC_ERROR, FileOf 2]"
    using two_mounts_status [of "w_os ?w" "''x/y''"]
    by (simp add: mem_simps status_of_stat_def convertError_def)
  have vis: "visible_mounts ''/x/y'' two_mounts = [root_mount 0x20 ''/b'', root_mount 0x10 ''/a'']"
    using two_mounts_visible [of "''x/y''"] by (simp add: two_mounts_def)
  show ?thesis
    using st
    by (intro exists_and_size_disagree [OF two_mounts_ok two_mounts_directory vis,
          where older_mount = "root_mount 0x10 ''/a''" and n = 2])
      (simp_all add: two_mounts_def)
qed

lemma size_in_overlay_witness:
  "\<exists>w' bytes code.
      process_item two_mounts (new_work_item\<lparr>wi_filenameText := ''/f'', wi_operation := LFS_OP_SIZE\<rparr>)
        (mem_world [(''/a/f'', [1, 2, 3])] [''/a'', ''/b''])
      = Some (Inr (new_work_item\<lparr>wi_filenameText := ''/f'', wi_operation := LFS_OP_SIZE,
          wi_bufferBytes := bytes, wi_resultCode := code\<rparr>, w'))
    \<and> bytes = 3 \<and> code = LFS_OK"
proof -
  let ?w = "mem_world [(''/a/f'', [1, 2, 3])] [''/a'', ''/b'']"
  let ?it = "new_work_item\<lparr>wi_filenameText := ''/f'', wi_operation := LFS_OP_SIZE\<rparr>"
  have "map (host_status mem_posix (w_os ?w) ''/f'') (rev two_mounts) = [Missing, FileOf 3]"
    using two_mounts_status [of "w_os ?w" "''f''"]
    by (simp add: mem_simps status_of_stat_def convertError_def)
  then show ?thesis
    using size_in_overlay [OF two_mounts_ok two_mounts_directory, of ?it ?w] two_mounts_visible [of "''f''"]
    by (auto)
qed

end
