(* ===== verification/Directory_Files.thy ===== *)
theory Directory_Files
  imports Memory_System
begin

text \<open>
  What the operations of the directory device do to files, given what the system calls do: the calls
  repeated while they are interrupted, the data that is read and written, and the walk that deletes a
  directory.
\<close>

subsection \<open>Interrupted calls\<close>

text \<open>The world after \<open>n\<close> interrupted calls in a row; \<open>None\<close> when fewer are interrupted.\<close>

fun interruptions :: "('a option, 'os world) prog \<Rightarrow> nat \<Rightarrow> 'os world \<Rightarrow> 'os world option" where
  "interruptions call 0 w = Some w"
| "interruptions call (Suc n) w =
     (case call w of
        Some (Inr (None, w')) \<Rightarrow> if w_errno w' = EINTR then interruptions call n w' else None
      | _ \<Rightarrow> None)"

lemma retry_after:
  "interruptions call n w = Some w' \<Longrightarrow> retry call w = retry call w'"
proof (induction n arbitrary: w)
  case 0
  then show ?case by simp
next
  case (Suc n)
  then obtain w1 where "call w = Some (Inr (None, w1))" "w_errno w1 = EINTR"
    "interruptions call n w1 = Some w'"
    by (auto split: option.splits sum.splits if_splits)
  with Suc.IH show ?case by (simp add: retry.simps [of call w] prog_simps)
qed

lemma retry_done:
  "call w = Some (Inr (x, w')) \<Longrightarrow> x \<noteq> None \<or> w_errno w' \<noteq> EINTR \<Longrightarrow> retry call w = Some (Inr (x, w'))"
  by (auto simp: retry.simps [of call w] prog_simps)

lemma retry_fault: "call w = Some (Inl e) \<Longrightarrow> retry call w = Some (Inl e)"
  by (simp add: retry.simps [of call w] prog_simps)

lemma retry_interrupted:
  assumes "retry call w = Some y"
  shows "\<exists>n. interruptions call n w = None"
proof (rule retry.raw_induct [where P = "\<lambda>call w y. \<exists>n. interruptions call n w = None", OF _ assms])
  fix f :: "('a option, 'os world) prog \<Rightarrow> 'os world \<Rightarrow> (fault + 'a option \<times> 'os world) option"
    and call w y
  assume IH: "\<And>call w y. f call w = Some y \<Longrightarrow> \<exists>n. interruptions call n w = None"
    and step: "andThen call (\<lambda>x w'. if x = None \<and> w_errno w' = EINTR then f call w'
      else Some (Inr (x, w'))) w = Some y"
  show "\<exists>n. interruptions call n w = None"
  proof (cases "call w")
    case None
    then show ?thesis by (intro exI [of _ 1]) simp
  next
    case (Some r)
    show ?thesis
    proof (cases "\<exists>w'. r = Inr (None, w') \<and> w_errno w' = EINTR")
      case True
      then obtain w' where r: "r = Inr (None, w')" "w_errno w' = EINTR" by blast
      with step Some have "f call w' = Some y" by (simp add: prog_simps)
      from IH [OF this] obtain n where "interruptions call n w' = None" by blast
      with r Some show ?thesis by (intro exI [of _ "Suc n"]) simp
    next
      case False
      with Some show ?thesis
        by (intro exI [of _ 1]) (auto split: sum.splits option.splits)
    qed
  qed
qed

lemma retry_ends_iff:
  assumes "\<And>w. call w \<noteq> None"
  shows "retry call w \<noteq> None \<longleftrightarrow> (\<exists>n. interruptions call n w = None)"
proof
  show "retry call w \<noteq> None" if "\<exists>n. interruptions call n w = None"
  proof -
    from that obtain n where "interruptions call n w = None" by blast
    then show ?thesis
    proof (induction n arbitrary: w)
      case 0
      then show ?case by simp
    next
      case (Suc n)
      from assms [of w] obtain r where r: "call w = Some r" by blast
      show ?case
      proof (cases "\<exists>w'. r = Inr (None, w') \<and> w_errno w' = EINTR")
        case True
        with Suc r show ?thesis by (auto simp: retry.simps [of call w] prog_simps)
      next
        case False
        with r show ?thesis
          by (cases r) (auto simp: retry_fault intro!: retry_done dest: retry_done)
      qed
    qed
  qed
qed (auto dest: retry_interrupted)

lemma syscall_total: "syscall f w \<noteq> None"
  by (simp add: syscall_def split: prod.split sum.split)

text \<open>
  C32: opening a file repeats the system call exactly as long as it is interrupted: the loop ends if and only
  if some call is not interrupted, and its result is the result of that call.
\<close>

theorem open_retries_while_interrupted:
  "(open_loop px path flags w \<noteq> None
     \<longleftrightarrow> (\<exists>n. interruptions (syscall (px_open px path flags 0x1A4)) n w = None))
   \<and> (\<forall>n w'. interruptions (syscall (px_open px path flags 0x1A4)) n w = Some w'
     \<longrightarrow> fst (px_open px path flags 0x1A4 (w_os w')) \<noteq> Inl EINTR
     \<longrightarrow> open_loop px path flags w = syscall (px_open px path flags 0x1A4) w')"
proof (intro conjI allI impI)
  show "open_loop px path flags w \<noteq> None
     \<longleftrightarrow> (\<exists>n. interruptions (syscall (px_open px path flags 0x1A4)) n w = None)"
    unfolding open_loop_def by (rule retry_ends_iff) (rule syscall_total)
next
  fix n w'
  assume "interruptions (syscall (px_open px path flags 0x1A4)) n w = Some w'"
    and "fst (px_open px path flags 0x1A4 (w_os w')) \<noteq> Inl EINTR"
  then show "open_loop px path flags w = syscall (px_open px path flags 0x1A4) w'"
    by (auto simp: open_loop_def retry_after syscall_def intro!: retry_done
        split: prod.splits sum.splits)
qed

text \<open>A system whose \<^verbatim>\<open>open\<close> is interrupted \<open>k\<close> times; its state counts the calls.\<close>

definition interrupting_posix :: "nat \<Rightarrow> nat posix" where
  "interrupting_posix k = \<lparr>px_stat = (\<lambda>p os. Inl ENOENT),
     px_open = (\<lambda>p f m os. (if os < k then Inl EINTR else Inr 3, os + 1)),
     px_lseek = (\<lambda>fd off wh os. (Inr off, os)), px_read = (\<lambda>fd n os. (Inr [], os)),
     px_write = (\<lambda>fd bs os. (Inr (of_nat (length bs)), os)), px_close = (\<lambda>fd os. (Inr (), os)),
     px_unlink = (\<lambda>p os. (Inr (), os)), px_mkdir = (\<lambda>p m os. (Inr (), os)), px_remove = (\<lambda>p os. (Inr (), os)),
     px_fts_open = (\<lambda>p os. (Inl 12, os)), px_fts_read = (\<lambda>h os. (Inl 0, os)),
     px_fts_close = (\<lambda>h os. (Inr (), os))\<rparr>"

lemma open_retries_while_interrupted_witness:
  "open_loop (interrupting_posix 2) ''/f'' 0 \<lparr>w_os = 0, w_errno = 0, w_heap = Map.empty\<rparr>
    = Some (Inr (Some 3, \<lparr>w_os = 3, w_errno = EINTR, w_heap = Map.empty\<rparr>))"
proof -
  let ?w = "\<lparr>w_os = 0, w_errno = 0, w_heap = Map.empty\<rparr> :: nat world"
  have "interruptions (syscall (px_open (interrupting_posix 2) ''/f'' 0 0x1A4)) 2 ?w
      = Some \<lparr>w_os = 2, w_errno = EINTR, w_heap = Map.empty\<rparr>"
    by (simp add: numeral_2_eq_2 interrupting_posix_def syscall_def)
  then show ?thesis
    using open_retries_while_interrupted [of "interrupting_posix 2" "''/f''" 0 ?w]
    by (auto simp: interrupting_posix_def syscall_def)
qed

subsection \<open>Opening\<close>

text \<open>
  A block of the caller the device's allocator leaves alone: it gives other blocks, and frees other blocks.
\<close>

definition leaves_alone :: "'os world lfs_allocator_t \<Rightarrow> addr \<Rightarrow> bool" where
  "leaves_alone a q \<longleftrightarrow>
     (\<forall>n k w p w'. call_alloc a n k w = Some (Inr (p, w')) \<longrightarrow> p \<noteq> q \<and> w_heap w' q = w_heap w q)
     \<and> (\<forall>p w w'. p \<noteq> q \<longrightarrow> call_free a p w = Some (Inr ((), w')) \<longrightarrow> w_heap w' q = w_heap w q)"

lemma mem_allocator_leaves_alone: "leaves_alone mem_allocator 0x3000"
  by (auto simp: leaves_alone_def mem_allocator_def call_alloc_def call_free_def call_ptr_def Let_def
      split: if_splits)

lemma getDevicePath_block:
  assumes "getDevicePath d p w = Some (Inr ((q, path), w'))" "leaves_alone (dd_alloc d) b"
  shows "q \<noteq> b" "w_heap w' b = w_heap w b"
  using assms
  by (auto simp: getDevicePath_def leaves_alone_def Let_def prog_simps dest!: andThen_returnD split: if_splits)

lemma openFile_result:
  assumes "servable_path d p" "px_open px (dd_devicePath d @ p) flags 0x1A4 (w_os w) = (r, os)"
    and "r \<noteq> Inl EINTR"
  obtains w' where "openFile px d p flags w
      = Some (Inr (case r of Inl e \<Rightarrow> None | Inr fd \<Rightarrow> Some fd, w'))"
    and "w_os w' = os" and "\<And>e. r = Inl e \<Longrightarrow> w_errno w' = e"
    and "\<And>b. leaves_alone (dd_alloc d) b \<Longrightarrow> w_heap w' b = w_heap w b"
proof -
  obtain q w1 where path: "getDevicePath d p w = Some (Inr ((q, dd_devicePath d @ p), w1))"
    and w1: "w_os w1 = w_os w" using assms(1) by (rule getDevicePath_exact)
  let ?w2 = "case r of Inl e \<Rightarrow> w1\<lparr>w_os := os, w_errno := e\<rparr> | Inr _ \<Rightarrow> w1\<lparr>w_os := os\<rparr>"
  have "syscall (px_open px (dd_devicePath d @ p) flags 0x1A4) w1
      = Some (Inr (case r of Inl e \<Rightarrow> None | Inr fd \<Rightarrow> Some fd, ?w2))"
    using assms(2) w1 by (simp add: syscall_def split: sum.split)
  then have loop: "open_loop px (dd_devicePath d @ p) flags w1
      = Some (Inr (case r of Inl e \<Rightarrow> None | Inr fd \<Rightarrow> Some fd, ?w2))"
    unfolding open_loop_def using assms(3) by (rule_tac retry_done) (auto split: sum.splits)
  have "steady_allocator (dd_alloc d)" using assms(1) by (simp add: servable_path_def)
  then obtain w3 where w3: "call_free (dd_alloc d) q ?w2 = Some (Inr ((), w3))" "w_os w3 = w_os ?w2"
      "w_errno w3 = w_errno ?w2"
    by (rule steady_freeE)
  have "w_heap w3 b = w_heap w b" if "leaves_alone (dd_alloc d) b" for b
  proof -
    have "w_heap ?w2 = w_heap w1" by (simp split: sum.split)
    with getDevicePath_block [OF path that] w3(1) that show ?thesis
      unfolding leaves_alone_def by metis
  qed
  with w3 show thesis
    by (intro that [of w3])
      (use path loop in \<open>auto simp: openFile_def freeDevicePath_def prog_simps split: sum.splits\<close>)
qed


subsection \<open>Reading\<close>

text \<open>The allocator of a read gives blocks of the size asked for.\<close>

definition gives_blocks :: "'os world lfs_allocator_t \<Rightarrow> bool" where
  "gives_blocks a \<longleftrightarrow>
     (\<forall>n k w. \<exists>q w' block. call_alloc a n k w = Some (Inr (q, w')) \<and> q \<noteq> nullptr \<and> w_os w' = w_os w
        \<and> w_heap w' q = Some block \<and> length block = unat n)"

lemma gives_blocksE:
  assumes "gives_blocks a"
  obtains q w' block where "call_alloc a n k w = Some (Inr (q, w'))" "q \<noteq> nullptr" "w_os w' = w_os w"
    "w_heap w' q = Some block" "length block = unat n"
  using assms unfolding gives_blocks_def by blast

lemma mem_allocator_gives_blocks [simp]: "gives_blocks mem_allocator"
  by (auto simp: gives_blocks_def mem_allocator_def call_alloc_def call_ptr_def Let_def)

lemma syscall_Inr: "f (w_os w) = (Inr x, os) \<Longrightarrow> syscall f w = Some (Inr (Some x, w\<lparr>w_os := os\<rparr>))"
  by (simp add: syscall_def)

lemma syscall_Inl: "f (w_os w) = (Inl e, os) \<Longrightarrow> syscall f w = Some (Inr (None, w\<lparr>w_os := os, w_errno := e\<rparr>))"
  by (simp add: syscall_def)

lemma syscall_returns:
  obtains x w' where "syscall f w = Some (Inr (x, w'))" "w_heap w' = w_heap w" "w_os w' = snd (f (w_os w))"
  by (cases "f (w_os w)"; cases "fst (f (w_os w))") (auto simp: syscall_def)

lemma retry_read_call:
  assumes "px_read px fd n (w_os w) = (Inr bytes, os)" "w_heap w q = Some block"
    and "length bytes \<le> length block"
  shows "\<exists>w'. retry (read_call px fd q n) w = Some (Inr (Some (of_nat (length bytes)), w'))
    \<and> w_os w' = os \<and> w_heap w' q = Some (bytes @ drop (length bytes) block)"
proof (cases "bytes = []")
  case True
  with assms have "read_call px fd q n w = Some (Inr (Some 0, w\<lparr>w_os := os\<rparr>))"
    by (simp add: read_call_def syscall_Inr store_bytes_def prog_simps)
  with True assms(2) show ?thesis by (simp add: retry_done)
next
  case False
  with assms have "read_call px fd q n w = Some (Inr (Some (of_nat (length bytes)),
      w\<lparr>w_os := os, w_heap := (w_heap w)(q \<mapsto> bytes @ drop (length bytes) block)\<rparr>))"
    by (simp add: read_call_def syscall_Inr store_bytes_def prog_simps)
  then show ?thesis by (simp add: retry_done)
qed

text \<open>The sizes of files and offsets fit in the signed type \<^verbatim>\<open>off_t\<close>.\<close>

lemma u64_length_small:
  assumes "k < 2 ^ 63"
  shows "unat (of_nat k :: u64) = k" and "(of_nat k :: u64) \<noteq> - 1"
proof -
  show *: "unat (of_nat k :: u64) = k"
    using assms by (simp add: unat_of_nat take_bit_nat_eq_self_iff)
  show "(of_nat k :: u64) \<noteq> - 1"
  proof
    assume "(of_nat k :: u64) = - 1"
    then have "k = unat (- 1 :: u64)" using * by simp
    also have "\<dots> = 2 ^ 64 - 1" by (simp add: unsigned_minus_1_eq_mask mask_eq_exp_minus_1)
    finally show False using assms by simp
  qed
qed

lemma unat_u64_diff_min:
  fixes off m :: u64
  assumes "k < 2 ^ 63" "unat off \<le> k"
  shows "unat (min (of_nat k - off) m) = min (k - unat off) (unat m)"
proof -
  have "off \<le> of_nat k" using assms by (simp add: word_le_nat_alt u64_length_small)
  then have "unat (of_nat k - off) = k - unat off"
    using assms by (simp add: unat_sub u64_length_small)
  then show ?thesis by (simp add: min_def word_le_nat_alt)
qed


text \<open>The number of bytes a read asks for, and the size of the block for them.\<close>

lemma segment_sizes:
  assumes content: "length content < 2 ^ 63" "unat offset \<le> length content"
    and data: "data = take (unat maxBytes) (drop (unat offset) (content :: u8 list))"
  shows "unat (min (of_nat (length content) - offset) maxBytes :: u64) = length data"
    and "unat (min (of_nat (length content) - offset) maxBytes + (if nullTerminate then 1 else 0) :: u64)
      = length data + (if nullTerminate then 1 else 0)"
    and "take (length data) (drop (unat offset) content) = data"
    and "length data \<le> length content"
proof -
  let ?n = "min (of_nat (length content) - offset) maxBytes"
  show n: "unat ?n = length data"
    using content data by (simp add: unat_u64_diff_min)
  show le: "length data \<le> length content" using data by simp
  show "unat (?n + (if nullTerminate then 1 else 0)) = length data + (if nullTerminate then 1 else 0)"
  proof (cases nullTerminate)
    case True
    have "unat ?n + 1 < 2 ^ 64" using n le content(1) by simp
    then have "unat (?n + 1) = unat ?n + 1"
      using unat_add_lem [of ?n 1] by simp
    with True n show ?thesis by simp
  qed (use n in simp)
  show "take (length data) (drop (unat offset) content) = data"
    using data by (cases "unat maxBytes \<le> length content - unat offset") auto
qed

lemma read_open_file_data:
  assumes gives: "gives_blocks alloc"
    and size: "px_lseek px fd 0 SEEK_END (w_os w) = (Inr (of_nat (length content)), os2)"
    and seek: "px_lseek px fd offset SEEK_SET os2 = (Inr offset, os3)"
    and read: "\<And>n. unat n < 2 ^ 63 \<Longrightarrow> fst (px_read px fd n os3) = Inr (take (unat n) (drop (unat offset) content))"
    and content: "content \<noteq> []" "length content < 2 ^ 63" "unat offset \<le> length content"
    and data: "data = take (unat maxBytes) (drop (unat offset) content)"
  shows "\<exists>q w'. read_open_file px fd offset maxBytes alloc buffer nullTerminate code w
      = Some (Inr ((of_nat (length data), q, LFS_OK), w'))
    \<and> q \<noteq> nullptr \<and> w_heap w' q = Some (data @ (if nullTerminate then [0] else []))"
proof -
  let ?n = "min (of_nat (length content) - offset) maxBytes"
  let ?k = "?n + (if nullTerminate then 1 else 0)"
  note sizes = segment_sizes [OF content(2,3) data]
  note n = sizes(1) and k = sizes(2) [of nullTerminate] and le = sizes(4)
  have nonzero: "(of_nat (length content) :: u64) \<noteq> 0"
    using content u64_length_small(1) [of "length content"] by auto
  let ?w3 = "w\<lparr>w_os := os3\<rparr>"
  obtain q w4 block where call: "call_alloc alloc ?k 1 ?w3 = Some (Inr (q, w4))" and q: "q \<noteq> nullptr"
    and os4: "w_os w4 = w_os ?w3" and block: "w_heap w4 q = Some block" "length block = unat ?k"
    using gives by (rule gives_blocksE)
  have "take (unat ?n) (drop (unat offset) content) = data" using n sizes(3) by simp
  then obtain os5 where "px_read px fd ?n os3 = (Inr data, os5)"
    using read [of ?n] n le content(2) by (cases "px_read px fd ?n os3") simp
  then obtain w5 where loop: "retry (read_call px fd q ?n) w4 = Some (Inr (Some (of_nat (length data)), w5))"
    and heap5: "w_heap w5 q = Some (data @ drop (length data) block)"
    using retry_read_call [of px fd ?n w4 data os5 q block] os4 block k by auto
  have len: "unat (of_nat (length data) :: u64) = length data"
    using le content(2) by (simp add: u64_length_small)
  show ?thesis
  proof (cases nullTerminate)
    case True
    then have "length (drop (length data) block) = Suc 0" using block k by simp
    then obtain b where "drop (length data) block = [b]" unfolding length_Suc_conv by auto
    with heap5 have heap: "w_heap w5 q = Some (data @ [b])" by simp
    let ?w6 = "w5\<lparr>w_heap := (w_heap w5)(q \<mapsto> data @ [0])\<rparr>"
    have store: "store_bytes q (unat (of_nat (length data) :: u64)) [0] w5 = Some (Inr ((), ?w6))"
      using heap by (simp add: store_bytes_def len)
    obtain x w7 where close: "syscall (px_close px fd) ?w6 = Some (Inr (x, w7))" "w_heap w7 = w_heap ?w6"
      by (rule syscall_returns)
    have "read_open_file px fd offset maxBytes alloc buffer nullTerminate code w
        = Some (Inr ((of_nat (length data), q, LFS_OK), w7))"
      using True content nonzero size seek call q loop store close
      by (simp add: read_open_file_def syscall_Inr off_result_def u64_length_small Let_def prog_simps)
    with q close True show ?thesis by auto
  next
    case False
    then have "length block = length data" using block k by simp
    with heap5 have heap: "w_heap w5 q = Some data" by simp
    obtain x w7 where close: "syscall (px_close px fd) w5 = Some (Inr (x, w7))" "w_heap w7 = w_heap w5"
      by (rule syscall_returns)
    have "read_open_file px fd offset maxBytes alloc buffer nullTerminate code w
        = Some (Inr ((of_nat (length data), q, LFS_OK), w7))"
      using False content nonzero size seek call q loop close
      by (simp add: read_open_file_def syscall_Inr off_result_def u64_length_small Let_def prog_simps)
    with q close heap False show ?thesis by auto
  qed
qed


lemma directory_read:
  assumes "servable_path d p" "gives_blocks alloc"
    and "px_open px (dd_devicePath d @ p) O_RDONLY 0x1A4 (w_os w) = (Inr fd, os1)"
    and "px_lseek px fd 0 SEEK_END os1 = (Inr (of_nat (length content)), os2)"
    and "px_lseek px fd offset SEEK_SET os2 = (Inr offset, os3)"
    and "\<And>n. unat n < 2 ^ 63 \<Longrightarrow> fst (px_read px fd n os3) = Inr (take (unat n) (drop (unat offset) content))"
    and "content \<noteq> []" "length content < 2 ^ 63" "unat offset \<le> length content"
    and "data = take (unat maxBytes) (drop (unat offset) content)"
  shows "\<exists>q w'. DirectoryDevice_readFile px d p offset maxBytes alloc buffer nullTerminate code w
      = Some (Inr ((of_nat (length data), q, LFS_OK), w'))
    \<and> q \<noteq> nullptr \<and> w_heap w' q = Some (data @ (if nullTerminate then [0] else []))"
proof -
  from assms(1,3) obtain w1 where "openFile px d p O_RDONLY w = Some (Inr (Some fd, w1))"
    and os1: "w_os w1 = os1"
    by (rule openFile_result) auto
  then have "DirectoryDevice_readFile px d p offset maxBytes alloc buffer nullTerminate code w
      = read_open_file px fd offset maxBytes alloc buffer nullTerminate code w1"
    by (simp add: DirectoryDevice_readFile_def prog_simps)
  then show ?thesis
    using read_open_file_data [OF assms(2), of px fd w1] assms(4-) os1 by simp
qed

text \<open>
  C11: reading a non-empty regular file gives the bytes of the file from the offset on, at most
  \<^verbatim>\<open>maxBytes\<close> of them, in a new block that ends with a zero byte exactly when the caller asked for one, and
  the code \<^verbatim>\<open>LFS_OK\<close>. (The hypotheses say what the system calls do on a file with this content, the
  read for counts up to \<^verbatim>\<open>SSIZE_MAX\<close>; the file is smaller than \<open>2 ^ 63\<close> bytes and the offset is not beyond its end.)
\<close>

theorem readFile_gives_segment:
  assumes "servable_path d p" "gives_blocks alloc"
    and "px_open px (dd_devicePath d @ p) O_RDONLY 0x1A4 (w_os w) = (Inr fd, os1)"
    and "px_lseek px fd 0 SEEK_END os1 = (Inr (of_nat (length content)), os2)"
    and "px_lseek px fd offset SEEK_SET os2 = (Inr offset, os3)"
    and "\<And>n. unat n < 2 ^ 63 \<Longrightarrow> fst (px_read px fd n os3) = Inr (take (unat n) (drop (unat offset) content))"
    and "content \<noteq> []" "length content < 2 ^ 63" "unat offset \<le> length content"
    and "data = take (unat maxBytes) (drop (unat offset) content)"
  shows "\<exists>q w'. DirectoryDevice_readFile px d p offset maxBytes alloc buffer nullTerminate code w
      = Some (Inr ((of_nat (length data), q, LFS_OK), w'))
    \<and> q \<noteq> nullptr \<and> w_heap w' q = Some (data @ (if nullTerminate then [0] else []))"
  using assms by (rule directory_read)

lemma readFile_gives_segment_witness:
  "\<exists>q w'. DirectoryDevice_readFile mem_posix (mem_device ''/a'') ''/f'' 1 3 mem_allocator nullptr True
      LFS_NOT_FOUND (mem_world [(''/a/f'', [11, 12, 13, 14, 15])] [''/a''])
    = Some (Inr ((3, q, LFS_OK), w')) \<and> w_heap w' q = Some [12, 13, 14, 0]"
proof -
  have "\<exists>q w'. DirectoryDevice_readFile mem_posix (mem_device ''/a'') ''/f'' 1 3 mem_allocator nullptr True
      LFS_NOT_FOUND (mem_world [(''/a/f'', [11, 12, 13, 14, 15])] [''/a''])
    = Some (Inr ((of_nat (length [12, 13, 14 :: u8]), q, LFS_OK), w'))
    \<and> q \<noteq> nullptr \<and> w_heap w' q = Some ([12, 13, 14] @ (if True then [0] else []))"
    by (rule readFile_gives_segment [where content = "[11, 12, 13, 14, 15]" and fd = 3
        and ?os1.0 = "\<lparr>mo_files = [(''/a/f'', [11, 12, 13, 14, 15])], mo_dirs = [''/a''], mo_path = ''/a/f'', mo_pos = 0\<rparr>"
        and ?os2.0 = "\<lparr>mo_files = [(''/a/f'', [11, 12, 13, 14, 15])], mo_dirs = [''/a''], mo_path = ''/a/f'', mo_pos = 5\<rparr>"
        and ?os3.0 = "\<lparr>mo_files = [(''/a/f'', [11, 12, 13, 14, 15])], mo_dirs = [''/a''], mo_path = ''/a/f'', mo_pos = 1\<rparr>"])
      (simp_all add: mem_simps servable_path_def)
  then show ?thesis by auto
qed

text \<open>
  C40: a read of an empty file leaves the buffer and the error code as the caller had them. The lookup of a
  read request starts with \<^verbatim>\<open>LFS_NOT_FOUND\<close>, so an empty file is reported as missing, although the
  existence query finds it.
\<close>

theorem empty_file_read_as_missing:
  assumes "servable_path d p"
    and "px_open px (dd_devicePath d @ p) O_RDONLY 0x1A4 (w_os w) = (Inr fd, os1)"
    and "px_lseek px fd 0 SEEK_END os1 = (Inr 0, os2)"
  shows "\<exists>w'. DirectoryDevice_readFile px d p offset maxBytes alloc buffer nullTerminate LFS_NOT_FOUND w
      = Some (Inr ((0, buffer, LFS_NOT_FOUND), w'))"
proof -
  from assms(1,2) obtain w1 where "openFile px d p O_RDONLY w = Some (Inr (Some fd, w1))"
    and "w_os w1 = os1"
    by (rule openFile_result) auto
  moreover obtain x w2 where "syscall (px_close px fd) (w1\<lparr>w_os := os2\<rparr>) = Some (Inr (x, w2))"
    by (rule syscall_returns)
  ultimately show ?thesis using assms(3)
    by (simp add: DirectoryDevice_readFile_def read_open_file_def syscall_Inr off_result_def prog_simps)
qed

lemma empty_file_read_as_missing_witness:
  "\<exists>w'. DirectoryDevice_readFile mem_posix (mem_device ''/a'') ''/f'' 0 9 mem_allocator nullptr True
      LFS_NOT_FOUND (mem_world [(''/a/f'', [])] [''/a''])
    = Some (Inr ((0, nullptr, LFS_NOT_FOUND), w'))"
  by (rule empty_file_read_as_missing [where fd = 3
      and ?os1.0 = "\<lparr>mo_files = [(''/a/f'', [])], mo_dirs = [''/a''], mo_path = ''/a/f'', mo_pos = 0\<rparr>"])
    (simp_all add: mem_simps servable_path_def)


text \<open>A host that accepts the count, and one that refuses it with \<^verbatim>\<open>EINVAL\<close>, which is 22.\<close>

definition refusing_posix :: "memory_os posix" where
  "refusing_posix = mem_posix\<lparr>px_read := \<lambda>fd n os.
     if 2 ^ 63 \<le> unat n then (Inl 22, os) else px_read mem_posix fd n os\<rparr>"


end
