(* ===== verification/Directory_Changes.thy ===== *)
theory Directory_Changes
  imports Directory_Files
begin

text \<open>
  The operations of the directory device that change the host: writing a file, and the walk that deletes a
  directory; and the life of the device itself.
\<close>

subsection \<open>The device\<close>

text \<open>
  Creating a device gives \<^verbatim>\<open>LFS_OK\<close> and a device for exactly the paths that are directories of the
  host, and \<^verbatim>\<open>LFS_NOT_FOUND\<close> and no device for every other path. The device can serve every virtual
  path that is short enough.
\<close>

theorem create_gives_servable_device:
  assumes "steady_allocator alloc" "length path + 1 < 2 ^ 32"
  shows "\<exists>w'. if \<exists>st. px_stat px path (w_os w) = Inr st \<and> st_kind st = S_IFDIR
    then \<exists>d. DirectoryDevice_create px alloc path w = Some (Inr ((LFS_OK, Some d), w'))
      \<and> dd_devicePath d = path \<and> dd_alloc d = alloc
      \<and> (\<forall>p. length path + length p + 1 < 2 ^ 32 \<longrightarrow> servable_path d p)
    else DirectoryDevice_create px alloc path w = Some (Inr ((LFS_NOT_FOUND, None), w'))"
proof (cases "\<exists>st. px_stat px path (w_os w) = Inr st \<and> st_kind st = S_IFDIR")
  case True
  then obtain st where st: "px_stat px path (w_os w) = Inr st" "st_kind st = S_IFDIR" by blast
  have len: "unat (of_nat (length path) :: u32) = length path"
    using assms(2) by (intro unat_of_nat_small) simp
  have "(of_nat (length path) + 1 :: u32) = of_nat (length path + 1)" by simp
  moreover have "unat (of_nat (length path + 1) :: u32) = length path + 1"
    using assms(2) by (intro unat_of_nat_small) simp
  ultimately have len1: "unat (of_nat (length path) + 1 :: u32) = length path + 1" by presburger
  obtain self w1 where self: "call_alloc alloc 24 8 (w\<lparr>w_os := w_os w\<rparr>) = Some (Inr (self, w1))" "self \<noteq> nullptr"
    using assms(1) by (rule steady_allocE)
  obtain q w2 where q: "call_alloc alloc (ucast (of_nat (length path) + 1 :: u32)) 1 w1 = Some (Inr (q, w2))"
      "q \<noteq> nullptr"
    using assms(1) by (rule steady_allocE)
  have "DirectoryDevice_create px alloc path w = Some (Inr ((LFS_OK, Some \<lparr>dd_self = self, dd_alloc = alloc,
      dd_devicePathPtr = q, dd_devicePath = path, dd_pathLen = of_nat (length path)\<rparr>), w2))"
    using st self q len1
    by (simp add: DirectoryDevice_create_def DirectoryDevice_new_def syscall_def Let_def prog_simps)
  with True show ?thesis using assms(1) len by (auto simp: servable_path_def)
next
  case False
  then have "\<exists>w'. DirectoryDevice_create px alloc path w = Some (Inr ((LFS_NOT_FOUND, None), w'))"
    by (cases "px_stat px path (w_os w)")
      (auto simp: DirectoryDevice_create_def syscall_def prog_simps)
  with False show ?thesis by (simp only: if_False)
qed

lemma create_gives_servable_device_witness:
  "\<exists>w' d. DirectoryDevice_create mem_posix mem_allocator ''/a'' (mem_world [] [''/a''])
     = Some (Inr ((LFS_OK, Some d), w')) \<and> servable_path d ''/f''"
  using create_gives_servable_device [of mem_allocator "''/a''" mem_posix "mem_world [] [''/a'']"]
  by (auto simp: mem_simps)

subsection \<open>Writing\<close>

fun open_flags :: "lfs_write_mode_t \<Rightarrow> u32" where
  "open_flags LFS_WRITE_TRUNCATE = 0x241"
| "open_flags LFS_WRITE_APPEND = 0x441"
| "open_flags LFS_WRITE_SEGMENT = 0x41"

lemma open_flags_eq: "or (or O_WRONLY O_CREAT) (openFlags_of_mode m) = open_flags m"
  by (cases m) (simp_all add: open_flag_defs)

lemma load_bytes_block:
  "w_heap w p = Some block \<Longrightarrow> n \<le> length block \<Longrightarrow> load_bytes p n w = Some (Inr (take n block, w))"
  by (auto simp: load_bytes_def)

lemma directory_write:
  assumes "servable_path d p" "leaves_alone (dd_alloc d) buffer"
    and "w_heap w buffer = Some block" "unat n \<le> length block"
    and "px_open px (dd_devicePath d @ p) (open_flags mode) 0x1A4 (w_os w) = (Inr fd, os1)"
    and "px_lseek px fd offset SEEK_SET os1 = (Inr offset, os2)"
    and "px_write px fd (take (unat n) block) os2 = (Inr k, os3)"
  shows "\<exists>w'. DirectoryDevice_writeFile px d p offset buffer n mode code w = Some (Inr ((k, LFS_OK), w'))
    \<and> w_os w' = snd (px_close px fd os3) \<and> w_heap w' buffer = Some block"
proof -
  from assms(1,5) obtain w1 where op: "openFile px d p (open_flags mode) w = Some (Inr (Some fd, w1))"
    and os1: "w_os w1 = os1" and b: "w_heap w1 buffer = Some block"
    by (rule openFile_result) (use assms(2,3) in auto)
  have "write_call px fd buffer n (w1\<lparr>w_os := os2\<rparr>) = Some (Inr (Some k, w1\<lparr>w_os := os3\<rparr>))"
    using b assms(4,7) by (simp add: write_call_def load_bytes_block syscall_Inr prog_simps)
  then have "retry (write_call px fd buffer n) (w1\<lparr>w_os := os2\<rparr>) = Some (Inr (Some k, w1\<lparr>w_os := os3\<rparr>))"
    by (simp add: retry_done)
  moreover obtain x w2 where "syscall (px_close px fd) (w1\<lparr>w_os := os3\<rparr>) = Some (Inr (x, w2))"
    "w_heap w2 = w_heap w1" "w_os w2 = snd (px_close px fd os3)"
    by (rule syscall_returns [of "px_close px fd" "w1\<lparr>w_os := os3\<rparr>"]) auto
  ultimately show ?thesis using op os1 b assms(6)
    by (simp add: DirectoryDevice_writeFile_def open_flags_eq syscall_Inr off_result_def prog_simps)
qed

text \<open>
  C21: writing opens the file for writing, created if need be, truncated or in append mode as the request
  says, moves to the offset, hands the first \<open>n\<close> bytes of the caller's buffer to the system, closes the
  file, and reports how many bytes the system took. The buffer stays as it was.
\<close>

theorem writeFile_writes_buffer:
  assumes "servable_path d p" "leaves_alone (dd_alloc d) buffer"
    and "w_heap w buffer = Some block" "unat n \<le> length block"
    and "px_open px (dd_devicePath d @ p) (open_flags mode) 0x1A4 (w_os w) = (Inr fd, os1)"
    and "px_lseek px fd offset SEEK_SET os1 = (Inr offset, os2)"
    and "px_write px fd (take (unat n) block) os2 = (Inr k, os3)"
  shows "\<exists>w'. DirectoryDevice_writeFile px d p offset buffer n mode code w = Some (Inr ((k, LFS_OK), w'))
    \<and> w_os w' = snd (px_close px fd os3) \<and> w_heap w' buffer = Some block"
  using assms by (rule directory_write)

lemma writeFile_writes_buffer_witness:
  "\<exists>w'. DirectoryDevice_writeFile mem_posix (mem_device ''/a'') ''/f'' 0 0x3000 2 LFS_WRITE_TRUNCATE LFS_OK
      (mem_world [(''/a/f'', [1, 2, 3])] [''/a'']\<lparr>w_heap := [0x3000 \<mapsto> [7, 8, 9]]\<rparr>)
    = Some (Inr ((2, LFS_OK), w')) \<and> mo_files (w_os w') = [(''/a/f'', [7, 8])]"
proof -
  have "\<exists>w'. DirectoryDevice_writeFile mem_posix (mem_device ''/a'') ''/f'' 0 0x3000 2 LFS_WRITE_TRUNCATE LFS_OK
      (mem_world [(''/a/f'', [1, 2, 3])] [''/a'']\<lparr>w_heap := [0x3000 \<mapsto> [7, 8, 9]]\<rparr>)
    = Some (Inr ((2, LFS_OK), w'))
    \<and> w_os w' = snd (px_close mem_posix 3
        \<lparr>mo_files = [(''/a/f'', [7, 8])], mo_dirs = [''/a''], mo_path = ''/a/f'', mo_pos = 2\<rparr>)
    \<and> w_heap w' 0x3000 = Some [7, 8, 9]"
    by (rule writeFile_writes_buffer [where fd = 3
        and ?os1.0 = "\<lparr>mo_files = [(''/a/f'', [])], mo_dirs = [''/a''], mo_path = ''/a/f'', mo_pos = 0\<rparr>"
        and ?os2.0 = "\<lparr>mo_files = [(''/a/f'', [])], mo_dirs = [''/a''], mo_path = ''/a/f'', mo_pos = 0\<rparr>"])
      (simp_all add: mem_simps servable_path_def mem_allocator_leaves_alone)
  then show ?thesis by (auto simp: mem_posix_def)
qed




subsection \<open>Deleting a directory\<close>

text \<open>
  A walk of a directory tree as the system presents it to the loop: the entries in the order they come, the
  removals the loop asks for having succeeded, and the state of the system before the next entry.
\<close>

definition removable :: "ftsent \<Rightarrow> bool" where
  "removable e \<longleftrightarrow> fts_info e \<in> {FTS_DEFAULT, FTS_DP, FTS_F, FTS_SL, FTS_SLNONE}"

definition unreadable :: "ftsent \<Rightarrow> bool" where
  "unreadable e \<longleftrightarrow> fts_info e \<in> {FTS_NS, FTS_DNR, FTS_ERR}"

inductive walked :: "'os posix \<Rightarrow> addr \<Rightarrow> 'os \<Rightarrow> ftsent list \<Rightarrow> 'os \<Rightarrow> bool"
  for px :: "'os posix" and h :: addr where
  walk_start: "walked px h os [] os"
| walk_remove: "px_fts_read px h os = (Inr e, os1) \<Longrightarrow> removable e
    \<Longrightarrow> px_remove px (fts_accpath e) os1 = (Inr (), os2) \<Longrightarrow> walked px h os2 es os'
    \<Longrightarrow> walked px h os (e # es) os'"
| walk_skip: "px_fts_read px h os = (Inr e, os1) \<Longrightarrow> \<not> removable e \<Longrightarrow> \<not> unreadable e
    \<Longrightarrow> walked px h os1 es os' \<Longrightarrow> walked px h os (e # es) os'"

text \<open>What an entry does, by its kind.\<close>

lemma delete_entry_removable:
  "removable e \<Longrightarrow> delete_entry px e
    = andThen (syscall (px_remove px (fts_accpath e))) (\<lambda>r. ret (r = None))"
  by (auto simp: removable_def delete_entry_def)

lemma delete_entry_unreadable:
  "unreadable e \<Longrightarrow> delete_entry px e = andThen (set_errno (fts_errno e)) (\<lambda>_. ret True)"
  by (auto simp: unreadable_def delete_entry_def)

lemma delete_entry_skipped:
  "\<not> removable e \<Longrightarrow> \<not> unreadable e \<Longrightarrow> delete_entry px e = ret False"
  by (cases "fts_info e") (auto simp: removable_def unreadable_def delete_entry_def)

lemma delete_walk_prefix:
  "walked px h os es os' \<Longrightarrow> w_os w = os \<Longrightarrow> delete_walk px h w = delete_walk px h (w\<lparr>w_os := os'\<rparr>)"
proof (induction arbitrary: w rule: walked.induct)
  case (walk_start os)
  then show ?case by (cases w) simp
next
  case (walk_remove os e os1 os2 es os')
  from walk_remove.prems walk_remove.hyps walk_remove.IH [of "w\<lparr>w_os := os2\<rparr>"] show ?case
    by (simp add: delete_walk.simps [of px h w] delete_entry_removable syscall_Inr andThen_assoc prog_simps)
next
  case (walk_skip os e os1 es os')
  from walk_skip.prems walk_skip.hyps walk_skip.IH [of "w\<lparr>w_os := os1\<rparr>"] show ?case
    by (simp add: delete_walk.simps [of px h w] delete_entry_skipped syscall_Inr prog_simps)
qed

lemma delete_walk_end:
  "px_fts_read px h (w_os w) = (Inl e, os) \<Longrightarrow>
    delete_walk px h w = Some (Inr (False, w\<lparr>w_os := os, w_errno := e\<rparr>))"
  by (simp add: delete_walk.simps [of px h w] syscall_Inl prog_simps)

lemma delete_walk_unreadable:
  "px_fts_read px h (w_os w) = (Inr e, os) \<Longrightarrow> unreadable e \<Longrightarrow>
    delete_walk px h w = Some (Inr (True, w\<lparr>w_os := os, w_errno := fts_errno e\<rparr>))"
  by (simp add: delete_walk.simps [of px h w] delete_entry_unreadable syscall_Inr set_errno_def prog_simps)

lemma delete_walk_remove_fails:
  "px_fts_read px h (w_os w) = (Inr e, os) \<Longrightarrow> removable e
    \<Longrightarrow> px_remove px (fts_accpath e) os = (Inl er, os') \<Longrightarrow>
    delete_walk px h w = Some (Inr (True, w\<lparr>w_os := os', w_errno := er\<rparr>))"
  by (simp add: delete_walk.simps [of px h w] delete_entry_removable syscall_Inr syscall_Inl prog_simps)

text \<open>The whole operation, from the walk's outcome.\<close>

lemma deleteDir_result:
  assumes "servable_path d p" "px_fts_open px (dd_devicePath d @ p) (w_os w) = (Inr h, os)"
    and "\<And>w1. w_os w1 = os \<Longrightarrow> \<exists>w2. delete_walk px h w1 = Some (Inr (failed, w2))
      \<and> w_os w2 = os2 \<and> w_errno w2 = e"
    and "px_fts_close px h os2 = (Inr (), os3)"
  shows "\<exists>w'. DirectoryDevice_deleteDir px d p w
      = Some (Inr (if failed \<or> e \<noteq> 0 then convertError e else LFS_OK, w')) \<and> w_os w' = os3"
proof -
  obtain q w1 where path: "getDevicePath d p w = Some (Inr ((q, dd_devicePath d @ p), w1))"
    and w1: "w_os w1 = w_os w" using assms(1) by (rule getDevicePath_exact)
  obtain w2 where walk: "delete_walk px h (w1\<lparr>w_os := os\<rparr>) = Some (Inr (failed, w2))"
    "w_os w2 = os2" "w_errno w2 = e" using assms(3) [of "w1\<lparr>w_os := os\<rparr>"] by auto
  have "steady_allocator (dd_alloc d)" using assms(1) by (simp add: servable_path_def)
  then obtain w3 where "call_free (dd_alloc d) q (w2\<lparr>w_os := os3\<rparr>) = Some (Inr ((), w3))"
      "w_os w3 = w_os (w2\<lparr>w_os := os3\<rparr>)"
    by (rule steady_freeE)
  then show ?thesis
    using path w1 walk assms(2,4)
    by (auto simp: DirectoryDevice_deleteDir_def freeDevicePath_def get_errno_def syscall_Inr prog_simps)
qed


text \<open>
  C22: deleting a directory removes the entries of the walk in the order the system gives them, files and
  links as they come and directories after what is in them, and reports \<^verbatim>\<open>LFS_OK\<close> once the walk has ended
  without an error.
\<close>

theorem deleteDir_removes_the_walk:
  assumes "servable_path d p" "px_fts_open px (dd_devicePath d @ p) (w_os w) = (Inr h, os)"
    and "walked px h os es os1" "px_fts_read px h os1 = (Inl 0, os2)"
    and "px_fts_close px h os2 = (Inr (), os3)"
  shows "\<exists>w'. DirectoryDevice_deleteDir px d p w = Some (Inr (LFS_OK, w')) \<and> w_os w' = os3"
proof -
  have "\<exists>w2. delete_walk px h w1 = Some (Inr (False, w2)) \<and> w_os w2 = os2 \<and> w_errno w2 = 0"
    if "w_os w1 = os" for w1
    using delete_walk_prefix [OF assms(3) that] delete_walk_end [of px h "w1\<lparr>w_os := os1\<rparr>"] assms(4)
    by simp
  from deleteDir_result [OF assms(1,2) this assms(5)] show ?thesis by simp
qed

text \<open>
  C23: the walk stops at the first entry that cannot be read or removed, and deleting the directory reports
  the error of that entry; nothing after it is removed.
\<close>

theorem deleteDir_stops_at_first_error:
  assumes "servable_path d p" "px_fts_open px (dd_devicePath d @ p) (w_os w) = (Inr h, os)"
    and "walked px h os es os1" "px_fts_read px h os1 = (Inr e, os2)"
    and "unreadable e \<and> fts_errno e = er \<and> os3 = os2
      \<or> removable e \<and> px_remove px (fts_accpath e) os2 = (Inl er, os3)"
    and "px_fts_close px h os3 = (Inr (), os4)"
  shows "\<exists>w'. DirectoryDevice_deleteDir px d p w = Some (Inr (convertError er, w')) \<and> w_os w' = os4"
proof -
  have "\<exists>w2. delete_walk px h w1 = Some (Inr (True, w2)) \<and> w_os w2 = os3 \<and> w_errno w2 = er"
    if "w_os w1 = os" for w1
    using delete_walk_prefix [OF assms(3) that] assms(4,5)
      delete_walk_unreadable [of px h "w1\<lparr>w_os := os1\<rparr>" e os2]
      delete_walk_remove_fails [of px h "w1\<lparr>w_os := os1\<rparr>" e os2 er os3]
    by auto
  from deleteDir_result [OF assms(1,2) this assms(6)] show ?thesis by simp
qed

text \<open>
  When the walk cannot be started, deleting the directory does nothing and still reports
  \<^verbatim>\<open>LFS_OK\<close>: the error of \<^verbatim>\<open>fts_open\<close> is not looked at.
\<close>

theorem deleteDir_hides_open_failure:
  assumes "servable_path d p" "px_fts_open px (dd_devicePath d @ p) (w_os w) = (Inl e, os)"
  shows "\<exists>w'. DirectoryDevice_deleteDir px d p w = Some (Inr (LFS_OK, w')) \<and> w_os w' = os"
proof -
  obtain q w1 where path: "getDevicePath d p w = Some (Inr ((q, dd_devicePath d @ p), w1))"
    and w1: "w_os w1 = w_os w" using assms(1) by (rule getDevicePath_exact)
  have "steady_allocator (dd_alloc d)" using assms(1) by (simp add: servable_path_def)
  then obtain w3 where "call_free (dd_alloc d) q (w1\<lparr>w_os := os, w_errno := e\<rparr>) = Some (Inr ((), w3))"
      "w_os w3 = w_os (w1\<lparr>w_os := os, w_errno := e\<rparr>)"
    by (rule steady_freeE)
  then show ?thesis
    using path w1 assms(2)
    by (auto simp: DirectoryDevice_deleteDir_def freeDevicePath_def syscall_Inl prog_simps)
qed

lemma deleteDir_hides_open_failure_witness:
  "\<exists>w'. DirectoryDevice_deleteDir mem_posix (mem_device ''/a'') ''/d'' (mem_world [] [''/a'', ''/a/d''])
      = Some (Inr (LFS_OK, w')) \<and> mo_dirs (w_os w') = [''/a'', ''/a/d'']"
  using deleteDir_hides_open_failure [of "mem_device ''/a''" "''/d''" mem_posix
      "mem_world [] [''/a'', ''/a/d'']" 12 "w_os (mem_world [] [''/a'', ''/a/d''])"]
  by (auto simp: mem_simps servable_path_def)

text \<open>
  A system that walks a list of entries, which is its state; it removes everything but what is called
  \<open>busy\<close>.
\<close>

definition walking_posix :: "ftsent list posix" where
  "walking_posix = \<lparr>px_stat = (\<lambda>p os. Inl ENOENT), px_open = (\<lambda>p f m os. (Inl ENOENT, os)),
     px_lseek = (\<lambda>fd off wh os. (Inr off, os)), px_read = (\<lambda>fd n os. (Inr [], os)),
     px_write = (\<lambda>fd bs os. (Inr (of_nat (length bs)), os)), px_close = (\<lambda>fd os. (Inr (), os)),
     px_unlink = (\<lambda>p os. (Inr (), os)), px_mkdir = (\<lambda>p m os. (Inr (), os)),
     px_remove = (\<lambda>p os. if p = ''busy'' then (Inl 16, os) else (Inr (), os)),
     px_fts_open = (\<lambda>p os. (Inr 1, os)),
     px_fts_read = (\<lambda>h os. case os of [] \<Rightarrow> (Inl 0, []) | e # es \<Rightarrow> (Inr e, es)),
     px_fts_close = (\<lambda>h os. (Inr (), os))\<rparr>"

definition walking_device :: "ftsent list directory_device" where
  "walking_device = \<lparr>dd_self = 0x2000, dd_alloc = mem_allocator, dd_devicePathPtr = 0x1000,
     dd_devicePath = ''/a'', dd_pathLen = 2\<rparr>"

definition entry :: "fts_info \<Rightarrow> string \<Rightarrow> ftsent" where
  "entry k p = \<lparr>fts_info = k, fts_accpath = p, fts_errno = 0\<rparr>"

lemma entry_simps [simp]: "fts_info (entry k p) = k" "fts_accpath (entry k p) = p" "fts_errno (entry k p) = 0"
  by (simp_all add: entry_def)

lemma walking_device_servable: "servable_path walking_device ''/d''"
  by (simp add: servable_path_def walking_device_def)

lemma deleteDir_removes_the_walk_witness:
  "\<exists>w'. DirectoryDevice_deleteDir walking_posix walking_device ''/d''
      \<lparr>w_os = [entry FTS_D ''d'', entry FTS_F ''d/f'', entry FTS_DP ''d''], w_errno = 0, w_heap = Map.empty\<rparr>
    = Some (Inr (LFS_OK, w')) \<and> w_os w' = []"
proof -
  let ?es = "[entry FTS_D ''d'', entry FTS_F ''d/f'', entry FTS_DP ''d'']"
  have "walked walking_posix 1 ?es ?es []"
    by (rule walk_skip walk_remove walk_start
        | simp add: walking_posix_def removable_def unreadable_def)+
  with walking_device_servable show ?thesis
    by (intro deleteDir_removes_the_walk) (auto simp: walking_posix_def)
qed

lemma deleteDir_stops_at_first_error_witness:
  "\<exists>w'. DirectoryDevice_deleteDir walking_posix walking_device ''/d''
      \<lparr>w_os = [entry FTS_F ''f'', entry FTS_F ''busy'', entry FTS_F ''g''], w_errno = 0, w_heap = Map.empty\<rparr>
    = Some (Inr (LFS_GENERIC_ERROR, w')) \<and> w_os w' = [entry FTS_F ''g'']"
proof -
  let ?es = "[entry FTS_F ''f'', entry FTS_F ''busy'', entry FTS_F ''g'']"
  have w: "walked walking_posix 1 ?es [entry FTS_F ''f''] (tl ?es)"
    by (rule walk_remove, (simp add: walking_posix_def removable_def)+) (rule walk_start)
  have "\<exists>w'. DirectoryDevice_deleteDir walking_posix walking_device ''/d''
      \<lparr>w_os = ?es, w_errno = 0, w_heap = Map.empty\<rparr>
    = Some (Inr (convertError 16, w')) \<and> w_os w' = [entry FTS_F ''g'']"
    by (rule deleteDir_stops_at_first_error [OF walking_device_servable _ w, where e = "entry FTS_F ''busy''"
        and ?os2.0 = "[entry FTS_F ''g'']" and ?os3.0 = "[entry FTS_F ''g'']"])
      (simp_all add: walking_posix_def removable_def unreadable_def)
  then show ?thesis by (simp add: convertError_def errno_defs)
qed

end
