(* ===== verification/Win32.thy ===== *)
theory Win32
  imports Posix
begin

text \<open>
  The system calls of the Windows variant of the directory device, as a parameter \<open>nt\<close>. A call that fails
  gives the error code that \<^verbatim>\<open>GetLastError\<close> returns afterwards, which the world keeps where the POSIX variant
  keeps \<^verbatim>\<open>errno\<close>. Paths are strings of 16-bit units.
\<close>

type_synonym u16 = "16 word"
type_synonym wstring = "u16 list"
type_synonym handle = u64

definition ERROR_FILE_NOT_FOUND :: errno where "ERROR_FILE_NOT_FOUND = 2"
definition ERROR_PATH_NOT_FOUND :: errno where "ERROR_PATH_NOT_FOUND = 3"
definition ERROR_ACCESS_DENIED :: errno where "ERROR_ACCESS_DENIED = 5"
definition ERROR_DISK_FULL :: errno where "ERROR_DISK_FULL = 112"
definition ERROR_ALREADY_EXISTS :: errno where "ERROR_ALREADY_EXISTS = 183"

lemmas win_error_defs = ERROR_FILE_NOT_FOUND_def ERROR_PATH_NOT_FOUND_def ERROR_ACCESS_DENIED_def
  ERROR_DISK_FULL_def ERROR_ALREADY_EXISTS_def

definition INVALID_FILE_ATTRIBUTES :: u32 where "INVALID_FILE_ATTRIBUTES = 0xFFFFFFFF"
definition FILE_ATTRIBUTE_DIRECTORY :: u32 where "FILE_ATTRIBUTE_DIRECTORY = 0x10"
definition INVALID_HANDLE_VALUE :: handle where "INVALID_HANDLE_VALUE = - 1"
definition INVALID_SET_FILE_POINTER :: u32 where "INVALID_SET_FILE_POINTER = 0xFFFFFFFF"
definition GENERIC_READ :: u32 where "GENERIC_READ = 0x80000000"
definition GENERIC_WRITE :: u32 where "GENERIC_WRITE = 0x40000000"
definition CREATE_ALWAYS :: u32 where "CREATE_ALWAYS = 2"
definition OPEN_EXISTING :: u32 where "OPEN_EXISTING = 3"
definition OPEN_ALWAYS :: u32 where "OPEN_ALWAYS = 4"

lemmas win_value_defs = INVALID_FILE_ATTRIBUTES_def FILE_ATTRIBUTE_DIRECTORY_def INVALID_HANDLE_VALUE_def
  INVALID_SET_FILE_POINTER_def GENERIC_READ_def GENERIC_WRITE_def CREATE_ALWAYS_def OPEN_EXISTING_def
  OPEN_ALWAYS_def

text \<open>
  \<^verbatim>\<open>MultiByteToWideChar\<close> gives the number of units it stored, 0 on failure, and what the buffer holds
  afterwards as a string, if a terminating zero is in it at all. A handle is a number; the functions
  that take one may be given the invalid one. \<^verbatim>\<open>ReadFile\<close> is told the address it is to read to, since the
  system refuses one it cannot write to.
\<close>

record 'os win32 =
  nt_MultiByteToWideChar :: "string \<Rightarrow> nat \<Rightarrow> nat \<times> wstring option"
  nt_GetFileAttributes :: "wstring \<Rightarrow> 'os \<Rightarrow> (errno + u32) \<times> 'os"
  nt_CreateFile :: "wstring \<Rightarrow> u32 \<Rightarrow> u32 \<Rightarrow> 'os \<Rightarrow> (errno + handle) \<times> 'os"
  nt_GetFileSize :: "handle \<Rightarrow> 'os \<Rightarrow> (errno + u64) \<times> 'os"
  nt_SetFilePointer :: "handle \<Rightarrow> u64 \<Rightarrow> whence \<Rightarrow> 'os \<Rightarrow> (errno + u64) \<times> 'os"
  nt_ReadFile :: "handle \<Rightarrow> addr \<Rightarrow> u32 \<Rightarrow> 'os \<Rightarrow> (errno + u8 list) \<times> 'os"
  nt_WriteFile :: "handle \<Rightarrow> u8 list \<Rightarrow> 'os \<Rightarrow> (errno + u32) \<times> 'os"
  nt_CloseHandle :: "handle \<Rightarrow> 'os \<Rightarrow> (errno + unit) \<times> 'os"
  nt_DeleteFile :: "wstring \<Rightarrow> 'os \<Rightarrow> (errno + unit) \<times> 'os"
  nt_CreateDirectory :: "wstring \<Rightarrow> 'os \<Rightarrow> (errno + unit) \<times> 'os"
  nt_SHFileOperation :: "wstring \<Rightarrow> 'os \<Rightarrow> int \<times> 'os"

text \<open>The values the calls have in C when they fail.\<close>

definition handle_result :: "handle option \<Rightarrow> handle" where
  "handle_result r = (case r of None \<Rightarrow> INVALID_HANDLE_VALUE | Some h \<Rightarrow> h)"

definition attributes_result :: "u32 option \<Rightarrow> u32" where
  "attributes_result r = (case r of None \<Rightarrow> INVALID_FILE_ATTRIBUTES | Some a \<Rightarrow> a)"

text \<open>\<^verbatim>\<open>SetFilePointer\<close> returns the lower half of the new position.\<close>

definition pointer_result :: "u64 option \<Rightarrow> u32" where
  "pointer_result r = (case r of None \<Rightarrow> INVALID_SET_FILE_POINTER | Some p \<Rightarrow> ucast p)"

lemmas result_defs = handle_result_def attributes_result_def pointer_result_def

end
