(* ===== verification/Directory_Win32.thy ===== *)
theory Directory_Win32
  imports Win32 Directory_Device
begin

text \<open>
  The directory device of \<^verbatim>\<open>src/device/Directory.cpp\<close> in its Windows variant, which the preprocessor selects
  in place of the POSIX one. The constructor, the destructor, \<^verbatim>\<open>destroy\<close> and \<^verbatim>\<open>freeDevicePath\<close> are those of
  theory \<open>Directory_Device\<close>.
\<close>

definition MAX_PATH_LEN :: nat where "MAX_PATH_LEN = 1024"

definition widen :: "'os win32 \<Rightarrow> string \<Rightarrow> nat \<Rightarrow> nat \<times> wstring option" where
  "widen nt inStr outStrLen = nt_MultiByteToWideChar nt inStr outStrLen"

text \<open>A path handed to a system call; without a terminating zero the call reads beyond the buffer.\<close>

definition wide_path :: "'os win32 \<Rightarrow> string \<Rightarrow> (wstring, 'os world) prog" where
  "wide_path nt path =
     (case snd (widen nt path MAX_PATH_LEN) of None \<Rightarrow> fail_with OutOfBounds | Some s \<Rightarrow> ret s)"

definition convertError_win :: "errno \<Rightarrow> lfs_error_code_t" where
  "convertError_win error =
     (if error = ERROR_FILE_NOT_FOUND \<or> error = ERROR_PATH_NOT_FOUND then LFS_NOT_FOUND
      else if error = ERROR_ACCESS_DENIED then LFS_PERMISSIONS_ERROR
      else if error = ERROR_ALREADY_EXISTS then LFS_ALREADY_EXISTS
      else if error = ERROR_DISK_FULL then LFS_OUT_OF_SPACE
      else LFS_GENERIC_ERROR)"

text \<open>
  A failing create leaves the pointer as it was; \<^verbatim>\<open>createMount\<close> passes one that is null.
\<close>

definition win_create :: "'os win32 \<Rightarrow> 'os world lfs_allocator_t \<Rightarrow> string
    \<Rightarrow> (lfs_error_code_t \<times> 'os directory_device option, 'os world) prog" where
  "win_create nt alloc path =
     andThen (wide_path nt path) (\<lambda>windowsPath.
     andThen (syscall (nt_GetFileAttributes nt windowsPath)) (\<lambda>r.
     let result = attributes_result r in
     if result \<noteq> INVALID_FILE_ATTRIBUTES \<and> and result FILE_ATTRIBUTE_DIRECTORY \<noteq> 0 then
       andThen (call_alloc alloc 24 8) (\<lambda>self.
       if self = nullptr then fail_with NullDeref
       else andThen (DirectoryDevice_new self alloc path) (\<lambda>d.
         ret (LFS_OK, Some d)))
     else ret (LFS_NOT_FOUND, None)))"

definition backslashes :: "string \<Rightarrow> string" where
  "backslashes diskPath = map (\<lambda>c. if c = CHR ''/'' then CHR 0x5C else c) diskPath"

definition win_getDevicePath :: "'os directory_device \<Rightarrow> string \<Rightarrow> (addr \<times> string, 'os world) prog" where
  "win_getDevicePath d filePath =
     andThen (getDevicePath d filePath) (\<lambda>(p, diskPath). ret (p, backslashes diskPath))"

definition win_openFile :: "'os win32 \<Rightarrow> 'os directory_device \<Rightarrow> string \<Rightarrow> u32 \<Rightarrow> u32
    \<Rightarrow> (handle, 'os world) prog" where
  "win_openFile nt d filePath accessMode createMode =
     andThen (win_getDevicePath d filePath) (\<lambda>(p, diskPath).
     andThen (freeDevicePath d p) (\<lambda>_.
     andThen (wide_path nt diskPath) (\<lambda>windowsPath.
     andThen (syscall (nt_CreateFile nt windowsPath accessMode createMode)) (\<lambda>file.
     ret (handle_result file)))))"

definition win_fileExists :: "'os win32 \<Rightarrow> 'os directory_device \<Rightarrow> string \<Rightarrow> (bool, 'os world) prog" where
  "win_fileExists nt d filePath =
     andThen (win_getDevicePath d filePath) (\<lambda>(p, diskPath).
     andThen (freeDevicePath d p) (\<lambda>_.
     andThen (wide_path nt diskPath) (\<lambda>windowsPath.
     andThen (syscall (nt_GetFileAttributes nt windowsPath)) (\<lambda>r.
     let result = attributes_result r in
     ret (result \<noteq> INVALID_FILE_ATTRIBUTES \<and> and result FILE_ATTRIBUTE_DIRECTORY = 0)))))"

definition win_fileSize :: "'os win32 \<Rightarrow> 'os directory_device \<Rightarrow> string \<Rightarrow> lfs_error_code_t
    \<Rightarrow> (u64 \<times> lfs_error_code_t, 'os world) prog" where
  "win_fileSize nt d filePath outError =
     andThen (win_openFile nt d filePath GENERIC_READ OPEN_EXISTING) (\<lambda>file.
     if file \<noteq> INVALID_HANDLE_VALUE then
       andThen (syscall (nt_GetFileSize nt file)) (\<lambda>result.
       andThen (case result of
           None \<Rightarrow> andThen get_errno (\<lambda>e. ret (0, convertError_win e))
         | Some quadPart \<Rightarrow> ret (quadPart, LFS_OK)) (\<lambda>answer.
       andThen (syscall (nt_CloseHandle nt file)) (\<lambda>_.
       ret answer)))
     else andThen get_errno (\<lambda>e. ret (0, convertError_win e)))"


subsection \<open>Reading\<close>

text \<open>
  The part after a successful open, with the lengths as the code cuts them: the number of bytes to read is
  passed in 32 bits. The handle is closed on every way out.
\<close>

definition win_read_open_file :: "'os win32 \<Rightarrow> handle \<Rightarrow> u64 \<Rightarrow> u64 \<Rightarrow> 'os world lfs_allocator_t \<Rightarrow> addr \<Rightarrow> bool
    \<Rightarrow> lfs_error_code_t \<Rightarrow> (u64 \<times> addr \<times> lfs_error_code_t, 'os world) prog" where
  "win_read_open_file nt file offset maxBytes alloc buffer nullTerminate outError =
     andThen (syscall (nt_GetFileSize nt file)) (\<lambda>r.
     case r of
       Some fileSize \<Rightarrow>
         if fileSize \<noteq> 0 then
           andThen (syscall (nt_SetFilePointer nt file offset SEEK_SET)) (\<lambda>s.
           if pointer_result s = INVALID_SET_FILE_POINTER then
             andThen (syscall (nt_CloseHandle nt file)) (\<lambda>_.
             ret (0, buffer, outError))
           else
             let n = min (fileSize - offset) maxBytes in
             andThen (call_alloc alloc (n + (if nullTerminate then 1 else 0)) 1) (\<lambda>buffer.
             andThen (syscall (nt_ReadFile nt file buffer (ucast n))) (\<lambda>bytes.
             andThen
               (case bytes of
                  None \<Rightarrow> ret 0
                | Some bs \<Rightarrow>
                    andThen (store_bytes buffer 0 bs) (\<lambda>_.
                    andThen (if nullTerminate then store_bytes buffer (length bs) [0] else ret ()) (\<lambda>_.
                    ret (of_nat (length bs) :: u32)))) (\<lambda>bytesReadTemp.
             andThen (syscall (nt_CloseHandle nt file)) (\<lambda>_.
             ret (ucast bytesReadTemp, buffer, LFS_OK))))))
         else
           andThen (syscall (nt_CloseHandle nt file)) (\<lambda>_.
           ret (0, nullptr, LFS_OK))
     | None \<Rightarrow>
         andThen get_errno (\<lambda>e.
         andThen (syscall (nt_CloseHandle nt file)) (\<lambda>_.
         ret (0, buffer, convertError_win e))))"

definition win_readFile :: "'os win32 \<Rightarrow> 'os directory_device \<Rightarrow> string \<Rightarrow> u64 \<Rightarrow> u64
    \<Rightarrow> 'os world lfs_allocator_t \<Rightarrow> addr \<Rightarrow> bool \<Rightarrow> lfs_error_code_t
    \<Rightarrow> (u64 \<times> addr \<times> lfs_error_code_t, 'os world) prog" where
  "win_readFile nt d filePath offset maxBytes alloc buffer nullTerminate outError =
     andThen (win_openFile nt d filePath GENERIC_READ OPEN_EXISTING) (\<lambda>file.
     if file \<noteq> INVALID_HANDLE_VALUE then
       win_read_open_file nt file offset maxBytes alloc buffer nullTerminate outError
     else ret (0, buffer, LFS_NOT_FOUND))"

subsection \<open>Writing\<close>

fun createFlags_of_mode :: "lfs_write_mode_t \<Rightarrow> u32" where
  "createFlags_of_mode LFS_WRITE_TRUNCATE = CREATE_ALWAYS"
| "createFlags_of_mode LFS_WRITE_APPEND = OPEN_ALWAYS"
| "createFlags_of_mode LFS_WRITE_SEGMENT = OPEN_EXISTING"

text \<open>The move before a write: to the end, to the offset, or none. The result tells whether it failed.\<close>

fun win_seek_for_write :: "'os win32 \<Rightarrow> handle \<Rightarrow> u64 \<Rightarrow> lfs_write_mode_t \<Rightarrow> (bool, 'os world) prog" where
  "win_seek_for_write nt file offset LFS_WRITE_TRUNCATE = ret False"
| "win_seek_for_write nt file offset LFS_WRITE_APPEND =
     andThen (syscall (nt_SetFilePointer nt file 0 SEEK_END)) (\<lambda>s.
     ret (pointer_result s = INVALID_SET_FILE_POINTER))"
| "win_seek_for_write nt file offset LFS_WRITE_SEGMENT =
     andThen (syscall (nt_SetFilePointer nt file offset SEEK_SET)) (\<lambda>s.
     ret (pointer_result s = INVALID_SET_FILE_POINTER))"

definition win_writeFile :: "'os win32 \<Rightarrow> 'os directory_device \<Rightarrow> string \<Rightarrow> u64 \<Rightarrow> addr \<Rightarrow> u64
    \<Rightarrow> lfs_write_mode_t \<Rightarrow> lfs_error_code_t \<Rightarrow> (u64 \<times> lfs_error_code_t, 'os world) prog" where
  "win_writeFile nt d filePath offset buffer bytesToWrite writeMode outError =
     andThen (win_openFile nt d filePath GENERIC_WRITE (createFlags_of_mode writeMode)) (\<lambda>file.
     andThen
       (if file \<noteq> INVALID_HANDLE_VALUE then
          andThen (win_seek_for_write nt file offset writeMode) (\<lambda>failed.
          if failed then ret (0, LFS_GENERIC_ERROR)
          else
            andThen (load_bytes buffer (unat (ucast bytesToWrite :: u32))) (\<lambda>bs.
            andThen (syscall (nt_WriteFile nt file bs)) (\<lambda>r.
            case r of
              None \<Rightarrow> ret (0, LFS_GENERIC_ERROR)
            | Some temp \<Rightarrow> ret (ucast temp, LFS_OK))))
        else andThen get_errno (\<lambda>e. ret (0, convertError_win e))) (\<lambda>answer.
     andThen (syscall (nt_CloseHandle nt file)) (\<lambda>_.
     ret answer)))"

subsection \<open>Deleting files, and directories\<close>

definition win_deleteFile :: "'os win32 \<Rightarrow> 'os directory_device \<Rightarrow> string
    \<Rightarrow> (lfs_error_code_t, 'os world) prog" where
  "win_deleteFile nt d filePath =
     andThen (win_getDevicePath d filePath) (\<lambda>(p, diskPath).
     andThen (wide_path nt diskPath) (\<lambda>windowsPath.
     andThen (syscall (nt_DeleteFile nt windowsPath)) (\<lambda>r.
     andThen (if r = None then andThen get_errno (\<lambda>e. ret (convertError_win e)) else ret LFS_OK) (\<lambda>resultCode.
     andThen (freeDevicePath d p) (\<lambda>_.
     ret resultCode)))))"

definition win_createDir :: "'os win32 \<Rightarrow> 'os directory_device \<Rightarrow> string
    \<Rightarrow> (lfs_error_code_t, 'os world) prog" where
  "win_createDir nt d path =
     andThen (win_getDevicePath d path) (\<lambda>(p, diskPath).
     andThen (wide_path nt diskPath) (\<lambda>windowsPath.
     andThen (syscall (nt_CreateDirectory nt windowsPath)) (\<lambda>r.
     andThen (if r = None then andThen get_errno (\<lambda>e. ret (convertError_win e)) else ret LFS_OK) (\<lambda>resultCode.
     andThen (freeDevicePath d p) (\<lambda>_.
     ret resultCode)))))"

text \<open>
  The list of paths for \<^verbatim>\<open>SHFileOperationW\<close> ends at a second zero, stored at the index \<^verbatim>\<open>widen\<close> returned. When
  \<^verbatim>\<open>widen\<close> fails, that is the start of the buffer, and the list is empty.
\<close>

definition double_null_path :: "nat \<times> wstring option \<Rightarrow> wstring option" where
  "double_null_path r = (if fst r = 0 then Some [] else snd r)"

definition shell_result_code :: "int \<Rightarrow> lfs_error_code_t" where
  "shell_result_code result =
     (if result = 0 then LFS_OK
      else if result = 0x7C then LFS_NOT_FOUND
      else if result = 0x78 \<or> result = 0x86 \<or> result = 0x87 then LFS_PERMISSIONS_ERROR
      else LFS_GENERIC_ERROR)"

definition win_deleteDir :: "'os win32 \<Rightarrow> 'os directory_device \<Rightarrow> string
    \<Rightarrow> (lfs_error_code_t, 'os world) prog" where
  "win_deleteDir nt d path =
     andThen (win_getDevicePath d path) (\<lambda>(p, diskPath).
     case double_null_path (widen nt diskPath (MAX_PATH_LEN - 1)) of
       None \<Rightarrow> fail_with OutOfBounds
     | Some windowsPath \<Rightarrow>
         andThen (\<lambda>w. case nt_SHFileOperation nt windowsPath (w_os w) of
             (r, os) \<Rightarrow> Some (Inr (r, w\<lparr>w_os := os\<rparr>))) (\<lambda>result.
         andThen (freeDevicePath d p) (\<lambda>_.
         ret (shell_result_code result))))"

definition win_interface :: "'os win32 \<Rightarrow> ('os directory_device, 'os world) device_interface" where
  "win_interface nt = \<lparr>
     di_create = Some (win_create nt),
     di_destroy = Some DirectoryDevice_destroy,
     di_fileExists = Some (win_fileExists nt),
     di_fileSize = Some (win_fileSize nt),
     di_readFile = Some (win_readFile nt),
     di_writeFile = Some (win_writeFile nt),
     di_deleteFile = Some (win_deleteFile nt),
     di_createDir = Some (win_createDir nt),
     di_deleteDir = Some (win_deleteDir nt)\<rparr>"

end
