(* ===== verification/Windows_Files.thy ===== *)
theory Windows_Files
  imports Directory_Win32 Directory_Changes
begin

text \<open>
  What the Windows variant of the directory device does to files, given what the system calls do, and where
  it answers differently from the POSIX variant.
\<close>

text \<open>The path of a file, and the rest of opening it.\<close>

lemma win_path_freed:
  fixes k :: "string \<Rightarrow> ('r, 'os world) prog"
  assumes "servable_path d p"
  obtains w' where "andThen (win_getDevicePath d p) (\<lambda>(q, diskPath).
      andThen (freeDevicePath d q) (\<lambda>_. k diskPath)) w = k (backslashes (dd_devicePath d @ p)) w'"
    and "w_os w' = w_os w"
    and "\<And>b. leaves_alone (dd_alloc d) b \<Longrightarrow> w_heap w' b = w_heap w b"
proof -
  obtain q w1 where path: "getDevicePath d p w = Some (Inr ((q, dd_devicePath d @ p), w1))"
    and w1: "w_os w1 = w_os w" using assms by (rule getDevicePath_exact)
  have "steady_allocator (dd_alloc d)" using assms by (simp add: servable_path_def)
  then obtain w2 where free: "call_free (dd_alloc d) q w1 = Some (Inr ((), w2))" "w_os w2 = w_os w1"
    by (rule steady_freeE)
  have "w_heap w2 b = w_heap w b" if "leaves_alone (dd_alloc d) b" for b
    using getDevicePath_block [OF path that] free(1) that unfolding leaves_alone_def by metis
  with path w1 free show thesis
    by (intro that [of w2]) (simp_all add: win_getDevicePath_def freeDevicePath_def prog_simps andThen_assoc)
qed

lemma win_openFile_result:
  assumes "servable_path d p" "snd (widen nt (backslashes (dd_devicePath d @ p)) MAX_PATH_LEN) = Some path"
    and "nt_CreateFile nt path access create (w_os w) = (r, os)"
  obtains w' where "win_openFile nt d p access create w
      = Some (Inr (case r of Inl e \<Rightarrow> INVALID_HANDLE_VALUE | Inr h \<Rightarrow> h, w'))"
    and "w_os w' = os" and "\<And>e. r = Inl e \<Longrightarrow> w_errno w' = e"
    and "\<And>b. leaves_alone (dd_alloc d) b \<Longrightarrow> w_heap w' b = w_heap w b"
proof -
  obtain w1 where "win_openFile nt d p access create w
      = andThen (wide_path nt (backslashes (dd_devicePath d @ p))) (\<lambda>windowsPath.
        andThen (syscall (nt_CreateFile nt windowsPath access create)) (\<lambda>file.
        ret (handle_result file))) w1"
    and w1: "w_os w1 = w_os w" "\<And>b. leaves_alone (dd_alloc d) b \<Longrightarrow> w_heap w1 b = w_heap w b"
    unfolding win_openFile_def
    using win_path_freed [OF assms(1), where w = w and k = "\<lambda>diskPath. andThen (wide_path nt diskPath) (\<lambda>windowsPath.
        andThen (syscall (nt_CreateFile nt windowsPath access create)) (\<lambda>file. ret (handle_result file)))"]
    by blast
  then have "win_openFile nt d p access create w
      = andThen (syscall (nt_CreateFile nt path access create)) (\<lambda>file. ret (handle_result file)) w1"
    using assms(2) by (simp add: wide_path_def prog_simps)
  with assms(3) w1 show thesis
    by (cases r; intro that [of "case r of Inl e \<Rightarrow> w1\<lparr>w_os := os, w_errno := e\<rparr> | Inr h \<Rightarrow> w1\<lparr>w_os := os\<rparr>"])
      (auto simp: syscall_def handle_result_def prog_simps)
qed

lemma ucast_small:
  fixes n :: u64
  assumes "unat n < 2 ^ 32"
  shows "unat (ucast n :: u32) = unat n"
  using assms by (simp add: unsigned_ucast_eq unsigned_take_bit_eq take_bit_nat_eq_self_iff)

lemma u32_u64_of_nat:
  assumes "k < 2 ^ 32"
  shows "(ucast (of_nat k :: u32) :: u64) = of_nat k"
  using assms by (simp add: word_unat_eq_iff unsigned_ucast_eq unsigned_take_bit_eq unsigned_of_nat take_bit_nat_eq_self)



subsection \<open>Reading\<close>

lemma store_segment:
  assumes "w_heap w q = Some block" "length block = length data + (if nullTerminate then 1 else 0)"
  shows "\<exists>w'. andThen (store_bytes q 0 data) (\<lambda>_.
      andThen (if nullTerminate then store_bytes q (length data) [0] else ret ()) (\<lambda>_. ret r)) w
      = Some (Inr (r, w'))
    \<and> w_os w' = w_os w \<and> w_heap w' q = Some (data @ (if nullTerminate then [0] else []))"
proof -
  obtain w1 where store: "store_bytes q 0 data w = Some (Inr ((), w1))" "w_os w1 = w_os w"
    "w_heap w1 q = Some (data @ drop (length data) block)"
    using assms by (cases "data = []") (auto simp: store_bytes_def)
  show ?thesis
  proof (cases nullTerminate)
    case True
    then have "length (drop (length data) block) = Suc 0" using assms(2) by simp
    then obtain b where "drop (length data) block = [b]" unfolding length_Suc_conv by auto
    with store(3) have "w_heap w1 q = Some (data @ [b])" by simp
    with True store(1,2) show ?thesis by (simp add: prog_simps store_bytes_def)
  next
    case False
    with assms(2) store show ?thesis by (simp add: prog_simps)
  qed
qed

lemma win_read_open_file_data:
  assumes gives: "gives_blocks alloc"
    and size: "nt_GetFileSize nt file (w_os w) = (Inr (of_nat (length content)), os2)"
    and seek: "nt_SetFilePointer nt file offset SEEK_SET os2 = (Inr offset, os3)"
    and low: "(ucast offset :: u32) \<noteq> INVALID_SET_FILE_POINTER"
    and read: "\<And>q n. fst (nt_ReadFile nt file q n os3) = Inr (take (unat n) (drop (unat offset) content))"
    and content: "content \<noteq> []" "length content < 2 ^ 63" "unat offset \<le> length content"
    and data: "data = take (unat maxBytes) (drop (unat offset) content)" "length data < 2 ^ 32"
  shows "\<exists>q w'. win_read_open_file nt file offset maxBytes alloc buffer nullTerminate code w
      = Some (Inr ((of_nat (length data), q, LFS_OK), w'))
    \<and> q \<noteq> nullptr \<and> w_heap w' q = Some (data @ (if nullTerminate then [0] else []))"
proof -
  let ?n = "min (of_nat (length content) - offset) maxBytes"
  let ?k = "?n + (if nullTerminate then 1 else 0)"
  note sizes = segment_sizes [OF content(2,3) data(1)]
  have nonzero: "(of_nat (length content) :: u64) \<noteq> 0"
    using content u64_length_small(1) [of "length content"] by auto
  let ?w3 = "w\<lparr>w_os := os3\<rparr>"
  obtain q w4 block where call: "call_alloc alloc ?k 1 ?w3 = Some (Inr (q, w4))" and q: "q \<noteq> nullptr"
    and os4: "w_os w4 = w_os ?w3" and block: "w_heap w4 q = Some block" "length block = unat ?k"
    using gives by (rule gives_blocksE)
  have "unat (ucast ?n :: u32) = length data" using sizes(1) data(2) ucast_small [of ?n] by simp
  then have "fst (nt_ReadFile nt file q (ucast ?n) os3) = Inr data" using read sizes(3) by simp
  then obtain os5 where rd: "nt_ReadFile nt file q (ucast ?n) os3 = (Inr data, os5)"
    by (metis prod.collapse)
  have "length block = length data + (if nullTerminate then 1 else 0)" using block(2) sizes(2) by simp
  then obtain w5 where store: "andThen (store_bytes q 0 data) (\<lambda>_.
      andThen (if nullTerminate then store_bytes q (length data) [0] else ret ()) (\<lambda>_.
      ret (of_nat (length data) :: u32))) (w4\<lparr>w_os := os5\<rparr>) = Some (Inr (of_nat (length data), w5))"
    and heap: "w_heap w5 q = Some (data @ (if nullTerminate then [0] else []))"
    using store_segment [of "w4\<lparr>w_os := os5\<rparr>" q block data nullTerminate "of_nat (length data)"] block(1)
    by auto
  obtain x w6 where close: "syscall (nt_CloseHandle nt file) w5 = Some (Inr (x, w6))" "w_heap w6 = w_heap w5"
    by (rule syscall_returns)
  have "win_read_open_file nt file offset maxBytes alloc buffer nullTerminate code w
      = Some (Inr ((of_nat (length data), q, LFS_OK), w6))"
    using size seek low nonzero call os4 rd store close(1) data(2)
    by (simp add: win_read_open_file_def syscall_Inr pointer_result_def Let_def u32_u64_of_nat
        andThen_cases(3) prog_simps)
  with q close heap show ?thesis by auto
qed


text \<open>A system with one file, of a given content, under every name; its state has the position, too.\<close>

definition one_file_nt :: "(u8 list \<times> nat) win32" where
  "one_file_nt = \<lparr>
     nt_MultiByteToWideChar = (\<lambda>s n. if length s < n then (length s + 1, Some (map (\<lambda>c. of_nat (of_char c)) s)) else (0, None)),
     nt_GetFileAttributes = (\<lambda>p os. (Inr 0x20, os)),
     nt_CreateFile = (\<lambda>p a c os. (Inr 7, (if c = CREATE_ALWAYS then [] else fst os, 0))),
     nt_GetFileSize = (\<lambda>h os. (Inr (of_nat (length (fst os))), os)),
     nt_SetFilePointer = (\<lambda>h off wh os. let pos = (case wh of SEEK_SET \<Rightarrow> unat off | SEEK_END \<Rightarrow> length (fst os) + unat off)
       in (Inr (of_nat pos), (fst os, pos))),
     nt_ReadFile = (\<lambda>h q n os. if fst os = [13] then (Inl 30, os) else (Inr (take (unat n) (drop (snd os) (fst os))), os)),
     nt_WriteFile = (\<lambda>h bs os. (Inr (of_nat (length bs)), (take (snd os) (fst os) @ bs, snd os + length bs))),
     nt_CloseHandle = (\<lambda>h os. (Inr (), os)), nt_DeleteFile = (\<lambda>p os. (Inr (), os)),
     nt_CreateDirectory = (\<lambda>p os. (Inl ERROR_ALREADY_EXISTS, os)), nt_SHFileOperation = (\<lambda>p os. (0x7C, os))\<rparr>"

definition one_file_device :: "(u8 list \<times> nat) directory_device" where
  "one_file_device = \<lparr>dd_self = 0x2000, dd_alloc = mem_allocator, dd_devicePathPtr = 0x1000,
     dd_devicePath = ''c:'', dd_pathLen = 2\<rparr>"

definition one_file_world :: "u8 list \<Rightarrow> (u8 list \<times> nat) world" where
  "one_file_world bs = \<lparr>w_os = (bs, 0), w_errno = 0, w_heap = [0x3000 \<mapsto> [7, 8, 9]]\<rparr>"

lemma one_file_servable: "servable_path one_file_device ''/f''"
  by (simp add: servable_path_def one_file_device_def)

lemma one_file_path:
  "snd (widen one_file_nt (backslashes (dd_devicePath one_file_device @ ''/f'')) MAX_PATH_LEN)
    = Some (map (\<lambda>c. of_nat (of_char c)) (backslashes ''c:/f''))"
  by (simp add: widen_def one_file_nt_def one_file_device_def backslashes_def MAX_PATH_LEN_def)

lemmas one_file_simps = one_file_nt_def one_file_world_def win_value_defs

subsection \<open>Properties\<close>

text \<open>
  C24: in the Windows variant, too, reading a non-empty file gives the bytes from the offset on, at most
  \<^verbatim>\<open>maxBytes\<close> of them, with the zero byte if the caller asked for one; this needs the number of bytes to fit
  in 32 bits, and an offset whose lower half is not the value that \<^verbatim>\<open>SetFilePointer\<close> returns for a failure.
\<close>

theorem win_readFile_gives_segment:
  assumes "servable_path d p" "gives_blocks alloc"
    and "snd (widen nt (backslashes (dd_devicePath d @ p)) MAX_PATH_LEN) = Some path"
    and "nt_CreateFile nt path GENERIC_READ OPEN_EXISTING (w_os w) = (Inr fh, os1)" "fh \<noteq> INVALID_HANDLE_VALUE"
    and "nt_GetFileSize nt fh os1 = (Inr (of_nat (length content)), os2)"
    and "nt_SetFilePointer nt fh offset SEEK_SET os2 = (Inr offset, os3)"
    and "(ucast offset :: u32) \<noteq> INVALID_SET_FILE_POINTER"
    and "\<And>q n. fst (nt_ReadFile nt fh q n os3) = Inr (take (unat n) (drop (unat offset) content))"
    and "content \<noteq> []" "length content < 2 ^ 63" "unat offset \<le> length content"
    and "data = take (unat maxBytes) (drop (unat offset) content)" "length data < 2 ^ 32"
  shows "\<exists>q w'. win_readFile nt d p offset maxBytes alloc buffer nullTerminate code w
      = Some (Inr ((of_nat (length data), q, LFS_OK), w'))
    \<and> q \<noteq> nullptr \<and> w_heap w' q = Some (data @ (if nullTerminate then [0] else []))"
proof -
  from assms(1,3,4) obtain w1 where "win_openFile nt d p GENERIC_READ OPEN_EXISTING w = Some (Inr (fh, w1))"
    and os1: "w_os w1 = os1"
    by (rule win_openFile_result) auto
  with assms(5) have "win_readFile nt d p offset maxBytes alloc buffer nullTerminate code w
      = win_read_open_file nt fh offset maxBytes alloc buffer nullTerminate code w1"
    by (simp add: win_readFile_def prog_simps)
  then show ?thesis
    using win_read_open_file_data [OF assms(2), of nt fh w1] assms(6-) os1 by simp
qed

lemma win_readFile_gives_segment_witness:
  "\<exists>q w'. win_readFile one_file_nt one_file_device ''/f'' 1 3 mem_allocator nullptr True LFS_NOT_FOUND
      (one_file_world [11, 12, 13, 14, 15]) = Some (Inr ((3, q, LFS_OK), w')) \<and> w_heap w' q = Some [12, 13, 14, 0]"
proof -
  have "\<exists>q w'. win_readFile one_file_nt one_file_device ''/f'' 1 3 mem_allocator nullptr True LFS_NOT_FOUND
      (one_file_world [11, 12, 13, 14, 15]) = Some (Inr ((of_nat (length [12, 13, 14 :: u8]), q, LFS_OK), w'))
    \<and> q \<noteq> nullptr \<and> w_heap w' q = Some ([12, 13, 14] @ (if True then [0] else []))"
    by (rule win_readFile_gives_segment [OF one_file_servable _ one_file_path, where content = "[11, 12, 13, 14, 15]"
        and fh = 7 and ?os1.0 = "([11, 12, 13, 14, 15], 0)" and ?os2.0 = "([11, 12, 13, 14, 15], 0)"
        and ?os3.0 = "([11, 12, 13, 14, 15], 1)"])
      (simp_all add: one_file_simps)
  then show ?thesis by auto
qed

text \<open>
  C26: in the Windows variant a read that fails after the file has been opened is reported as a success of no
  bytes, with a buffer nothing was stored in: the error code is overwritten.
\<close>

theorem win_read_failure_reported_as_success:
  assumes "servable_path d p" "gives_blocks alloc"
    and "snd (widen nt (backslashes (dd_devicePath d @ p)) MAX_PATH_LEN) = Some path"
    and "nt_CreateFile nt path GENERIC_READ OPEN_EXISTING (w_os w) = (Inr fh, os1)" "fh \<noteq> INVALID_HANDLE_VALUE"
    and "nt_GetFileSize nt fh os1 = (Inr len, os2)" "len \<noteq> 0"
    and "nt_SetFilePointer nt fh offset SEEK_SET os2 = (Inr offset, os3)"
    and "(ucast offset :: u32) \<noteq> INVALID_SET_FILE_POINTER"
    and "\<And>q n. fst (nt_ReadFile nt fh q n os3) = Inl e"
  shows "\<exists>q w'. win_readFile nt d p offset maxBytes alloc buffer nullTerminate code w
      = Some (Inr ((0, q, LFS_OK), w')) \<and> q \<noteq> nullptr"
proof -
  from assms(1,3,4) obtain w1 where op: "win_openFile nt d p GENERIC_READ OPEN_EXISTING w = Some (Inr (fh, w1))"
    and os1: "w_os w1 = os1"
    by (rule win_openFile_result) auto
  let ?n = "min (len - offset) maxBytes"
  obtain q w2 block where call: "call_alloc alloc (?n + (if nullTerminate then 1 else 0)) 1 (w1\<lparr>w_os := os3\<rparr>)
      = Some (Inr (q, w2))" and q: "q \<noteq> nullptr" and os2: "w_os w2 = w_os (w1\<lparr>w_os := os3\<rparr>)"
    using assms(2) by (rule gives_blocksE)
  obtain os4 where "nt_ReadFile nt fh q (ucast ?n) os3 = (Inl e, os4)"
    using assms(10) [of q "ucast ?n"] by (metis prod.collapse)
  moreover obtain x w3 where "syscall (nt_CloseHandle nt fh) (w2\<lparr>w_os := os4, w_errno := e\<rparr>) = Some (Inr (x, w3))"
    by (rule syscall_returns)
  ultimately show ?thesis
    using op os1 call q os2 assms(5-9)
    by (simp add: win_readFile_def win_read_open_file_def syscall_Inr syscall_Inl pointer_result_def Let_def prog_simps)
qed

lemma win_read_failure_reported_as_success_witness:
  "\<exists>q w'. win_readFile one_file_nt one_file_device ''/f'' 0 9 mem_allocator nullptr True LFS_NOT_FOUND
      (one_file_world [13]) = Some (Inr ((0, q, LFS_OK), w')) \<and> q \<noteq> nullptr"
  by (rule win_read_failure_reported_as_success [OF one_file_servable _ one_file_path, where fh = 7 and len = 1
      and ?os1.0 = "([13], 0)" and ?os2.0 = "([13], 0)" and ?os3.0 = "([13], 0)" and e = 30])
    (simp_all add: one_file_simps)


subsection \<open>Writing\<close>

lemma createFlags_cases:
  "createFlags_of_mode m = (case m of LFS_WRITE_TRUNCATE \<Rightarrow> CREATE_ALWAYS | LFS_WRITE_APPEND \<Rightarrow> OPEN_ALWAYS
    | LFS_WRITE_SEGMENT \<Rightarrow> OPEN_EXISTING)"
  by (cases m) simp_all

text \<open>The move a write of a mode makes in an open file, where the system carries it out.\<close>

definition moves_for_write :: "'os win32 \<Rightarrow> handle \<Rightarrow> u64 \<Rightarrow> lfs_write_mode_t \<Rightarrow> 'os \<Rightarrow> 'os \<Rightarrow> bool" where
  "moves_for_write nt fh offset mode os os' =
     (case mode of
        LFS_WRITE_TRUNCATE \<Rightarrow> os' = os
      | LFS_WRITE_APPEND \<Rightarrow> (\<exists>pos. (ucast pos :: u32) \<noteq> INVALID_SET_FILE_POINTER
          \<and> nt_SetFilePointer nt fh 0 SEEK_END os = (Inr pos, os'))
      | LFS_WRITE_SEGMENT \<Rightarrow> (ucast offset :: u32) \<noteq> INVALID_SET_FILE_POINTER
          \<and> nt_SetFilePointer nt fh offset SEEK_SET os = (Inr offset, os'))"

lemma win_seek_moves:
  assumes "moves_for_write nt fh offset mode (w_os w) os'"
  shows "win_seek_for_write nt fh offset mode w = Some (Inr (False, w\<lparr>w_os := os'\<rparr>))"
  using assms
  by (cases mode) (auto simp: moves_for_write_def syscall_Inr pointer_result_def prog_simps)

text \<open>
  C25: in the Windows variant a write opens the file in the disposition of its mode, moves to the end for an
  append and to the offset for a segment write, and not at all for a plain write, whatever the offset; it hands
  as many bytes of the caller's buffer to the system as the lower 32 bits of the length say, and reports how
  many of them the system took.
\<close>

theorem win_writeFile_writes_buffer:
  assumes "servable_path d p" "leaves_alone (dd_alloc d) buffer"
    and "w_heap w buffer = Some block" "unat (ucast n :: u32) \<le> length block"
    and "snd (widen nt (backslashes (dd_devicePath d @ p)) MAX_PATH_LEN) = Some path"
    and "nt_CreateFile nt path GENERIC_WRITE (createFlags_of_mode mode) (w_os w) = (Inr fh, os1)"
    and "fh \<noteq> INVALID_HANDLE_VALUE" "moves_for_write nt fh offset mode os1 os2"
    and "nt_WriteFile nt fh (take (unat (ucast n :: u32)) block) os2 = (Inr k, os3)"
  shows "\<exists>w'. win_writeFile nt d p offset buffer n mode code w = Some (Inr ((ucast k, LFS_OK), w'))
    \<and> w_os w' = snd (nt_CloseHandle nt fh os3) \<and> w_heap w' buffer = Some block"
proof -
  from assms(1,5,6) obtain w1 where op: "win_openFile nt d p GENERIC_WRITE (createFlags_of_mode mode) w
      = Some (Inr (fh, w1))"
    and os1: "w_os w1 = os1" and b: "w_heap w1 buffer = Some block"
    by (rule win_openFile_result) (use assms(2,3) in auto)
  have seek: "win_seek_for_write nt fh offset mode w1 = Some (Inr (False, w1\<lparr>w_os := os2\<rparr>))"
    using assms(8) os1 by (simp add: win_seek_moves)
  obtain x w2 where "syscall (nt_CloseHandle nt fh) (w1\<lparr>w_os := os3\<rparr>) = Some (Inr (x, w2))"
    "w_heap w2 = w_heap w1" "w_os w2 = snd (nt_CloseHandle nt fh os3)"
    by (rule syscall_returns [of "nt_CloseHandle nt fh" "w1\<lparr>w_os := os3\<rparr>"]) auto
  then show ?thesis using op seek b assms(4,7,9)
    by (simp add: win_writeFile_def load_bytes_block syscall_Inr prog_simps)
qed

lemma win_writeFile_writes_buffer_witness:
  "\<exists>w'. win_writeFile one_file_nt one_file_device ''/f'' 9 0x3000 2 LFS_WRITE_APPEND LFS_OK
      (one_file_world [1, 2, 3]) = Some (Inr ((2, LFS_OK), w')) \<and> w_os w' = ([1, 2, 3, 7, 8], 5)"
proof -
  have "\<exists>w'. win_writeFile one_file_nt one_file_device ''/f'' 9 0x3000 2 LFS_WRITE_APPEND LFS_OK
      (one_file_world [1, 2, 3]) = Some (Inr ((ucast (2 :: u32), LFS_OK), w'))
    \<and> w_os w' = snd (nt_CloseHandle one_file_nt 7 ([1, 2, 3, 7, 8], 5)) \<and> w_heap w' 0x3000 = Some [7, 8, 9]"
    by (rule win_writeFile_writes_buffer [OF one_file_servable _ _ _ one_file_path, where fh = 7
        and ?os1.0 = "([1, 2, 3], 0)" and ?os2.0 = "([1, 2, 3], 3)"])
      (simp_all add: one_file_simps moves_for_write_def one_file_device_def mem_allocator_leaves_alone)
  then show ?thesis by (auto simp: one_file_nt_def)
qed

end
