(* ===== verification/Default_Allocator.thy ===== *)
theory Default_Allocator
  imports Device_Interface Program_Logic
begin

text \<open>
  The allocator of \<^verbatim>\<open>src/FileContext.cpp\<close> for users who bring none (\<^verbatim>\<open>lfs_default_allocator\<close>), in the variant
  of each platform, over the memory functions of the C library, which are a parameter; and the adapter of
  \<^verbatim>\<open>src/FileContext.h\<close> that hands an allocator of the library to the containers of C++.
\<close>

datatype platform = Windows | MacOS | Other_Platform

text \<open>
  The functions of the C library. \<^verbatim>\<open>posix_memalign\<close> stores a pointer only when it succeeds.
\<close>

record 'w c_library =
  cl_aligned_malloc :: "u64 \<Rightarrow> u64 \<Rightarrow> (addr, 'w) prog"
  cl_aligned_free :: "addr \<Rightarrow> (unit, 'w) prog"
  cl_posix_memalign :: "u64 \<Rightarrow> u64 \<Rightarrow> (addr option, 'w) prog"
  cl_memalign :: "u64 \<Rightarrow> u64 \<Rightarrow> (addr, 'w) prog"
  cl_free :: "addr \<Rightarrow> (unit, 'w) prog"

definition sizeof_pointer :: u64 where "sizeof_pointer = 8"

definition aligned_alignment :: "u64 \<Rightarrow> u64" where
  "aligned_alignment alignment = (alignment + sizeof_pointer - 1) AND NOT (sizeof_pointer - 1)"

fun default_alloc_func :: "platform \<Rightarrow> 'w c_library \<Rightarrow> u64 \<Rightarrow> u64 \<Rightarrow> (addr, 'w) prog" where
  "default_alloc_func Windows cl bytes alignment = cl_aligned_malloc cl bytes alignment"
| "default_alloc_func MacOS cl bytes alignment =
     andThen (cl_posix_memalign cl (aligned_alignment alignment) bytes) (\<lambda>stored.
     ret (case stored of None \<Rightarrow> nullptr | Some p \<Rightarrow> p))"
| "default_alloc_func Other_Platform cl bytes alignment = cl_memalign cl alignment bytes"

fun default_free_func :: "platform \<Rightarrow> 'w c_library \<Rightarrow> addr \<Rightarrow> (unit, 'w) prog" where
  "default_free_func Windows cl p = cl_aligned_free cl p"
| "default_free_func MacOS cl p = cl_free cl p"
| "default_free_func Other_Platform cl p = cl_free cl p"

definition lfs_default_allocator :: "platform \<Rightarrow> 'w c_library \<Rightarrow> 'w lfs_allocator_t" where
  "lfs_default_allocator pf cl =
     \<lparr>al_alloc = Some (default_alloc_func pf cl), al_free = Some (default_free_func pf cl)\<rparr>"

text \<open>The adapter, for objects of a size and an alignment; the size of the block is a product of 64-bit numbers.\<close>

definition AllocatorAdapter_allocate :: "'w lfs_allocator_t \<Rightarrow> u64 \<Rightarrow> u64 \<Rightarrow> u64 \<Rightarrow> (addr, 'w) prog" where
  "AllocatorAdapter_allocate alloc sizeofT alignofT n = call_alloc alloc (sizeofT * n) alignofT"

definition AllocatorAdapter_deallocate :: "'w lfs_allocator_t \<Rightarrow> addr \<Rightarrow> u64 \<Rightarrow> (unit, 'w) prog" where
  "AllocatorAdapter_deallocate alloc p n = call_free alloc p"

subsection \<open>Alignment\<close>

text \<open>Rounding up to a multiple of the size of a pointer, where the sum does not wrap around.\<close>

lemma unat_push_drop: "unat (push_bit k (drop_bit k (a :: u64))) = unat a div 2 ^ k * 2 ^ k"
proof -
  have "unat a div 2 ^ k * 2 ^ k \<le> unat a" by simp
  also have "unat a < 2 ^ 64" using unsigned_less [of a, where ?'a = nat] by simp
  finally have "unat a div 2 ^ k * 2 ^ k < 2 ^ 64" .
  moreover have "unat (drop_bit k a) = unat a div 2 ^ k"
    by (subst unat_drop_bit_eq) (rule drop_bit_eq_div)
  moreover have "unat (push_bit k b) = take_bit 64 (unat b * 2 ^ k)" for b :: u64
    by (subst unsigned_push_bit_eq) (simp add: push_bit_eq_mult)
  ultimately show ?thesis by (simp only: take_bit_nat_eq_self)
qed

lemma unat_exp:
  assumes "k < 64"
  shows "unat (2 ^ k :: u64) = 2 ^ k"
proof -
  have "(2::nat) ^ k < 2 ^ 64" using assms by (intro power_strict_increasing) auto
  then have "unat (of_nat (2 ^ k) :: u64) = 2 ^ k" by (intro unat_of_nat_small) simp
  then show ?thesis by simp
qed

lemma unat_aligned_alignment:
  assumes "unat a + 7 < 2 ^ 64"
  shows "unat (aligned_alignment a) = (unat a + 7) div 8 * 8"
proof -
  have seven: "(7 :: u64) = mask 3" by (simp add: mask_eq_exp_minus_1)
  have sum: "unat (a + 7) = unat a + 7" using assms by (simp add: unat_word_ariths)
  have "(a + 7) AND NOT (mask 3) = push_bit 3 (drop_bit 3 (a + 7))"
    by (rule bit_word_eqI) (auto simp: bit_simps)
  also have "unat \<dots> = (unat a + 7) div 8 * 8"
    using sum assms by (simp add: unat_push_drop)
  finally show ?thesis
    by (simp add: aligned_alignment_def sizeof_pointer_def seven add.commute)
qed

lemma aligned_power:
  assumes "k < 64"
  shows "aligned_alignment (2 ^ k) = (if k < 3 then 8 else 2 ^ k)"
proof -
  have exp: "unat (2 ^ k :: u64) = 2 ^ k" using assms by (rule unat_exp)
  moreover have "(2::nat) ^ k \<le> 2 ^ 63" using assms by (intro power_increasing) auto
  ultimately have r: "unat (aligned_alignment (2 ^ k)) = (2 ^ k + 7) div 8 * 8"
    by (subst unat_aligned_alignment) auto
  show ?thesis
  proof (cases "k < 3")
    case True
    then have "k \<in> {0, 1, 2}" by auto
    then show ?thesis by (auto simp: aligned_alignment_def sizeof_pointer_def)
  next
    case False
    then obtain j where j: "k = 3 + j" by (metis add.commute le_Suc_ex not_less)
    then have "(2 ^ k + 7) div 8 * 8 = (2::nat) ^ k" by (simp add: power_add)
    with r exp False show ?thesis by (simp add: word_unat_eq_iff)
  qed
qed

text \<open>
  What the documentation of the C library promises: a block for an alignment that is a power of two, and for
  \<^verbatim>\<open>posix_memalign\<close> also a multiple of the size of a pointer, starts at a multiple of the alignment.
\<close>

definition aligns :: "'w c_library \<Rightarrow> bool" where
  "aligns cl \<longleftrightarrow> (\<forall>k n w. k < 64 \<longrightarrow>
     wlp (cl_aligned_malloc cl n (2 ^ k)) (\<lambda>p w'. 2 ^ k dvd unat p) w
     \<and> wlp (cl_memalign cl (2 ^ k) n) (\<lambda>p w'. 2 ^ k dvd unat p) w
     \<and> (3 \<le> k \<longrightarrow> wlp (cl_posix_memalign cl (2 ^ k) n)
          (\<lambda>stored w'. \<forall>p. stored = Some p \<longrightarrow> 2 ^ k dvd unat p) w))"

text \<open>
  C39: on every platform a block of the default allocator starts at a multiple of the alignment that was asked
  for, for every power of two, those below the size of a pointer included, which \<^verbatim>\<open>posix_memalign\<close> would refuse.
\<close>

theorem default_blocks_are_aligned:
  assumes "aligns cl" "k < 64" "call_alloc (lfs_default_allocator pf cl) n (2 ^ k) w = Some (Inr (p, w'))"
  shows "2 ^ k dvd unat p"
proof (cases pf)
  case MacOS
  define m where "m = max k 3"
  have m: "aligned_alignment (2 ^ k) = 2 ^ m" "m < 64" "3 \<le> m"
    using aligned_power [OF assms(2)] assms(2) by (auto simp: m_def max_def)
  from assms(1) m(2,3) have "wlp (cl_posix_memalign cl (2 ^ m) n)
      (\<lambda>stored w'. \<forall>p. stored = Some p \<longrightarrow> 2 ^ m dvd unat p) w" by (simp add: aligns_def)
  moreover obtain stored where "cl_posix_memalign cl (2 ^ m) n w = Some (Inr (stored, w'))"
    "p = (case stored of None \<Rightarrow> nullptr | Some p \<Rightarrow> p)"
    using assms(3) MacOS m(1)
    by (auto simp: lfs_default_allocator_def call_alloc_def prog_simps andThen_def
        split: option.splits sum.splits)
  ultimately have "2 ^ m dvd unat p" by (auto simp: wlp_iff split: option.splits)
  moreover have "(2::nat) ^ k dvd 2 ^ m" by (simp add: m_def le_imp_power_dvd)
  ultimately show ?thesis by (rule dvd_trans [rotated])
qed (use assms in \<open>fastforce simp: aligns_def lfs_default_allocator_def call_alloc_def prog_simps wlp_iff\<close>)+

text \<open>A library with one block for every alignment.\<close>

definition small_library :: "unit c_library" where
  "small_library = \<lparr>cl_aligned_malloc = (\<lambda>n a. ret a), cl_aligned_free = (\<lambda>p. ret ()),
      cl_posix_memalign = (\<lambda>a n. if a < 8 then ret None else ret (Some a)), cl_memalign = (\<lambda>a n. ret a),
      cl_free = (\<lambda>p. ret ())\<rparr>"

lemma small_library_aligns: "aligns small_library"
  by (simp add: aligns_def small_library_def wp_simps wlp_if unat_exp)

lemma default_blocks_are_aligned_witness:
  "call_alloc (lfs_default_allocator MacOS small_library) 9 (2 ^ 2) () = Some (Inr (8, ())) \<and> 2 ^ 2 dvd unat (8 :: addr)"
proof -
  have call: "call_alloc (lfs_default_allocator MacOS small_library) 9 (2 ^ 2) () = Some (Inr (8, ()))"
    by (simp add: lfs_default_allocator_def call_alloc_def small_library_def aligned_alignment_def
        sizeof_pointer_def prog_simps)
  with default_blocks_are_aligned [OF small_library_aligns _ call] show ?thesis by simp
qed

end
