(* ===== verification/C_Api.thy ===== *)
theory C_Api
  imports Requests Mount_Management
begin

text \<open>
  The C interface of \<^verbatim>\<open>src/laminaFS_c.cpp\<close>: a function for every operation of the context, with its
  arguments in an order of its own. A context handle is the pointer to the \<^verbatim>\<open>FileContext\<close>, whose state
  the functions run on. An allocator argument
  \<open>None\<close> stands for a null pointer. The size of a \<^verbatim>\<open>FileContext\<close> depends on the C++ library and is the
  argument \<open>contextSize\<close>.
\<close>

subsection \<open>Contexts\<close>

definition lfs_context_create_capacity :: "u64 \<Rightarrow> ('d, 'w) device_interface \<Rightarrow> 'w lfs_allocator_t
    \<Rightarrow> u64 \<Rightarrow> u64 \<Rightarrow> (addr, ('d, 'w) ctx) prog" where
  "lfs_context_create_capacity contextSize dir alloc maxQueuedWorkItems workItemPoolSize =
     andThen (on_snd (call_alloc alloc contextSize 8)) (\<lambda>mem.
     if mem = nullptr then fail_with NullDeref
     else andThen (FileContext_init dir mem alloc maxQueuedWorkItems workItemPoolSize) (\<lambda>_. ret mem))"

text \<open>The capacities are the default arguments of the constructor in \<^verbatim>\<open>FileContext.h\<close>.\<close>

definition lfs_context_create :: "u64 \<Rightarrow> ('d, 'w) device_interface \<Rightarrow> 'w lfs_allocator_t
    \<Rightarrow> (addr, ('d, 'w) ctx) prog" where
  "lfs_context_create contextSize dir alloc =
     andThen (on_snd (call_alloc alloc contextSize 8)) (\<lambda>mem.
     if mem = nullptr then fail_with NullDeref
     else andThen (FileContext_init dir mem alloc 128 1024) (\<lambda>_. ret mem))"

definition lfs_context_destroy :: "(unit, ('d, 'w) ctx) prog" where
  "lfs_context_destroy =
     andThen getAllocator (\<lambda>alloc.
     andThen (fc_get fc_self) (\<lambda>ctx.
     andThen FileContext_destroy (\<lambda>_.
     on_snd (call_free alloc ctx))))"

text \<open>
  A device type of a user of the C interface (\<^verbatim>\<open>src/laminaFS_c.h\<close>). It has the members of
  \<^verbatim>\<open>FileContext::DeviceInterface\<close> in their order, so that the cast gives the interface with the same pointers.
\<close>

record ('d, 'w) lfs_device_interface_t =
  c_create :: "('w lfs_allocator_t \<Rightarrow> string \<Rightarrow> (lfs_error_code_t \<times> 'd option, 'w) prog) option"
  c_destroy :: "('d \<Rightarrow> (unit, 'w) prog) option"
  c_fileExists :: "('d \<Rightarrow> string \<Rightarrow> (bool, 'w) prog) option"
  c_fileSize :: "('d \<Rightarrow> string \<Rightarrow> lfs_error_code_t \<Rightarrow> (u64 \<times> lfs_error_code_t, 'w) prog) option"
  c_readFile :: "('d \<Rightarrow> string \<Rightarrow> u64 \<Rightarrow> u64 \<Rightarrow> 'w lfs_allocator_t \<Rightarrow> addr \<Rightarrow> bool
    \<Rightarrow> lfs_error_code_t \<Rightarrow> (u64 \<times> addr \<times> lfs_error_code_t, 'w) prog) option"
  c_writeFile :: "('d \<Rightarrow> string \<Rightarrow> u64 \<Rightarrow> addr \<Rightarrow> u64 \<Rightarrow> lfs_write_mode_t
    \<Rightarrow> lfs_error_code_t \<Rightarrow> (u64 \<times> lfs_error_code_t, 'w) prog) option"
  c_deleteFile :: "('d \<Rightarrow> string \<Rightarrow> (lfs_error_code_t, 'w) prog) option"
  c_createDir :: "('d \<Rightarrow> string \<Rightarrow> (lfs_error_code_t, 'w) prog) option"
  c_deleteDir :: "('d \<Rightarrow> string \<Rightarrow> (lfs_error_code_t, 'w) prog) option"

definition interface_cast :: "('d, 'w) lfs_device_interface_t \<Rightarrow> ('d, 'w) device_interface" where
  "interface_cast ci = \<lparr>
     di_create = c_create ci, di_destroy = c_destroy ci, di_fileExists = c_fileExists ci,
     di_fileSize = c_fileSize ci, di_readFile = c_readFile ci, di_writeFile = c_writeFile ci,
     di_deleteFile = c_deleteFile ci, di_createDir = c_createDir ci, di_deleteDir = c_deleteDir ci\<rparr>"

definition lfs_register_device_interface :: "('d, 'w) lfs_device_interface_t \<Rightarrow> (u32, ('d, 'w) ctx) prog" where
  "lfs_register_device_interface interface = registerDeviceInterface (interface_cast interface)"

definition lfs_create_mount :: "u32 \<Rightarrow> string \<Rightarrow> string \<Rightarrow> (addr \<times> lfs_error_code_t, ('d, 'w) ctx) prog" where
  "lfs_create_mount deviceType mountPoint devicePath =
     createMount deviceType mountPoint devicePath LFS_MOUNT_DEFAULT"

definition lfs_create_mount_with_permissions :: "u32 \<Rightarrow> string \<Rightarrow> string \<Rightarrow> u32
    \<Rightarrow> (addr \<times> lfs_error_code_t, ('d, 'w) ctx) prog" where
  "lfs_create_mount_with_permissions deviceType mountPoint devicePath permissions =
     createMount deviceType mountPoint devicePath permissions"

definition lfs_release_mount :: "addr \<Rightarrow> (bool, ('d, 'w) ctx) prog" where
  "lfs_release_mount mount = releaseMount mount"

subsection \<open>Requests\<close>

definition lfs_read_file :: "('d, 'w) callbacks \<Rightarrow> string \<Rightarrow> bool \<Rightarrow> 'w lfs_allocator_t option \<Rightarrow> (addr, ('d, 'w) ctx) prog" where
  "lfs_read_file cbs filepath nullTerminate alloc =
     readFile cbs filepath nullTerminate alloc"

definition lfs_read_file_with_callback :: "('d, 'w) callbacks \<Rightarrow> string \<Rightarrow> bool \<Rightarrow> 'w lfs_allocator_t option \<Rightarrow> addr \<Rightarrow> lfs_callback_buffer_action_t \<Rightarrow> addr \<Rightarrow> (unit, ('d, 'w) ctx) prog" where
  "lfs_read_file_with_callback cbs filepath nullTerminate alloc callback bufferAction callbackUserData =
     readFileWithCallback cbs filepath nullTerminate callback bufferAction callbackUserData alloc"

definition lfs_read_file_ctx_alloc :: "('d, 'w) callbacks \<Rightarrow> string \<Rightarrow> bool \<Rightarrow> (addr, ('d, 'w) ctx) prog" where
  "lfs_read_file_ctx_alloc cbs filepath nullTerminate =
     readFile cbs filepath nullTerminate None"

definition lfs_read_file_ctx_alloc_with_callback :: "('d, 'w) callbacks \<Rightarrow> string \<Rightarrow> bool \<Rightarrow> addr \<Rightarrow> lfs_callback_buffer_action_t \<Rightarrow> addr \<Rightarrow> (unit, ('d, 'w) ctx) prog" where
  "lfs_read_file_ctx_alloc_with_callback cbs filepath nullTerminate callback bufferAction callbackUserData =
     readFileWithCallback cbs filepath nullTerminate callback bufferAction callbackUserData None"

definition lfs_read_file_segment :: "('d, 'w) callbacks \<Rightarrow> string \<Rightarrow> u64 \<Rightarrow> u64 \<Rightarrow> bool \<Rightarrow> 'w lfs_allocator_t option \<Rightarrow> (addr, ('d, 'w) ctx) prog" where
  "lfs_read_file_segment cbs filepath offset maxBytes nullTerminate alloc =
     readFileSegment cbs filepath offset maxBytes nullTerminate alloc"

definition lfs_read_file_segment_with_callback :: "('d, 'w) callbacks \<Rightarrow> string \<Rightarrow> u64 \<Rightarrow> u64 \<Rightarrow> bool \<Rightarrow> 'w lfs_allocator_t option \<Rightarrow> addr \<Rightarrow> lfs_callback_buffer_action_t \<Rightarrow> addr \<Rightarrow> (unit, ('d, 'w) ctx) prog" where
  "lfs_read_file_segment_with_callback cbs filepath offset maxBytes nullTerminate alloc callback bufferAction callbackUserData =
     readFileSegmentWithCallback cbs filepath offset maxBytes nullTerminate callback bufferAction callbackUserData alloc"

definition lfs_read_file_segment_ctx_alloc :: "('d, 'w) callbacks \<Rightarrow> string \<Rightarrow> u64 \<Rightarrow> u64 \<Rightarrow> bool \<Rightarrow> (addr, ('d, 'w) ctx) prog" where
  "lfs_read_file_segment_ctx_alloc cbs filepath offset maxBytes nullTerminate =
     readFileSegment cbs filepath offset maxBytes nullTerminate None"

definition lfs_read_file_segment_ctx_alloc_with_callback :: "('d, 'w) callbacks \<Rightarrow> string \<Rightarrow> u64 \<Rightarrow> u64 \<Rightarrow> bool \<Rightarrow> addr \<Rightarrow> lfs_callback_buffer_action_t \<Rightarrow> addr \<Rightarrow> (unit, ('d, 'w) ctx) prog" where
  "lfs_read_file_segment_ctx_alloc_with_callback cbs filepath offset maxBytes nullTerminate callback bufferAction callbackUserData =
     readFileSegmentWithCallback cbs filepath offset maxBytes nullTerminate callback bufferAction callbackUserData None"

definition lfs_write_file :: "('d, 'w) callbacks \<Rightarrow> string \<Rightarrow> addr \<Rightarrow> u64 \<Rightarrow> (addr, ('d, 'w) ctx) prog" where
  "lfs_write_file cbs filepath buffer bufferBytes =
     writeFile cbs filepath buffer bufferBytes"

definition lfs_write_file_with_callback :: "('d, 'w) callbacks \<Rightarrow> string \<Rightarrow> addr \<Rightarrow> u64 \<Rightarrow> addr \<Rightarrow> lfs_callback_buffer_action_t \<Rightarrow> addr \<Rightarrow> (unit, ('d, 'w) ctx) prog" where
  "lfs_write_file_with_callback cbs filepath buffer bufferBytes callback bufferAction callbackUserData =
     writeFileWithCallback cbs filepath buffer bufferBytes callback bufferAction callbackUserData"

definition lfs_write_file_segment :: "('d, 'w) callbacks \<Rightarrow> string \<Rightarrow> u64 \<Rightarrow> addr \<Rightarrow> u64 \<Rightarrow> (addr, ('d, 'w) ctx) prog" where
  "lfs_write_file_segment cbs filepath offset buffer bufferBytes =
     writeFileSegment cbs filepath offset buffer bufferBytes"

definition lfs_write_file_segment_with_callback :: "('d, 'w) callbacks \<Rightarrow> string \<Rightarrow> u64 \<Rightarrow> addr \<Rightarrow> u64 \<Rightarrow> addr \<Rightarrow> lfs_callback_buffer_action_t \<Rightarrow> addr \<Rightarrow> (unit, ('d, 'w) ctx) prog" where
  "lfs_write_file_segment_with_callback cbs filepath offset buffer bufferBytes callback bufferAction callbackUserData =
     writeFileSegmentWithCallback cbs filepath offset buffer bufferBytes callback bufferAction callbackUserData"

definition lfs_append_file :: "('d, 'w) callbacks \<Rightarrow> string \<Rightarrow> addr \<Rightarrow> u64 \<Rightarrow> (addr, ('d, 'w) ctx) prog" where
  "lfs_append_file cbs filepath buffer bufferBytes =
     appendFile cbs filepath buffer bufferBytes"

definition lfs_append_file_with_callback :: "('d, 'w) callbacks \<Rightarrow> string \<Rightarrow> addr \<Rightarrow> u64 \<Rightarrow> addr \<Rightarrow> lfs_callback_buffer_action_t \<Rightarrow> addr \<Rightarrow> (unit, ('d, 'w) ctx) prog" where
  "lfs_append_file_with_callback cbs filepath buffer bufferBytes callback bufferAction callbackUserData =
     appendFileWithCallback cbs filepath buffer bufferBytes callback bufferAction callbackUserData"

definition lfs_file_exists :: "('d, 'w) callbacks \<Rightarrow> string \<Rightarrow> (addr, ('d, 'w) ctx) prog" where
  "lfs_file_exists cbs filepath =
     fileExists cbs filepath"

definition lfs_file_exists_with_callback :: "('d, 'w) callbacks \<Rightarrow> string \<Rightarrow> addr \<Rightarrow> addr \<Rightarrow> (unit, ('d, 'w) ctx) prog" where
  "lfs_file_exists_with_callback cbs filepath callback callbackUserData =
     fileExistsWithCallback cbs filepath callback callbackUserData"

definition lfs_file_size :: "('d, 'w) callbacks \<Rightarrow> string \<Rightarrow> (addr, ('d, 'w) ctx) prog" where
  "lfs_file_size cbs filepath =
     fileSize cbs filepath"

definition lfs_file_size_with_callback :: "('d, 'w) callbacks \<Rightarrow> string \<Rightarrow> addr \<Rightarrow> addr \<Rightarrow> (unit, ('d, 'w) ctx) prog" where
  "lfs_file_size_with_callback cbs filepath callback callbackUserData =
     fileSizeWithCallback cbs filepath callback callbackUserData"

definition lfs_delete_file :: "('d, 'w) callbacks \<Rightarrow> string \<Rightarrow> (addr, ('d, 'w) ctx) prog" where
  "lfs_delete_file cbs filepath =
     deleteFile cbs filepath"

definition lfs_delete_file_with_callback :: "('d, 'w) callbacks \<Rightarrow> string \<Rightarrow> addr \<Rightarrow> addr \<Rightarrow> (unit, ('d, 'w) ctx) prog" where
  "lfs_delete_file_with_callback cbs filepath callback callbackUserData =
     deleteFileWithCallback cbs filepath callback callbackUserData"

definition lfs_create_dir :: "('d, 'w) callbacks \<Rightarrow> string \<Rightarrow> (addr, ('d, 'w) ctx) prog" where
  "lfs_create_dir cbs filepath =
     createDir cbs filepath"

definition lfs_create_dir_with_callback :: "('d, 'w) callbacks \<Rightarrow> string \<Rightarrow> addr \<Rightarrow> addr \<Rightarrow> (unit, ('d, 'w) ctx) prog" where
  "lfs_create_dir_with_callback cbs filepath callback callbackUserData =
     createDirWithCallback cbs filepath callback callbackUserData"

definition lfs_delete_dir :: "('d, 'w) callbacks \<Rightarrow> string \<Rightarrow> (addr, ('d, 'w) ctx) prog" where
  "lfs_delete_dir cbs filepath =
     deleteDir cbs filepath"

definition lfs_delete_dir_with_callback :: "('d, 'w) callbacks \<Rightarrow> string \<Rightarrow> addr \<Rightarrow> addr \<Rightarrow> (unit, ('d, 'w) ctx) prog" where
  "lfs_delete_dir_with_callback cbs filepath callback callbackUserData =
     deleteDirWithCallback cbs filepath callback callbackUserData"

lemmas lfs_request_defs =
  lfs_read_file_def lfs_read_file_with_callback_def lfs_read_file_ctx_alloc_def
  lfs_read_file_ctx_alloc_with_callback_def lfs_read_file_segment_def lfs_read_file_segment_with_callback_def
  lfs_read_file_segment_ctx_alloc_def lfs_read_file_segment_ctx_alloc_with_callback_def lfs_write_file_def
  lfs_write_file_with_callback_def lfs_write_file_segment_def lfs_write_file_segment_with_callback_def
  lfs_append_file_def lfs_append_file_with_callback_def lfs_file_exists_def
  lfs_file_exists_with_callback_def lfs_file_size_def lfs_file_size_with_callback_def
  lfs_delete_file_def lfs_delete_file_with_callback_def lfs_create_dir_def
  lfs_create_dir_with_callback_def lfs_delete_dir_def lfs_delete_dir_with_callback_def

subsection \<open>Work items\<close>

text \<open>A work item behind a pointer of the client, \<open>None\<close> for a null pointer.\<close>

definition lfs_work_item_get_result :: "'w lfs_work_item_t option \<Rightarrow> lfs_error_code_t" where
  "lfs_work_item_get_result workItem = WorkItemGetResult workItem"

definition lfs_work_item_get_buffer :: "'w lfs_work_item_t option \<Rightarrow> addr" where
  "lfs_work_item_get_buffer workItem = WorkItemGetBuffer workItem"

definition lfs_work_item_get_bytes :: "'w lfs_work_item_t option \<Rightarrow> u64" where
  "lfs_work_item_get_bytes workItem = WorkItemGetBytes workItem"

definition lfs_work_item_free_buffer :: "'w lfs_work_item_t option \<Rightarrow> ('w lfs_work_item_t option, 'w) prog" where
  "lfs_work_item_free_buffer workItem = WorkItemFreeBuffer workItem"

definition lfs_work_item_completed :: "'w lfs_work_item_t option \<Rightarrow> bool" where
  "lfs_work_item_completed workItem = WorkItemCompleted workItem"

definition lfs_wait_for_work_item :: "'w lfs_work_item_t option \<Rightarrow> unit option" where
  "lfs_wait_for_work_item workItem = WaitForWorkItem workItem"

definition lfs_release_work_item :: "addr \<Rightarrow> (unit, ('d, 'w) ctx) prog" where
  "lfs_release_work_item workItem = releaseWorkItem workItem"

definition lfs_set_log_func :: "addr \<Rightarrow> (unit, ('d, 'w) ctx) prog" where
  "lfs_set_log_func func = setLogFunc func"

definition lfs_get_log_func :: "(addr, ('d, 'w) ctx) prog" where
  "lfs_get_log_func = getLogFunc"

subsection \<open>The requests of the C interface\<close>

text \<open>The C function a client calls for a request; a read names its allocator or takes the context's.\<close>

fun c_issue :: "('d, 'w) callbacks \<Rightarrow> 'w request \<Rightarrow> (addr, ('d, 'w) ctx) prog" where
  "c_issue cbs (ReadFile path nt (Some al)) = lfs_read_file cbs path nt (Some al)"
| "c_issue cbs (ReadFile path nt None) = lfs_read_file_ctx_alloc cbs path nt"
| "c_issue cbs (ReadFileSegment path off n nt (Some al)) = lfs_read_file_segment cbs path off n nt (Some al)"
| "c_issue cbs (ReadFileSegment path off n nt None) = lfs_read_file_segment_ctx_alloc cbs path off n nt"
| "c_issue cbs (WriteFile path buffer n) = lfs_write_file cbs path buffer n"
| "c_issue cbs (WriteFileSegment path off buffer n) = lfs_write_file_segment cbs path off buffer n"
| "c_issue cbs (AppendFile path buffer n) = lfs_append_file cbs path buffer n"
| "c_issue cbs (FileExists path) = lfs_file_exists cbs path"
| "c_issue cbs (FileSize path) = lfs_file_size cbs path"
| "c_issue cbs (DeleteFile path) = lfs_delete_file cbs path"
| "c_issue cbs (CreateDir path) = lfs_create_dir cbs path"
| "c_issue cbs (DeleteDir path) = lfs_delete_dir cbs path"

fun c_issue_callback :: "('d, 'w) callbacks \<Rightarrow> 'w request \<Rightarrow> addr \<Rightarrow> lfs_callback_buffer_action_t \<Rightarrow> addr
    \<Rightarrow> (unit, ('d, 'w) ctx) prog" where
  "c_issue_callback cbs (ReadFile path nt (Some al)) cb act ud =
     lfs_read_file_with_callback cbs path nt (Some al) cb act ud"
| "c_issue_callback cbs (ReadFile path nt None) cb act ud =
     lfs_read_file_ctx_alloc_with_callback cbs path nt cb act ud"
| "c_issue_callback cbs (ReadFileSegment path off n nt (Some al)) cb act ud =
     lfs_read_file_segment_with_callback cbs path off n nt (Some al) cb act ud"
| "c_issue_callback cbs (ReadFileSegment path off n nt None) cb act ud =
     lfs_read_file_segment_ctx_alloc_with_callback cbs path off n nt cb act ud"
| "c_issue_callback cbs (WriteFile path buffer n) cb act ud =
     lfs_write_file_with_callback cbs path buffer n cb act ud"
| "c_issue_callback cbs (WriteFileSegment path off buffer n) cb act ud =
     lfs_write_file_segment_with_callback cbs path off buffer n cb act ud"
| "c_issue_callback cbs (AppendFile path buffer n) cb act ud =
     lfs_append_file_with_callback cbs path buffer n cb act ud"
| "c_issue_callback cbs (FileExists path) cb act ud = lfs_file_exists_with_callback cbs path cb ud"
| "c_issue_callback cbs (FileSize path) cb act ud = lfs_file_size_with_callback cbs path cb ud"
| "c_issue_callback cbs (DeleteFile path) cb act ud = lfs_delete_file_with_callback cbs path cb ud"
| "c_issue_callback cbs (CreateDir path) cb act ud = lfs_create_dir_with_callback cbs path cb ud"
| "c_issue_callback cbs (DeleteDir path) cb act ud = lfs_delete_dir_with_callback cbs path cb ud"

lemma c_issue_eq: "c_issue cbs req = issue cbs req"
  by (induction cbs req rule: c_issue.induct) (simp_all add: lfs_request_defs)

lemma c_issue_callback_eq: "c_issue_callback cbs req cb act ud = issue_callback cbs req cb act ud"
  by (induction cbs req cb act ud rule: c_issue_callback.induct) (simp_all add: lfs_request_defs)


subsection \<open>Properties\<close>

text \<open>
  C36: every function of the C interface that submits a request, with or without a callback, passes its
  arguments on as the request means them: with a free work item and room in the queue, the item that is
  enqueued holds the normalised path, the operation and the arguments of the request, and it is the item
  that a function without a callback returns.
\<close>

theorem c_requests_are_enqueued:
  assumes "can_submit fc"
  shows "(\<exists>a name fc' w'. c_issue cbs req (fc, w) = Some (Inr (a, (fc', w')))
      \<and> a \<noteq> nullptr \<and> fc_items fc a = None \<and> pending fc' = pending fc @ [a]
      \<and> fc_items fc' = (fc_items fc)(a \<mapsto>
          request_item fc name req nullptr LFS_DO_NOT_FREE_BUFFER nullptr))
    \<and> (\<exists>a name fc' w'. c_issue_callback cbs req cb act ud (fc, w) = Some (Inr ((), (fc', w')))
      \<and> a \<noteq> nullptr \<and> fc_items fc a = None \<and> pending fc' = pending fc @ [a]
      \<and> fc_items fc' = (fc_items fc)(a \<mapsto> request_item fc name req cb act ud))"
  using wp_issue [of "(fc, w)" cbs req] wp_issue_callback [of "(fc, w)" cbs req cb act ud] assms
  by (fastforce simp: wp_iff accepted_def submitted_def c_issue_eq c_issue_callback_eq)

lemma c_requests_are_enqueued_witness:
  "\<exists>a fc' w'. lfs_read_file_segment_ctx_alloc_with_callback no_callbacks ''/a//b'' 7 9 True 48 LFS_FREE_BUFFER 56
      (sample_context [] 2, ()) = Some (Inr ((), (fc', w'))) \<and> pending fc' = [a]
    \<and> map_option (\<lambda>it. (wi_offset it, wi_bufferBytes it, wi_callback it, wi_callbackUserData it))
        (fc_items fc' a) = Some (7, 9, 48, 56)"
  using c_requests_are_enqueued [OF sample_can_submit [of "[]"], of no_callbacks
      "ReadFileSegment ''/a//b'' 7 9 True None" "()" 48 LFS_FREE_BUFFER 56]
  by (fastforce simp: request_item_def prepared_item_def sample_context_def)

end
