(* ===== verification/Life_Cycle.thy ===== *)
theory Life_Cycle
  imports C_Api Memory_System
begin

text \<open>
  The memory a context holds over its life: what creating it, mounting a directory and destroying it take
  from the user's allocator and give back. The allocator is one that keeps account of the blocks that are
  in use; it has memory as long as there is room.
\<close>

definition accounts :: "'w lfs_allocator_t \<Rightarrow> ('w \<Rightarrow> addr set) \<Rightarrow> ('w \<Rightarrow> nat) \<Rightarrow> bool" where
  "accounts a live room \<longleftrightarrow>
     (\<forall>n k w. 0 < room w \<longrightarrow>
        wp (call_alloc a n k) (\<lambda>p w'. p \<noteq> nullptr \<and> p \<notin> live w \<and> live w' = insert p (live w)
          \<and> room w \<le> Suc (room w')) w)
     \<and> (\<forall>p w. p \<in> live w \<longrightarrow>
        wp (call_free a p) (\<lambda>_ w'. live w' = live w - {p} \<and> room w \<le> room w') w)"

lemma wp_account_alloc:
  assumes "accounts a live room" "0 < room w"
    and "\<And>p w'. p \<noteq> nullptr \<Longrightarrow> p \<notin> live w \<Longrightarrow> live w' = insert p (live w) \<Longrightarrow> room w \<le> Suc (room w')
      \<Longrightarrow> Q p w'"
  shows "wp (call_alloc a n k) Q w"
proof -
  from assms(1,2) have "wp (call_alloc a n k) (\<lambda>p w'. p \<noteq> nullptr \<and> p \<notin> live w
      \<and> live w' = insert p (live w) \<and> room w \<le> Suc (room w')) w"
    by (simp add: accounts_def)
  then show ?thesis by (rule wp_mono) (use assms(3) in blast)
qed

lemma wp_account_free:
  assumes "accounts a live room" "p \<in> live w"
    and "\<And>w'. live w' = live w - {p} \<Longrightarrow> room w \<le> room w' \<Longrightarrow> Q () w'"
  shows "wp (call_free a p) Q w"
proof -
  from assms(1,2) have "wp (call_free a p) (\<lambda>_ w'. live w' = live w - {p} \<and> room w \<le> room w') w"
    by (simp add: accounts_def)
  then show ?thesis by (rule wp_mono) (use assms(3) in auto)
qed

subsection \<open>What a context owns\<close>

text \<open>
  The blocks of a context: its own, those of its queue and its pool, one for every device interface, and two
  for every mount, besides what the device of the mount owns, which is \<open>owned\<close>.
\<close>

definition owned_blocks :: "('d \<Rightarrow> addr list) \<Rightarrow> ('d, 'w) file_context \<Rightarrow> addr list" where
  "owned_blocks owned fc =
     concat (map (\<lambda>m. [mi_prefixPtr m, mi_self m] @ owned (mi_device m)) (fc_mounts fc))
     @ map fst (fc_interfaces fc)
     @ [fc_queueBuffer fc, pl_storage (fc_workItemPool fc), fc_poolBitmask fc, fc_self fc]"

text \<open>A device interface whose \<^verbatim>\<open>destroy\<close> gives back what the device owns.\<close>

definition gives_back :: "('d, 'w) device_interface \<Rightarrow> ('d \<Rightarrow> addr list) \<Rightarrow> ('d \<Rightarrow> bool)
    \<Rightarrow> ('w \<Rightarrow> addr set) \<Rightarrow> ('w \<Rightarrow> nat) \<Rightarrow> bool" where
  "gives_back i owned sound live room \<longleftrightarrow>
     (\<forall>d w. sound d \<longrightarrow> set (owned d) \<subseteq> live w \<longrightarrow> distinct (owned d) \<longrightarrow>
        wp (call_ptr (di_destroy i) (\<lambda>destroy. destroy d))
          (\<lambda>_ w'. live w' = live w - set (owned d) \<and> room w \<le> room w') w)"

text \<open>
  The context holds, of the blocks in use, exactly its own and those in \<open>others\<close>.
\<close>

definition holds :: "('d \<Rightarrow> addr list) \<Rightarrow> ('d \<Rightarrow> bool) \<Rightarrow> ('w \<Rightarrow> addr set) \<Rightarrow> ('w \<Rightarrow> nat) \<Rightarrow> addr set
    \<Rightarrow> ('d, 'w) ctx \<Rightarrow> bool" where
  "holds owned sound live room others s \<longleftrightarrow>
     (let fc = fst s; bs = owned_blocks owned fc
      in accounts (fc_alloc fc) live room \<and> distinct bs \<and> set bs \<inter> others = {}
         \<and> live (snd s) = set bs \<union> others
         \<and> (\<forall>m \<in> set (fc_mounts fc). sound (mi_device m) \<and> gives_back (mi_interface m) owned sound live room))"

lemma wp_fc_deallocate_account:
  assumes "accounts (fc_alloc (fst s)) live room" "p \<in> live (snd s)"
    and "\<And>w'. live w' = live (snd s) - {p} \<Longrightarrow> room (snd s) \<le> room w' \<Longrightarrow> Q () (fst s, w')"
  shows "wp (fc_deallocate p) Q s"
  unfolding fc_deallocate_def wp_andThen fc_get_def wp_gets
  by (cases s) (use assms in \<open>auto simp: wp_on_snd intro!: wp_account_free\<close>)

lemma wp_destroy_mounts:
  assumes "accounts (fc_alloc fc) live room"
    and "\<And>m. m \<in> set ms \<Longrightarrow> sound (mi_device m) \<and> gives_back (mi_interface m) owned sound live room"
    and "distinct (concat (map (\<lambda>m. [mi_prefixPtr m, mi_self m] @ owned (mi_device m)) ms))"
    and "set (concat (map (\<lambda>m. [mi_prefixPtr m, mi_self m] @ owned (mi_device m)) ms)) \<subseteq> live w"
    and "\<And>w'. live w' = live w - set (concat (map (\<lambda>m. [mi_prefixPtr m, mi_self m] @ owned (mi_device m)) ms))
      \<Longrightarrow> Q () (fc, w')"
  shows "wp (destroy_mounts ms) Q (fc, w)"
  using assms(2-5)
proof (induction ms arbitrary: w)
  case Nil
  then show ?case by (simp add: wp_simps)
next
  case (Cons m ms)
  let ?own = "set (owned (mi_device m))"
  let ?rest = "set (concat (map (\<lambda>m. [mi_prefixPtr m, mi_self m] @ owned (mi_device m)) ms))"
  have destroyed: "wp (call_ptr (di_destroy (mi_interface m)) (\<lambda>destroy. destroy (mi_device m)))
      (\<lambda>_ w'. live w' = live v - ?own \<and> room v \<le> room w') v" if "?own \<subseteq> live v" for v
    using Cons.prems(1) [of m] Cons.prems(2) that by (simp add: gives_back_def)
  show ?case
    unfolding destroy_mounts.simps wp_andThen wp_on_snd
  proof (rule wp_fc_deallocate_account [where live = live and room = room], goal_cases)
    case 1
    then show ?case using assms(1) by simp
  next
    case 2
    then show ?case using Cons.prems(3) by simp
  next
    case (3 w1)
    show ?case
      unfolding wp_andThen wp_on_snd
    proof (rule wp_mono [OF destroyed], goal_cases)
      case 1
      then show ?case using 3 Cons.prems(2,3) by auto
    next
      case (2 u w2)
      have d: "mi_prefixPtr m \<noteq> mi_self m" "mi_prefixPtr m \<notin> ?own \<union> ?rest" "mi_self m \<notin> ?own \<union> ?rest"
        "?own \<inter> ?rest = {}" using Cons.prems(2) by auto
      have sub: "mi_self m \<in> live w" "?rest \<subseteq> live w" using Cons.prems(3) by auto
      have l2: "live w2 = live w - {mi_prefixPtr m} - ?own" using 2 3 by simp
      show ?case
      proof (rule wp_fc_deallocate_account [where live = live and room = room], goal_cases)
        case 1
        then show ?case using assms(1) by simp
      next
        case 2
        then show ?case using l2 d sub by auto
      next
        case (3 w3)
        then have l3: "live w3 = live w - {mi_prefixPtr m} - ?own - {mi_self m}" using l2 by simp
        show ?case
          unfolding fst_conv
        proof (rule Cons.IH)
          show "sound (mi_device m) \<and> gives_back (mi_interface m) owned sound live room"
            if "m \<in> set ms" for m using Cons.prems(1) that by simp
          show "distinct (concat (map (\<lambda>m. [mi_prefixPtr m, mi_self m] @ owned (mi_device m)) ms))"
            using Cons.prems(2) by simp
          show "?rest \<subseteq> live w3" using l3 d sub by blast
          show "Q () (fc, w')" if "live w' = live w3 - ?rest" for w'
            by (rule Cons.prems(4)) (use that l3 in auto)
        qed
      qed
    qed
  qed
qed


lemma wp_destroy_interfaces:
  assumes "accounts (fc_alloc fc) live room"
    and "distinct (map fst is)" "set (map fst is) \<subseteq> live w"
    and "\<And>w'. live w' = live w - set (map fst is) \<Longrightarrow> Q () (fc, w')"
  shows "wp (destroy_interfaces is) Q (fc, w)"
  using assms(2-4)
proof (induction "is" arbitrary: w)
  case Nil
  then show ?case by (simp add: wp_simps)
next
  case (Cons x "is")
  obtain p i where x: "x = (p, i)" by fastforce
  show ?case
    unfolding x destroy_interfaces.simps wp_andThen
  proof (rule wp_fc_deallocate_account [where live = live and room = room], goal_cases)
    case 1
    then show ?case using assms(1) by simp
  next
    case 2
    then show ?case using Cons.prems(2) x by simp
  next
    case (3 w1)
    show ?case
      unfolding fst_conv
    proof (rule Cons.IH)
      show "distinct (map fst is)" using Cons.prems(1) by simp
      show "set (map fst is) \<subseteq> live w1" using 3 Cons.prems(1,2) x by auto
      show "Q () (fc, w')" if "live w' = live w1 - set (map fst is)" for w'
        by (rule Cons.prems(3)) (use that 3 x in auto)
    qed
  qed
qed

text \<open>Destroying a context gives back everything the context holds.\<close>

lemma wp_lfs_context_destroy:
  assumes "holds owned sound live room others s" "stoppable (fst s)"
  shows "wp lfs_context_destroy (\<lambda>_ t. live (snd t) = others) s"
proof -
  let ?fc = "fst s"
  let ?mounts = "concat (map (\<lambda>m. [mi_prefixPtr m, mi_self m] @ owned (mi_device m)) (fc_mounts ?fc))"
  let ?last = "[fc_queueBuffer ?fc, pl_storage (fc_workItemPool ?fc), fc_poolBitmask ?fc, fc_self ?fc]"
  have bs: "owned_blocks owned ?fc = ?mounts @ map fst (fc_interfaces ?fc) @ ?last"
    by (simp add: owned_blocks_def)
  from assms(1) have acc: "accounts (fc_alloc ?fc) live room"
    and d: "distinct (?mounts @ map fst (fc_interfaces ?fc) @ ?last)"
    and disj: "set (?mounts @ map fst (fc_interfaces ?fc) @ ?last) \<inter> others = {}"
    and live: "live (snd s) = set (?mounts @ map fst (fc_interfaces ?fc) @ ?last) \<union> others"
    and ms: "\<And>m. m \<in> set (fc_mounts ?fc) \<Longrightarrow> sound (mi_device m) \<and> gives_back (mi_interface m) owned sound live room"
    by (auto simp only: holds_def Let_def bs)
  show ?thesis
    unfolding lfs_context_destroy_def FileContext_destroy_def workItemQueue_destructor_def
      workItemPool_destructor_def getAllocator_def wp_andThen wp_fc_get
  proof (rule wp_stopProcessingThread [OF assms(2)], goal_cases)
    case (1 fc)
    then have same: "fc_alloc fc = fc_alloc ?fc" "fc_mounts fc = fc_mounts ?fc"
      "fc_interfaces fc = fc_interfaces ?fc" "fc_queueBuffer fc = fc_queueBuffer ?fc"
      "fc_workItemPool fc = fc_workItemPool ?fc" "fc_poolBitmask fc = fc_poolBitmask ?fc"
      by (simp_all add: same_work_def)
    have acc': "accounts (fc_alloc fc) live room" using acc same by simp
    show ?case
      unfolding fst_conv same(2)
    proof (rule wp_destroy_mounts [OF acc' ms], assumption, goal_cases)
      case 1
      then show ?case using d by simp
    next
      case 2
      then show ?case using live by auto
    next
      case (3 w1)
      have l1: "live w1 = set (map fst (fc_interfaces ?fc) @ ?last) \<union> others"
        using 3 live d disj by auto
      show ?case
        unfolding fst_conv same(3)
      proof (rule wp_destroy_interfaces [OF acc'], goal_cases)
        case 1
        then show ?case using d by simp
      next
        case 2
        then show ?case using l1 by auto
      next
        case (3 w2)
        have l2: "live w2 = set ?last \<union> others" using 3 l1 d disj by auto
        have d2: "distinct ?last" "set ?last \<inter> others = {}" using d disj by auto
        show ?case
          unfolding fst_conv same wp_on_snd
        proof (rule wp_fc_deallocate_account [where live = live and room = room], goal_cases)
          case (3 w3)
          then have l3: "live w3 = set (tl ?last) \<union> others" using l2 d2 by auto
          show ?case
            unfolding fst_conv same wp_fc_get wp_andThen
          proof (rule wp_fc_deallocate_account [where live = live and room = room], goal_cases)
            case (3 w4)
            then have l4: "live w4 = set (tl (tl ?last)) \<union> others" using l3 d2 by auto
            show ?case
              unfolding fst_conv same
            proof (rule wp_fc_deallocate_account [where live = live and room = room], goal_cases)
              case (3 w5)
              then have l5: "live w5 = insert (fc_self ?fc) others" using l4 d2 by auto
              show ?case
                unfolding snd_conv
                by (rule wp_account_free [OF acc]) (use l5 d2 in auto)
            qed (use acc' l4 in auto)
          qed (use acc' l3 in auto)
        qed (use acc' l2 in auto)
      qed
    qed
  qed
qed


subsection \<open>Creating a context, and mounts\<close>

lemma wp_lfs_context_create_capacity:
  assumes acc: "accounts alloc live room" and room: "5 \<le> room (snd s)" and dir: "required_pointers dir"
  shows "wp (lfs_context_create_capacity contextSize dir alloc queueSize poolSize)
    (\<lambda>_ t. holds owned sound live room (live (snd s)) t \<and> stoppable (fst t)
      \<and> map snd (fc_interfaces (fst t)) = [dir] \<and> fc_alloc (fst t) = alloc
      \<and> sem_value (fc_workItemQueueSemaphore (fst t)) = 0 \<and> room (snd s) \<le> room (snd t) + 5) s"
  unfolding lfs_context_create_capacity_def FileContext_init_def Let_def wp_andThen wp_on_snd
proof (rule wp_account_alloc [OF acc], goal_cases)
  case 1
  then show ?case using room by simp
next
  case (2 mem w1)
  have "wp (andThen (registerDeviceInterface dir) (\<lambda>_. startProcessingThread)) Q (fc, v)"
    if "fc_alloc fc = alloc" "\<not> fc_processing fc" "fc_interfaces fc = []" "0 < room v"
      and "\<And>p v'. p \<notin> live v \<Longrightarrow> live v' = insert p (live v) \<Longrightarrow> room v \<le> Suc (room v') \<Longrightarrow>
        Q () (fc\<lparr>fc_interfaces := [(p, dir)], fc_processing := True, fc_processingThread := AtLoop\<rparr>, v')"
    for fc Q v
    using dir
    by (simp add: registerDeviceInterface_def startProcessingThread_def wp_simps fc_allocate_def that(1-3))
      (rule wp_account_alloc [OF acc that(4)], simp add: that(5))
  note init = this
  note mem = 2
  show ?case
    unfolding if_not_P [OF mem(1)] wp_andThen wp_on_snd
  proof (rule wp_account_alloc [OF acc], goal_cases)
    case 1
    then show ?case using room mem by simp
  next
    case (2 storage w2)
    note storage = 2
    show ?case
    proof (simp only: snd_conv wp_andThen wp_on_snd, rule wp_account_alloc [OF acc], goal_cases)
      case 1
      then show ?case using room mem storage by simp
    next
      case (2 bitmask w3)
      note bitmask = 2
      then have ok: "\<not> (bitmask = nullptr \<and> pl_bitmaskCount (pl_new storage 104 poolSize) \<noteq> 0)" by simp
      show ?case
        unfolding if_not_P [OF ok] wp_andThen [of "on_snd _"] wp_andThen [of "fc_set _"] wp_on_snd wp_fc_set
      proof (rule wp_account_alloc [OF acc], goal_cases)
        case 1
        then show ?case using room mem storage bitmask by simp
      next
        case (2 buffer w4)
        have pool: "pl_storage (pl_new storage 104 poolSize) = storage"
          by (simp add: pl_new_def split: prod.split)
        show ?case
        proof (rule init, goal_cases)
          case 4
          then show ?case using room mem storage bitmask 2 by simp
        next
          case (5 p v')
          note 5 = 5 [unfolded fst_conv snd_conv] and 2 = 2 [unfolded fst_conv snd_conv]
            and bitmask = bitmask [unfolded fst_conv snd_conv] and storage = storage [unfolded fst_conv snd_conv]
          have live: "live v' = {p, buffer, storage, bitmask, mem} \<union> live (snd s)"
            unfolding 5(2) 2(3) bitmask(3) storage(3) mem(3) by blast
          have new: "distinct [p, buffer, storage, bitmask, mem]"
            "{p, buffer, storage, bitmask, mem} \<inter> live (snd s) = {}"
            using 5(1) 2(2) bitmask(2) storage(2) mem(2)
            unfolding 2(3) bitmask(3) storage(3) mem(3) by auto
          have "room (snd s) \<le> room v' + 5"
            using 5(3) 2(4) bitmask(4) storage(4) mem(4) by simp
          then show ?case
            using live new acc
            by (simp add: wp_ret holds_def owned_blocks_def stoppable_def thread_inv_def pool sem_new_def)
              auto
        qed simp_all
      qed
    qed
  qed
qed


text \<open>
  A device interface whose \<^verbatim>\<open>create\<close>, for the given path, takes at most \<open>k\<close> blocks: what the device it
  makes owns, and none if it makes no device.
\<close>

definition takes_blocks :: "('d, 'w) device_interface \<Rightarrow> 'w lfs_allocator_t \<Rightarrow> string \<Rightarrow> nat \<Rightarrow> ('d \<Rightarrow> addr list)
    \<Rightarrow> ('d \<Rightarrow> bool) \<Rightarrow> ('w \<Rightarrow> addr set) \<Rightarrow> ('w \<Rightarrow> nat) \<Rightarrow> bool" where
  "takes_blocks i alloc path k owned sound live room \<longleftrightarrow>
     (\<forall>w. k \<le> room w \<longrightarrow>
        wp (call_ptr (di_create i) (\<lambda>create. create alloc path))
          (\<lambda>(code, device) w'. room w \<le> room w' + k \<and>
             (case (code, device) of
                (LFS_OK, Some d) \<Rightarrow> sound d \<and> distinct (owned d) \<and> set (owned d) \<inter> live w = {}
                  \<and> live w' = set (owned d) \<union> live w
              | _ \<Rightarrow> live w' = live w)) w)"

lemma distinct_insert_block:
  "distinct (A @ B) \<Longrightarrow> distinct N \<Longrightarrow> set N \<inter> set (A @ B) = {} \<Longrightarrow> distinct (A @ N @ B)"
  by auto

lemma holds_add_mount:
  assumes holds: "holds owned sound live room others (fc, w0)"
    and live: "live w = set ([mi_prefixPtr m, mi_self m] @ owned (mi_device m)) \<union> live w0"
    and new: "distinct ([mi_prefixPtr m, mi_self m] @ owned (mi_device m))"
      "set ([mi_prefixPtr m, mi_self m] @ owned (mi_device m)) \<inter> live w0 = {}"
    and dev: "sound (mi_device m)" "gives_back (mi_interface m) owned sound live room"
  shows "holds owned sound live room others (fc\<lparr>fc_mounts := fc_mounts fc @ [m]\<rparr>, w)"
proof -
  let ?A = "concat (map (\<lambda>m. [mi_prefixPtr m, mi_self m] @ owned (mi_device m)) (fc_mounts fc))"
  let ?B = "map fst (fc_interfaces fc)
     @ [fc_queueBuffer fc, pl_storage (fc_workItemPool fc), fc_poolBitmask fc, fc_self fc]"
  let ?N = "[mi_prefixPtr m, mi_self m] @ owned (mi_device m)"
  let ?fc = "fc\<lparr>fc_mounts := fc_mounts fc @ [m]\<rparr>"
  have bs: "owned_blocks owned fc = ?A @ ?B" "owned_blocks owned ?fc = ?A @ ?N @ ?B"
    by (simp_all add: owned_blocks_def)
  from holds have h: "distinct (?A @ ?B)" "set (?A @ ?B) \<inter> others = {}"
    "live w0 = set (?A @ ?B) \<union> others" "accounts (fc_alloc fc) live room"
    "\<forall>m \<in> set (fc_mounts fc). sound (mi_device m) \<and> gives_back (mi_interface m) owned sound live room"
    unfolding holds_def Let_def bs fst_conv snd_conv by blast+
  have "distinct (?A @ ?N @ ?B)"
    using h(1) new(1) by (rule distinct_insert_block) (use new(2) in \<open>unfold h(3), blast\<close>)
  moreover have sets: "set (?A @ ?N @ ?B) = set ?N \<union> set (?A @ ?B)"
    unfolding set_append by (rule Un_left_commute)
  moreover have "set (?A @ ?N @ ?B) \<inter> others = {}"
    unfolding sets using h(2) new(2) unfolding h(3) by blast
  moreover have "live w = set (?A @ ?N @ ?B) \<union> others"
    unfolding sets live h(3) by (simp only: Un_assoc)
  ultimately show ?thesis
    using h(4,5) dev unfolding holds_def Let_def fst_conv snd_conv bs(2) by simp
qed

lemma stoppable_mounts: "stoppable fc \<Longrightarrow> stoppable (fc\<lparr>fc_mounts := ms\<rparr>)"
  by (simp add: stoppable_def thread_inv_def)

lemma wp_createMount_holds:
  assumes holds: "holds owned sound live room others s" 
    and room: "k + 2 \<le> room (snd s)"
    and dev: "\<And>i. i \<in> set (map snd (fc_interfaces (fst s))) \<Longrightarrow>
      takes_blocks i (fc_alloc (fst s)) dp k owned sound live room \<and> gives_back i owned sound live room"
  shows "wp (createMount ty mp dp perm) (\<lambda>_ t. holds owned sound live room others t
    \<and> (\<exists>ms. fst t = (fst s)\<lparr>fc_mounts := ms\<rparr>) \<and> room (snd s) \<le> room (snd t) + (k + 2)) s"
proof -
  let ?fc = "fst s"
  let ?i = "snd (fc_interfaces ?fc ! unat ty)"
  from holds have acc: "accounts (fc_alloc ?fc) live room" by (simp add: holds_def Let_def)
  have same: "holds owned sound live room others (?fc, w)" if "live w = live (snd s)" for w
    using holds that by (simp add: holds_def Let_def)
  have unchanged: "\<exists>ms. ?fc = ?fc\<lparr>fc_mounts := ms\<rparr>" by (intro exI [of _ "fc_mounts ?fc"]) simp
  show ?thesis
  proof (cases "unat ty < length (fc_interfaces ?fc) \<and> calculatedPermissions ?i perm \<noteq> 0")
    case False
    then show ?thesis
      using holds unchanged by (auto simp: createMount_def wp_simps Let_def)
  next
    case True
    then have i: "takes_blocks ?i (fc_alloc ?fc) dp k owned sound live room"
      "gives_back ?i owned sound live room"
      using dev [of ?i] nth_mem [of "unat ty" "map snd (fc_interfaces ?fc)"] by simp_all
    have alloc: "wp (fc_allocate n al) Q (?fc, w)" if "0 < room w" "\<And>p w'. p \<noteq> nullptr \<Longrightarrow> p \<notin> live w \<Longrightarrow>
        live w' = insert p (live w) \<Longrightarrow> room w \<le> Suc (room w') \<Longrightarrow> Q p (?fc, w')" for Q n al w
      unfolding fc_allocate_def wp_andThen wp_fc_get wp_on_snd fst_conv snd_conv
      by (rule wp_account_alloc [OF acc that(1)]) (rule that(2))
    have dealloc: "wp (fc_deallocate p) Q (?fc, w)" if "p \<in> live w"
      "\<And>w'. live w' = live w - {p} \<Longrightarrow> room w \<le> room w' \<Longrightarrow> Q () (?fc, w')" for p Q w
      using that by (intro wp_fc_deallocate_account [where live = live and room = room]) (simp_all add: acc)
    have "\<not> unat ty \<ge> length (fc_interfaces ?fc)" using True by simp
    note branch = if_not_P [OF this] if_not_P [OF conjunct2 [OF True]]
    show ?thesis
      unfolding createMount_def wp_andThen wp_fc_get branch Let_def
    proof (subst surjective_pairing [of s], rule alloc, goal_cases)
      case 1
      then show ?case using room by simp
    next
      case (2 m w1)
      note m = 2
      have create: "wp (call_ptr (di_create ?i) (\<lambda>create. create (fc_alloc ?fc) dp)) R w1"
        if "\<And>code device w'. room w1 \<le> room w' + k \<Longrightarrow> (case (code, device) of
            (LFS_OK, Some d) \<Rightarrow> sound d \<and> distinct (owned d) \<and> set (owned d) \<inter> live w1 = {}
              \<and> live w' = set (owned d) \<union> live w1
          | _ \<Rightarrow> live w' = live w1) \<Longrightarrow> R (code, device) w'" for R
      proof -
        have "k \<le> room w1" using 2(4) room by simp
        with i(1) show ?thesis unfolding takes_blocks_def by (auto intro: wp_mono that)
      qed
      show ?case
        unfolding if_not_P [OF 2(1)] wp_andThen wp_fc_get wp_on_snd fst_conv snd_conv
      proof (rule create, goal_cases)
        case (1 code device w2)
        note device = 1
        show ?case
        proof (cases "code = LFS_OK \<and> device \<noteq> None")
          case False
          then have l2: "live w2 = insert m (live (snd s))"
            using 1(2) 2(3) by (cases code; cases device) simp_all
          have "wp (andThen (fc_deallocate m) (\<lambda>_. ret (nullptr, code)))
              (\<lambda>_ t. holds owned sound live room others t \<and> (\<exists>ms. fst t = ?fc\<lparr>fc_mounts := ms\<rparr>)
                \<and> room (snd s) \<le> room (snd t) + (k + 2)) (?fc, w2)"
            unfolding wp_andThen wp_ret
            by (rule dealloc) (use l2 1(1) m(2,4) unchanged same in auto)
          with False show ?thesis by (cases code; cases device) simp_all
        next
          case True
          then obtain d where ok: "code = LFS_OK" "device = Some d" by blast
          with 1(2) have d: "sound d" "distinct (owned d)" "set (owned d) \<inter> live w1 = {}"
            "live w2 = set (owned d) \<union> live w1" by simp_all
          show ?thesis
            unfolding ok prod.case lfs_error_code_t.case option.case wp_andThen
          proof (rule alloc, goal_cases)
            case 1
            then show ?case using device(1) m(4) room by simp
          next
            case (2 prefix w3)
            let ?m = "\<lparr>mi_self = m, mi_prefix = mp, mi_prefixPtr = prefix, mi_device = d, mi_interface = ?i,
              mi_prefixLen = of_nat (length mp), mi_permissions = calculatedPermissions ?i perm\<rparr>"
            have "holds owned sound live room others (?fc\<lparr>fc_mounts := fc_mounts ?fc @ [?m]\<rparr>, w3)"
            proof (rule holds_add_mount)
              show "holds owned sound live room others (?fc, snd s)" using holds by simp
              show "live w3 = set ([mi_prefixPtr ?m, mi_self ?m] @ owned (mi_device ?m)) \<union> live (snd s)"
                using 2(3) d(4) m(3) by auto
              show "distinct ([mi_prefixPtr ?m, mi_self ?m] @ owned (mi_device ?m))"
                using 2(2) d(2,3,4) m(3) by auto
              show "set ([mi_prefixPtr ?m, mi_self ?m] @ owned (mi_device ?m)) \<inter> live (snd s) = {}"
                using 2(2) d(3,4) m(2,3) by auto
              show "sound (mi_device ?m)" "gives_back (mi_interface ?m) owned sound live room"
                using d(1) i(2) by simp_all
            qed
            moreover have "room (snd s) \<le> room w3 + (k + 2)" using 2(4) device(1) m(4) by simp
            ultimately show ?case
              unfolding if_not_P [OF 2(1)] wp_andThen wp_fc_set wp_ret by auto
          qed
        qed
      qed
    qed
  qed
qed


subsection \<open>Mounted directories\<close>

text \<open>
  The blocks in use are those of the heap. A directory device owns its path and itself, and keeps the
  allocator it was made with.
\<close>

definition used_blocks :: "'os world \<Rightarrow> addr set" where
  "used_blocks w = dom (w_heap w)"

definition heap_room :: "((addr \<Rightarrow> u8 list option) \<Rightarrow> nat) \<Rightarrow> 'os world \<Rightarrow> nat" where
  "heap_room room w = room (w_heap w)"

definition device_blocks :: "'os directory_device \<Rightarrow> addr list" where
  "device_blocks d = [dd_devicePathPtr d, dd_self d]"

lemma directory_gives_back:
  "gives_back (directory_interface px) device_blocks (\<lambda>d. accounts (dd_alloc d) live room) live room"
  unfolding gives_back_def
proof (intro allI impI)
  fix d :: "'a directory_device" and w
  assume acc: "accounts (dd_alloc d) live room"
    and d: "set (device_blocks d) \<subseteq> live w" "distinct (device_blocks d)"
  have "wp (DirectoryDevice_destroy d)
      (\<lambda>_ w'. live w' = live w - set (device_blocks d) \<and> room w \<le> room w') w"
    unfolding DirectoryDevice_destroy_def DirectoryDevice_destructor_def wp_andThen
  proof (rule wp_account_free [OF acc], goal_cases)
    case 1
    then show ?case using d by (simp add: device_blocks_def)
  next
    case (2 w1)
    then show ?case
      by (intro wp_account_free [OF acc]) (use d in \<open>auto simp: device_blocks_def\<close>)
  qed
  then show "wp (call_ptr (di_destroy (directory_interface px)) (\<lambda>destroy. destroy d))
      (\<lambda>_ w'. live w' = live w - set (device_blocks d) \<and> room w \<le> room w') w"
    by (simp add: directory_interface_def call_ptr_def)
qed

lemma wp_syscall_stat:
  assumes "\<And>w'. w_heap w' = w_heap w \<Longrightarrow>
    Q (case px_stat px path (w_os w) of Inl e \<Rightarrow> None | Inr st \<Rightarrow> Some st) w'"
  shows "wp (syscall (\<lambda>os. (px_stat px path os, os))) Q w"
  using assms by (cases "px_stat px path (w_os w)") (simp_all add: wp_def syscall_def)

lemma pathLen_fits:
  assumes "length path + 1 < 2 ^ 32"
  shows "\<not> unat (of_nat (length path) + 1 :: u32) < length path + 1"
proof -
  have "(of_nat (length path) + 1 :: u32) = of_nat (length path + 1)" by simp
  moreover have "unat (of_nat (length path + 1) :: u32) = length path + 1"
    using assms by (intro unat_of_nat_small) simp
  ultimately show ?thesis by presburger
qed

lemma directory_takes_blocks:
  assumes acc: "accounts alloc used_blocks (heap_room room)" and path: "length path + 1 < 2 ^ 32"
  shows "takes_blocks (directory_interface px) alloc path 2 device_blocks
    (\<lambda>d. accounts (dd_alloc d) used_blocks (heap_room room)) used_blocks (heap_room room)"
proof -
  have "wp (DirectoryDevice_create px alloc path)
      (\<lambda>(code, device) w'. heap_room room w \<le> heap_room room w' + 2 \<and>
         (case (code, device) of
            (LFS_OK, Some d) \<Rightarrow> accounts (dd_alloc d) used_blocks (heap_room room)
              \<and> distinct (device_blocks d) \<and> set (device_blocks d) \<inter> used_blocks w = {}
              \<and> used_blocks w' = set (device_blocks d) \<union> used_blocks w
          | _ \<Rightarrow> used_blocks w' = used_blocks w)) w" if room: "2 \<le> heap_room room w" for w
    unfolding DirectoryDevice_create_def wp_andThen
  proof (rule wp_syscall_stat, goal_cases)
    case (1 w0)
    then have w0: "used_blocks w0 = used_blocks w" "heap_room room w0 = heap_room room w"
      by (simp_all add: used_blocks_def heap_room_def)
    have make: "wp (call_alloc alloc 24 8) (\<lambda>self. wp (if self = nullptr then fail_with NullDeref
        else andThen (DirectoryDevice_new self alloc path) (\<lambda>d. ret (LFS_OK, Some d)))
      (\<lambda>(code, device) w'. heap_room room w \<le> heap_room room w' + 2 \<and>
         (case (code, device) of
            (LFS_OK, Some d) \<Rightarrow> accounts (dd_alloc d) used_blocks (heap_room room)
              \<and> distinct (device_blocks d) \<and> set (device_blocks d) \<inter> used_blocks w = {}
              \<and> used_blocks w' = set (device_blocks d) \<union> used_blocks w
          | _ \<Rightarrow> used_blocks w' = used_blocks w))) w0"
    proof (rule wp_account_alloc [OF acc], goal_cases)
      case 1
      then show ?case using room w0 by simp
    next
      case (2 self w1)
      show ?case
        unfolding if_not_P [OF 2(1)] DirectoryDevice_new_def Let_def wp_andThen
      proof (rule wp_account_alloc [OF acc], goal_cases)
        case 1
        then show ?case using room w0 2 by simp
      next
        case (2 p w2)
        with \<open>self \<notin> _\<close> \<open>used_blocks w1 = _\<close> \<open>_ \<le> Suc (heap_room room w1)\<close> acc w0 pathLen_fits [OF path]
        show ?case
          by (auto simp: wp_ret device_blocks_def)
      qed
    qed
    show ?case
      using make w0
      by (cases "px_stat px path (w_os w)") (auto simp: wp_ret wp_andThen)
  qed
  then show ?thesis
    by (auto simp: takes_blocks_def directory_interface_def call_ptr_def)
qed


subsection \<open>Properties\<close>

text \<open>
  Creating a context, mounting a directory on it (successfully or not) and destroying the context never
  faults with an allocator that has room for nine blocks, and gives back every block that was taken from
  it, the one of the context included: afterwards exactly the blocks are in use that were before.
\<close>

theorem context_life_cycle_leaks_nothing:
  assumes "accounts alloc used_blocks (heap_room room)" "9 \<le> heap_room room w" "length path + 1 < 2 ^ 32"
  shows "\<exists>ctx t1 mount t2 t3.
      lfs_context_create_capacity contextSize (directory_interface px) alloc queueSize poolSize (fc, w)
        = Some (Inr (ctx, t1))
    \<and> lfs_create_mount_with_permissions ty mountPoint path permissions t1 = Some (Inr (mount, t2))
    \<and> lfs_context_destroy t2 = Some (Inr ((), t3)) \<and> used_blocks (snd t3) = used_blocks w"
proof -
  let ?sound = "\<lambda>d. accounts (dd_alloc d) used_blocks (heap_room room)"
  have "wp (lfs_context_create_capacity contextSize (directory_interface px) alloc queueSize poolSize)
    (\<lambda>_ t. holds device_blocks ?sound used_blocks (heap_room room) (used_blocks w) t \<and> stoppable (fst t)
      \<and> map snd (fc_interfaces (fst t)) = [directory_interface px] \<and> fc_alloc (fst t) = alloc
      \<and> sem_value (fc_workItemQueueSemaphore (fst t)) = 0 \<and> heap_room room w \<le> heap_room room (snd t) + 5) (fc, w)"
    using wp_lfs_context_create_capacity [OF assms(1) _ directory_interface_pointers [of px],
        where s = "(fc, w)" and owned = device_blocks and sound = ?sound and contextSize = contextSize
          and queueSize = queueSize and poolSize = poolSize] assms(2) by simp
  then obtain ctx t1 where create: "lfs_context_create_capacity contextSize (directory_interface px) alloc
        queueSize poolSize (fc, w) = Some (Inr (ctx, t1))"
    and t1: "holds device_blocks ?sound used_blocks (heap_room room) (used_blocks w) t1" "stoppable (fst t1)"
      "map snd (fc_interfaces (fst t1)) = [directory_interface px]" "fc_alloc (fst t1) = alloc"
      "heap_room room w \<le> heap_room room (snd t1) + 5"
    by (auto simp: wp_iff)
  have "wp (createMount ty mountPoint path permissions)
      (\<lambda>_ t. holds device_blocks ?sound used_blocks (heap_room room) (used_blocks w) t
        \<and> (\<exists>ms. fst t = (fst t1)\<lparr>fc_mounts := ms\<rparr>) \<and> heap_room room (snd t1) \<le> heap_room room (snd t) + (2 + 2)) t1"
  proof (rule wp_createMount_holds [OF t1(1), where k = 2])
    show "2 + 2 \<le> heap_room room (snd t1)" using assms(2) t1(5) by simp
    show "takes_blocks i (fc_alloc (fst t1)) path 2 device_blocks ?sound used_blocks (heap_room room)
        \<and> gives_back i device_blocks ?sound used_blocks (heap_room room)"
      if "i \<in> set (map snd (fc_interfaces (fst t1)))" for i
      using that directory_takes_blocks [OF assms(1,3)] directory_gives_back unfolding t1(3,4) by auto
  qed
  then obtain mount t2 where mount: "createMount ty mountPoint path permissions t1 = Some (Inr (mount, t2))"
    and t2: "holds device_blocks ?sound used_blocks (heap_room room) (used_blocks w) t2" "stoppable (fst t2)"
    using stoppable_mounts [OF t1(2)] by (auto simp: wp_iff)
  from wp_lfs_context_destroy [OF t2] obtain t3 where
    "lfs_context_destroy t2 = Some (Inr ((), t3))" "used_blocks (snd t3) = used_blocks w"
    by (auto simp: wp_iff)
  with create mount show ?thesis
    unfolding lfs_create_mount_with_permissions_def by blast
qed

text \<open>An allocator over a list of addresses, which gives the first one that is free.\<close>

definition block_addresses :: "addr list" where
  "block_addresses = [0x1000, 0x2000, 0x3000, 0x4000, 0x5000, 0x6000, 0x7000, 0x8000, 0x9000, 0xA000]"

definition free_addresses :: "(addr \<Rightarrow> u8 list option) \<Rightarrow> addr list" where
  "free_addresses h = filter (\<lambda>p. h p = None) block_addresses"

definition list_allocator :: "'os world lfs_allocator_t" where
  "list_allocator = \<lparr>
     al_alloc = Some (\<lambda>n k w. case free_addresses (w_heap w) of
         [] \<Rightarrow> Some (Inr (nullptr, w))
       | p # ps \<Rightarrow> Some (Inr (p, w\<lparr>w_heap := (w_heap w)(p \<mapsto> replicate (unat n) 0)\<rparr>))),
     al_free = Some (\<lambda>p w. Some (Inr ((), w\<lparr>w_heap := (w_heap w)(p := None)\<rparr>)))\<rparr>"

lemma free_addresses_take:
  assumes "free_addresses h = p # ps"
  shows "p \<noteq> nullptr \<and> h p = None \<and> length (p # ps) \<le> Suc (length (free_addresses (h(p \<mapsto> b))))"
proof -
  have p: "p \<in> set block_addresses" "h p = None"
    using arg_cong [OF assms, of set] by (auto simp: free_addresses_def)
  have d: "distinct block_addresses" by (simp add: block_addresses_def)
  have "set (free_addresses h) = insert p (set (free_addresses (h(p \<mapsto> b))))"
    using p by (auto simp: free_addresses_def)
  then have "card (set (free_addresses h)) \<le> Suc (card (set (free_addresses (h(p \<mapsto> b)))))"
    by (simp add: card_insert_le_m1 card_insert_if)
  moreover have "distinct (free_addresses h')" for h' using d by (simp add: free_addresses_def)
  ultimately have "length (free_addresses h) \<le> Suc (length (free_addresses (h(p \<mapsto> b))))"
    by (simp add: distinct_card)
  with assms p show ?thesis by (auto simp: block_addresses_def)
qed

lemma free_addresses_give: "length (free_addresses h) \<le> length (free_addresses (h(p := None)))"
proof -
  have d: "distinct (free_addresses h')" for h' by (simp add: free_addresses_def block_addresses_def)
  have "set (free_addresses h) \<subseteq> set (free_addresses (h(p := None)))"
    by (auto simp: free_addresses_def)
  then have "card (set (free_addresses h)) \<le> card (set (free_addresses (h(p := None))))"
    by (rule card_mono [rotated]) simp
  then show ?thesis by (simp add: distinct_card [OF d])
qed

lemma list_allocator_accounts:
  "accounts list_allocator used_blocks (heap_room (\<lambda>h. length (free_addresses h)))"
  unfolding accounts_def
proof (intro conjI allI impI)
  fix n k and w :: "'a world"
  assume "0 < heap_room (\<lambda>h. length (free_addresses h)) w"
  then obtain p ps where free: "free_addresses (w_heap w) = p # ps"
    by (cases "free_addresses (w_heap w)") (auto simp: heap_room_def)
  show "wp (call_alloc list_allocator n k) (\<lambda>p w'. p \<noteq> nullptr \<and> p \<notin> used_blocks w
      \<and> used_blocks w' = insert p (used_blocks w)
      \<and> heap_room (\<lambda>h. length (free_addresses h)) w \<le> Suc (heap_room (\<lambda>h. length (free_addresses h)) w')) w"
    using free free_addresses_take [OF free]
    by (auto simp: list_allocator_def call_alloc_def call_ptr_def wp_def heap_room_def used_blocks_def)
next
  fix p and w :: "'a world"
  show "wp (call_free list_allocator p) (\<lambda>_ w'. used_blocks w' = used_blocks w - {p}
      \<and> heap_room (\<lambda>h. length (free_addresses h)) w \<le> heap_room (\<lambda>h. length (free_addresses h)) w') w"
    using free_addresses_give [of "w_heap w" p]
    by (auto simp: list_allocator_def call_free_def call_ptr_def wp_def heap_room_def used_blocks_def)
qed

lemma context_life_cycle_leaks_nothing_witness:
  "\<forall>fc. \<exists>ctx t1 mount t2 t3.
      lfs_context_create_capacity 512 (directory_interface mem_posix) list_allocator 128 1024
        (fc, mem_world [] [''/a'']) = Some (Inr (ctx, t1))
    \<and> lfs_create_mount_with_permissions 0 ''/m'' ''/a'' 1 t1 = Some (Inr (mount, t2))
    \<and> lfs_context_destroy t2 = Some (Inr ((), t3)) \<and> w_heap (snd t3) = Map.empty"
proof
  fix fc
  have "9 \<le> heap_room (\<lambda>h. length (free_addresses h)) (mem_world [] [''/a''])"
    by (simp add: heap_room_def mem_world_def free_addresses_def block_addresses_def)
  from context_life_cycle_leaks_nothing [OF list_allocator_accounts this, of "''/a''" 512 mem_posix 128 1024 fc
      0 "''/m''" 1]
  show "\<exists>ctx t1 mount t2 t3.
      lfs_context_create_capacity 512 (directory_interface mem_posix) list_allocator 128 1024
        (fc, mem_world [] [''/a'']) = Some (Inr (ctx, t1))
    \<and> lfs_create_mount_with_permissions 0 ''/m'' ''/a'' 1 t1 = Some (Inr (mount, t2))
    \<and> lfs_context_destroy t2 = Some (Inr ((), t3)) \<and> w_heap (snd t3) = Map.empty"
    by (auto simp: used_blocks_def mem_world_def)
qed

end
