(* ===== verification/Mount_Sequences.thy ===== *)
theory Mount_Sequences
  imports Life_Cycle
begin

text \<open>
  Whole lives of a context: it is created, mounts are made and released in any order and number, and it is
  destroyed. What \<^verbatim>\<open>releaseMount\<close> takes out of the table and gives back to the allocator, wherever in the
  table the mount is, and what is left of the user's memory at the end.
\<close>

subsection \<open>Releasing a mount anywhere in the table\<close>

lemma erase_mount_split:
  "mi_self m = p \<Longrightarrow> \<forall>x \<in> set as. mi_self x \<noteq> p \<Longrightarrow> erase_mount p (as @ m # bs) = as @ bs"
  by (induction as) auto

lemma find_mount_split:
  assumes "List.find (\<lambda>m. mi_self m = p) ms = Some m"
  obtains as bs where "ms = as @ m # bs" "mi_self m = p" "p \<notin> mi_self ` set as" "erase_mount p ms = as @ bs"
proof -
  from assms obtain as bs where "ms = as @ m # bs" "mi_self m = p" "\<forall>x \<in> set as. mi_self x \<noteq> p"
    unfolding find_Some_split by blast
  then show thesis by (intro that [of as bs]) (auto simp: erase_mount_split)
qed

text \<open>The thread is stopped and started again; the stop adds at most one to the semaphore.\<close>

definition idle_within :: "nat \<Rightarrow> ('d, 'w) file_context \<Rightarrow> bool" where
  "idle_within n fc \<longleftrightarrow> thread_inv fc \<and> fc_processingThread fc \<noteq> InItem
     \<and> unat (sem_value (fc_workItemQueueSemaphore fc)) \<le> n"

lemma idle_stoppable: "idle_within n fc \<Longrightarrow> n < 2 ^ 32 - 1 \<Longrightarrow> stoppable fc"
  by (auto simp: idle_within_def stoppable_def unsigned_minus_1_eq_mask mask_eq_exp_minus_1)

lemma stoppable_idle:
  assumes "stoppable fc"
  obtains n where "idle_within n fc" "n < 2 ^ 32 - 1"
proof -
  let ?v = "sem_value (fc_workItemQueueSemaphore fc)"
  have "?v \<noteq> - 1" using assms by (simp add: stoppable_def)
  then have "unat ?v \<noteq> 2 ^ 32 - 1"
    by (simp add: word_unat_eq_iff unsigned_minus_1_eq_mask mask_eq_exp_minus_1)
  moreover have "unat ?v < 2 ^ 32" using unsigned_less [of ?v, where ?'a = nat] by simp
  moreover have "idle_within (unat ?v) fc" using assms by (simp add: idle_within_def stoppable_def)
  ultimately show thesis by (intro that [of "unat ?v"]) simp_all
qed

lemma wp_stop_idle:
  assumes "idle_within n (fst s)" "n < 2 ^ 32 - 1"
    and "\<And>fc. same_work (fst s) fc \<Longrightarrow> fc_mounts fc = fc_mounts (fst s) \<Longrightarrow> \<not> fc_processing fc \<Longrightarrow>
      fc_processingThread fc = NotStarted \<Longrightarrow> unat (sem_value (fc_workItemQueueSemaphore fc)) \<le> Suc n \<Longrightarrow>
      Q () (fc, snd s)"
  shows "wp stopProcessingThread Q s"
proof -
  let ?v = "sem_value (fc_workItemQueueSemaphore (fst s))"
  have v: "unat ?v \<le> n" using assms(1) by (simp add: idle_within_def)
  then have inc: "unat (?v + 1) = Suc (unat ?v)"
    using assms(2) by (intro unat_word_ariths(1) [THEN trans]) simp
  have "?v + 1 \<noteq> 0" using inc by auto
  with v inc assms show ?thesis
    by (cases s; cases "fc_processingThread (fst s)")
      (auto simp: stopProcessingThread_def join_processingThread_def wp_simps idle_within_def thread_inv_def
        same_work_def sem_wait_def sem_notify_def)
qed

text \<open>The blocks of a mount, and what is left to hold when they are given back.\<close>

abbreviation mount_blocks :: "('d \<Rightarrow> addr list) \<Rightarrow> ('d, 'w) mount_info \<Rightarrow> addr list" where
  "mount_blocks owned m \<equiv> [mi_prefixPtr m, mi_self m] @ owned (mi_device m)"

lemma distinct_remove_blocks:
  assumes "distinct (A @ N @ B)" "set (A @ N @ B) \<inter> others = {}"
  shows "distinct (A @ B)" "set (A @ B) \<inter> others = {}" "set (A @ N @ B) \<union> others - set N = set (A @ B) \<union> others"
  using assms by auto

lemma holds_remove_mount:
  assumes holds: "holds owned sound live room others (fc, w0)" and ms: "fc_mounts fc = as @ m # bs"
    and live: "live w = live w0 - set (mount_blocks owned m)"
    and same: "same_work fc fc'" "fc_mounts fc' = as @ bs"
  shows "holds owned sound live room others (fc', w)"
proof -
  let ?A = "concat (map (mount_blocks owned) as)"
  let ?C = "concat (map (mount_blocks owned) bs)"
  let ?B = "?C @ map fst (fc_interfaces fc)
     @ [fc_queueBuffer fc, pl_storage (fc_workItemPool fc), fc_poolBitmask fc, fc_self fc]"
  let ?N = "mount_blocks owned m"
  have bs: "owned_blocks owned fc = ?A @ ?N @ ?B" "owned_blocks owned fc' = ?A @ ?B"
    using ms same by (simp_all add: owned_blocks_def same_work_def)
  from holds have h: "distinct (?A @ ?N @ ?B)" "set (?A @ ?N @ ?B) \<inter> others = {}"
    "live w0 = set (?A @ ?N @ ?B) \<union> others" "accounts (fc_alloc fc) live room"
    "\<forall>m \<in> set (fc_mounts fc). sound (mi_device m) \<and> gives_back (mi_interface m) owned sound live room"
    unfolding holds_def Let_def bs fst_conv snd_conv by blast+
  note rest = distinct_remove_blocks [OF h(1,2)]
  have "live w = set (?A @ ?B) \<union> others" unfolding live h(3) by (rule rest(3))
  moreover note rest(1,2)
  moreover have "accounts (fc_alloc fc') live room" using h(4) same(1) by (simp add: same_work_def)
  moreover have "set (fc_mounts fc') \<subseteq> set (fc_mounts fc)" using same(2) ms by auto
  with h(5) have "\<forall>m \<in> set (fc_mounts fc'). sound (mi_device m) \<and> gives_back (mi_interface m) owned sound live room"
    by blast
  ultimately show ?thesis
    unfolding holds_def Let_def fst_conv snd_conv bs(2) by blast
qed

lemma holds_same_work:
  assumes "holds owned sound live room others (fc, w)" "same_work fc fc'" "fc_mounts fc' = fc_mounts fc"
  shows "holds owned sound live room others (fc', w)"
  using assms by (simp add: holds_def Let_def owned_blocks_def same_work_def)

text \<open>
  \<^verbatim>\<open>releaseMount\<close> takes the mount at the address out of the table, if there is one, and gives its blocks back.
\<close>

lemma wp_releaseMount_holds:
  fixes s :: "('d, 'w) ctx"
  assumes holds: "holds owned sound live room others s" and idle: "idle_within n (fst s)" "n < 2 ^ 32 - 1"
  shows "wp (releaseMount p) (\<lambda>r t. holds owned sound live room others t \<and> idle_within (Suc n) (fst t)
    \<and> same_work (fst s) (fst t) \<and> room (snd s) \<le> room (snd t)
    \<and> (r \<longleftrightarrow> p \<in> mi_self ` set (fc_mounts (fst s)))
    \<and> fc_mounts (fst t) = filter (\<lambda>m. mi_self m \<noteq> p) (fc_mounts (fst s))) s"
proof -
  let ?fc = "fst s"
  let ?Q = "\<lambda>r t. holds owned sound live room others t \<and> idle_within (Suc n) (fst t)
    \<and> same_work (fst s) (fst t) \<and> room (snd s) \<le> room (snd t)
    \<and> (r \<longleftrightarrow> p \<in> mi_self ` set (fc_mounts (fst s)))
    \<and> fc_mounts (fst t) = filter (\<lambda>m. mi_self m \<noteq> p) (fc_mounts (fst s))"
  have start: "wp startProcessingThread (\<lambda>_. Q) (fc, w)"
    if "\<not> fc_processing fc" "Q (fc\<lparr>fc_processing := True, fc_processingThread := AtLoop\<rparr>, w)" for Q fc w
    using that by (simp add: startProcessingThread_def wp_simps)
  show ?thesis
    unfolding releaseMount_def wp_andThen
  proof (rule wp_stop_idle [OF idle], goal_cases)
    case (1 fc)
    note fc = 1
    have idle': "idle_within (Suc n) (fc'\<lparr>fc_processing := True, fc_processingThread := AtLoop\<rparr>)"
      if "fc_workItemQueueSemaphore fc' = fc_workItemQueueSemaphore fc" for fc' :: "('d, 'w) file_context"
      using fc(5) that by (simp add: idle_within_def thread_inv_def)
    have acc: "accounts (fc_alloc fc) live room" using holds fc(1) by (simp add: holds_def Let_def same_work_def)
    show ?case
    proof (cases "List.find (\<lambda>m. mi_self m = p) (fc_mounts fc)")
      case None
      then have no: "p \<notin> mi_self ` set (fc_mounts ?fc)" using fc(2) by (auto simp: find_None_iff)
      then have "filter (\<lambda>m. mi_self m \<noteq> p) (fc_mounts ?fc) = fc_mounts ?fc" by (auto intro: filter_True)
      with None no show ?thesis
        unfolding wp_fc_get fst_conv snd_conv None option.case wp_ret wp_andThen
        using holds_same_work [of owned sound live room others ?fc "snd s"] holds fc idle' [of fc]
        by (intro start) (simp_all add: same_work_def)
    next
      case (Some m)
      then obtain as bs where split: "fc_mounts fc = as @ m # bs" "mi_self m = p" "p \<notin> mi_self ` set as"
        "erase_mount p (fc_mounts fc) = as @ bs" by (rule find_mount_split)
      let ?own = "set (owned (mi_device m))"
      have m: "m \<in> set (fc_mounts ?fc)" and ms: "fc_mounts ?fc = as @ m # bs" using split(1) fc(2) by auto
      have bs: "owned_blocks owned ?fc = concat (map (mount_blocks owned) as) @ mount_blocks owned m
          @ concat (map (mount_blocks owned) bs) @ map fst (fc_interfaces ?fc)
          @ [fc_queueBuffer ?fc, pl_storage (fc_workItemPool ?fc), fc_poolBitmask ?fc, fc_self ?fc]"
        by (simp add: owned_blocks_def ms)
      have distinct: "distinct (owned_blocks owned ?fc)" and live: "set (mount_blocks owned m) \<subseteq> live (snd s)"
        and dev: "sound (mi_device m)" "gives_back (mi_interface m) owned sound live room"
        using holds m by (auto simp: holds_def Let_def bs)
      then have d: "distinct (mount_blocks owned m)" "mi_self m \<notin> mi_self ` set bs" by (auto simp: bs)
      have "mi_self x \<noteq> p" if "x \<in> set (as @ bs)" for x
        using that split(2,3) d(2) by (metis Un_iff image_eqI set_append)
      then have rest: "filter (\<lambda>m. mi_self m \<noteq> p) (fc_mounts ?fc) = as @ bs"
        using split(2) by (simp add: ms)
      have destroyed: "wp (call_ptr (di_destroy (mi_interface m)) (\<lambda>destroy. destroy (mi_device m)))
          (\<lambda>_ w'. live w' = live (snd s) - ?own \<and> room (snd s) \<le> room w') (snd s)"
        using dev d(1) live unfolding gives_back_def by auto
      show ?thesis
        unfolding wp_fc_get fst_conv snd_conv Some option.case wp_andThen wp_on_snd
      proof (rule wp_mono [OF destroyed], goal_cases)
        case (1 u w1)
        show ?case
        proof (rule wp_fc_deallocate_account [where live = live and room = room], goal_cases)
          case 1
          then show ?case using acc by simp
        next
          case 2
          then show ?case using \<open>live w1 = _ \<and> _\<close> d(1) live by auto
        next
          case (3 w2)
          show ?case
          proof (rule wp_fc_deallocate_account [where live = live and room = room], goal_cases)
            case 1
            then show ?case using acc by simp
          next
            case 2
            then show ?case using 3 \<open>live w1 = _ \<and> _\<close> d(1) live by auto
          next
            case (3 w3)
            have l3: "live w3 = live (snd s) - set (mount_blocks owned m)" and r3: "room (snd s) \<le> room w3"
              using 3 \<open>live w2 = _\<close> \<open>room _ \<le> room w2\<close> \<open>live w1 = _ \<and> _\<close> by auto
            let ?fc' = "fc\<lparr>fc_mounts := as @ bs, fc_processing := True, fc_processingThread := AtLoop\<rparr>"
            have "same_work ?fc ?fc'" using fc(1) by (simp add: same_work_def)
            moreover have "holds owned sound live room others (?fc', w3)"
            proof (rule holds_remove_mount [where fc = ?fc and ?w0.0 = "snd s" and m = m and as = as and bs = bs])
              show "holds owned sound live room others (?fc, snd s)" using holds by (simp only: prod.collapse)
            qed (rule ms, rule l3, rule \<open>same_work ?fc ?fc'\<close>, simp)
            ultimately show ?case
              unfolding wp_fc_set wp_ret fst_conv snd_conv split(4)
              using r3 rest split(2) m idle' [of "fc\<lparr>fc_mounts := as @ bs\<rparr>"]
              by (intro start) (auto simp: fc(3))
          qed
        qed
      qed
    qed
  qed
qed

subsection \<open>Any sequence of mounts\<close>

text \<open>What a user of the context does with mounts, as calls of the C interface.\<close>

datatype mount_op = AddMount u32 string string u32 | RemoveMount addr

fun run_mount_ops :: "mount_op list \<Rightarrow> (unit, ('d, 'w) ctx) prog" where
  "run_mount_ops [] = ret ()"
| "run_mount_ops (AddMount deviceType mountPoint devicePath permissions # ops) =
     andThen (lfs_create_mount_with_permissions deviceType mountPoint devicePath permissions) (\<lambda>_.
     run_mount_ops ops)"
| "run_mount_ops (RemoveMount mount # ops) =
     andThen (lfs_release_mount mount) (\<lambda>_. run_mount_ops ops)"

fun device_paths :: "mount_op list \<Rightarrow> string list" where
  "device_paths [] = []"
| "device_paths (AddMount ty mp dp perm # ops) = dp # device_paths ops"
| "device_paths (RemoveMount m # ops) = device_paths ops"

lemma idle_within_mono: "idle_within n fc \<Longrightarrow> n \<le> n' \<Longrightarrow> idle_within n' fc"
  by (simp add: idle_within_def)

lemma idle_within_mounts: "idle_within n fc \<Longrightarrow> idle_within n (fc\<lparr>fc_mounts := ms\<rparr>)"
  by (simp add: idle_within_def thread_inv_def)

lemma wp_run_mount_ops:
  assumes "holds owned sound live room others s" "idle_within n (fst s)" "n + length ops < 2 ^ 32 - 1"
    and "(k + 2) * length (device_paths ops) \<le> room (snd s)"
    and "\<And>i dp. i \<in> set (map snd (fc_interfaces (fst s))) \<Longrightarrow> dp \<in> set (device_paths ops) \<Longrightarrow>
      takes_blocks i (fc_alloc (fst s)) dp k owned sound live room \<and> gives_back i owned sound live room"
  shows "wp (run_mount_ops ops) (\<lambda>_ t. holds owned sound live room others t \<and> stoppable (fst t)) s"
  using assms
proof (induction ops arbitrary: s n rule: run_mount_ops.induct)
  case 1
  then show ?case using idle_stoppable [of n "fst s"] by (simp add: wp_ret)
next
  case (2 ty mp dp perm ops)
  have "wp (createMount ty mp dp perm) (\<lambda>_ t. holds owned sound live room others t
    \<and> (\<exists>ms. fst t = (fst s)\<lparr>fc_mounts := ms\<rparr>) \<and> room (snd s) \<le> room (snd t) + (k + 2)) s"
  proof (rule wp_createMount_holds [OF "2.prems"(1)])
    show "k + 2 \<le> room (snd s)" using "2.prems"(4) by simp
    show "takes_blocks i (fc_alloc (fst s)) dp k owned sound live room \<and> gives_back i owned sound live room"
      if "i \<in> set (map snd (fc_interfaces (fst s)))" for i
      using that by (intro "2.prems"(5)) simp_all
  qed
  then show ?case
    unfolding run_mount_ops.simps lfs_create_mount_with_permissions_def wp_andThen
  proof (rule wp_mono, goal_cases)
    case (1 r t)
    then obtain ms where t: "fst t = (fst s)\<lparr>fc_mounts := ms\<rparr>" by blast
    show ?case
    proof (rule "2.IH" [of t n])
      show "idle_within n (fst t)" unfolding t using "2.prems"(2) by (rule idle_within_mounts)
      show "takes_blocks i (fc_alloc (fst t)) dp k owned sound live room \<and> gives_back i owned sound live room"
        if "i \<in> set (map snd (fc_interfaces (fst t)))" "dp \<in> set (device_paths ops)" for i dp
        using "2.prems"(5) [of i dp] that by (simp add: t)
    qed (use 1 "2.prems"(3,4) in simp_all)
  qed
next
  case (3 m ops)
  have "wp (releaseMount m) (\<lambda>r t. holds owned sound live room others t \<and> idle_within (Suc n) (fst t)
    \<and> same_work (fst s) (fst t) \<and> room (snd s) \<le> room (snd t)
    \<and> (r \<longleftrightarrow> m \<in> mi_self ` set (fc_mounts (fst s)))
    \<and> fc_mounts (fst t) = filter (\<lambda>m'. mi_self m' \<noteq> m) (fc_mounts (fst s))) s"
    using 3 by (intro wp_releaseMount_holds) simp_all
  then show ?case
    unfolding run_mount_ops.simps lfs_release_mount_def wp_andThen
  proof (rule wp_mono, goal_cases)
    case (1 r t)
    show ?case
      by (rule "3.IH" [of t "Suc n"]) (use 1 "3.prems" in \<open>auto simp: same_work_def\<close>)
  qed
qed

subsection \<open>Properties\<close>

text \<open>
  A context is created, directories are mounted on it and mounts are released, in any order, with any
  arguments, successfully or not, and the context is destroyed. With an allocator that has room for five blocks
  and four for every mount, and fewer than \<open>2 ^ 32 - 1\<close> of these calls, none of them faults, and at the end
  exactly the blocks are in use that were before.
\<close>

lemma any_context_life_leaks_nothing:
  assumes "accounts alloc used_blocks (heap_room room)" "5 + 4 * length (device_paths ops) \<le> heap_room room w"
    and "\<And>path. path \<in> set (device_paths ops) \<Longrightarrow> length path + 1 < 2 ^ 32" "length ops < 2 ^ 32 - 1"
  shows "\<exists>ctx t1 t2 t3.
      lfs_context_create_capacity contextSize (directory_interface px) alloc queueSize poolSize (fc, w)
        = Some (Inr (ctx, t1))
    \<and> run_mount_ops ops t1 = Some (Inr ((), t2))
    \<and> lfs_context_destroy t2 = Some (Inr ((), t3)) \<and> used_blocks (snd t3) = used_blocks w"
proof -
  let ?sound = "\<lambda>d. accounts (dd_alloc d) used_blocks (heap_room room)"
  let ?holds = "holds device_blocks ?sound used_blocks (heap_room room) (used_blocks w)"
  have "wp (lfs_context_create_capacity contextSize (directory_interface px) alloc queueSize poolSize)
    (\<lambda>_ t. ?holds t \<and> stoppable (fst t) \<and> map snd (fc_interfaces (fst t)) = [directory_interface px]
      \<and> fc_alloc (fst t) = alloc \<and> sem_value (fc_workItemQueueSemaphore (fst t)) = 0
      \<and> heap_room room w \<le> heap_room room (snd t) + 5) (fc, w)"
    using wp_lfs_context_create_capacity [OF assms(1) _ directory_interface_pointers [of px],
        where s = "(fc, w)" and owned = device_blocks and sound = ?sound and contextSize = contextSize
          and queueSize = queueSize and poolSize = poolSize] assms(2) by simp
  then obtain ctx t1 where create: "lfs_context_create_capacity contextSize (directory_interface px) alloc
        queueSize poolSize (fc, w) = Some (Inr (ctx, t1))"
    and t1: "?holds t1" "stoppable (fst t1)" "map snd (fc_interfaces (fst t1)) = [directory_interface px]"
      "fc_alloc (fst t1) = alloc" "sem_value (fc_workItemQueueSemaphore (fst t1)) = 0"
      "heap_room room w \<le> heap_room room (snd t1) + 5"
    by (auto simp: wp_iff)
  have "wp (run_mount_ops ops) (\<lambda>_ t. ?holds t \<and> stoppable (fst t)) t1"
  proof (rule wp_run_mount_ops [OF t1(1), where n = 0 and k = 2])
    show "idle_within 0 (fst t1)" using t1(2,5) by (simp add: idle_within_def stoppable_def)
    show "takes_blocks i (fc_alloc (fst t1)) dp 2 device_blocks ?sound used_blocks (heap_room room)
        \<and> gives_back i device_blocks ?sound used_blocks (heap_room room)"
      if "i \<in> set (map snd (fc_interfaces (fst t1)))" "dp \<in> set (device_paths ops)" for i dp
      using that directory_takes_blocks [OF assms(1,3)] directory_gives_back unfolding t1(3,4) by auto
  qed (use assms(2,4) t1(6) in simp_all)
  then obtain t2 where run: "run_mount_ops ops t1 = Some (Inr ((), t2))"
    and t2: "?holds t2" "stoppable (fst t2)"
    by (auto simp: wp_iff)
  from wp_lfs_context_destroy [OF t2] obtain t3 where
    "lfs_context_destroy t2 = Some (Inr ((), t3))" "used_blocks (snd t3) = used_blocks w"
    by (auto simp: wp_iff)
  with create run show ?thesis by blast
qed

text \<open>Nine blocks: a directory is mounted, released (the address is the one it was given) and released again.\<close>

lemma any_context_life_leaks_nothing_witness:
  "\<forall>fc. \<exists>ctx t1 t2 t3.
      lfs_context_create_capacity 512 (directory_interface mem_posix) list_allocator 128 1024
        (fc, mem_world [] [''/a'']) = Some (Inr (ctx, t1))
    \<and> run_mount_ops [AddMount 0 ''/m'' ''/a'' 1, RemoveMount 0x6000, RemoveMount 0x6000] t1 = Some (Inr ((), t2))
    \<and> lfs_context_destroy t2 = Some (Inr ((), t3)) \<and> w_heap (snd t3) = Map.empty"
proof
  fix fc
  let ?ops = "[AddMount 0 ''/m'' ''/a'' 1, RemoveMount 0x6000, RemoveMount 0x6000]"
  have "5 + 4 * length (device_paths ?ops)
      \<le> heap_room (\<lambda>h. length (free_addresses h)) (mem_world [] [''/a''])"
    by (simp add: heap_room_def mem_world_def free_addresses_def block_addresses_def)
  from any_context_life_leaks_nothing [OF list_allocator_accounts this, of 512 mem_posix 128 1024 fc]
  show "\<exists>ctx t1 t2 t3.
      lfs_context_create_capacity 512 (directory_interface mem_posix) list_allocator 128 1024
        (fc, mem_world [] [''/a'']) = Some (Inr (ctx, t1))
    \<and> run_mount_ops ?ops t1 = Some (Inr ((), t2))
    \<and> lfs_context_destroy t2 = Some (Inr ((), t3)) \<and> w_heap (snd t3) = Map.empty"
    by (auto simp: used_blocks_def mem_world_def)
qed

text \<open>
  C29: releasing a mount takes exactly that mount out of the table, wherever it is, and keeps the others in
  their order; it gives back the blocks of the mount and of its device and nothing else; it answers whether
  there was such a mount; and it leaves the pending requests and their items as they were.
\<close>

theorem release_takes_out_one_mount:
  assumes "holds owned sound live room others (fc, w)" "stoppable fc"
  shows "\<exists>fc' w'. releaseMount p (fc, w) = Some (Inr (p \<in> mi_self ` set (fc_mounts fc), (fc', w')))
    \<and> fc_mounts fc' = filter (\<lambda>m. mi_self m \<noteq> p) (fc_mounts fc) \<and> same_work fc fc'
    \<and> holds owned sound live room others (fc', w')"
proof -
  obtain n where "idle_within n fc" "n < 2 ^ 32 - 1" using assms(2) by (rule stoppable_idle)
  with assms(1) have "wp (releaseMount p) (\<lambda>r t. holds owned sound live room others t \<and> idle_within (Suc n) (fst t)
    \<and> same_work (fst (fc, w)) (fst t) \<and> room (snd (fc, w)) \<le> room (snd t)
    \<and> (r \<longleftrightarrow> p \<in> mi_self ` set (fc_mounts (fst (fc, w))))
    \<and> fc_mounts (fst t) = filter (\<lambda>m. mi_self m \<noteq> p) (fc_mounts (fst (fc, w)))) (fc, w)"
    by (intro wp_releaseMount_holds) simp_all
  then show ?thesis by (auto simp: wp_iff)
qed


text \<open>A context with two mounts of a device that owns nothing.\<close>

definition bare_device :: "(unit, 'w) device_interface" where
  "bare_device = \<lparr>di_create = Some (\<lambda>a p. ret (LFS_OK, Some ())), di_destroy = Some (\<lambda>d. ret ()),
     di_fileExists = Some (\<lambda>d p. ret True), di_fileSize = Some (\<lambda>d p c. ret (0, LFS_OK)),
     di_readFile = Some (\<lambda>d p off n a b nt c. ret (0, nullptr, LFS_OK)),
     di_writeFile = None, di_deleteFile = None, di_createDir = None, di_deleteDir = None\<rparr>"

definition bare_mount :: "addr \<Rightarrow> addr \<Rightarrow> string \<Rightarrow> (unit, memory_os world) mount_info" where
  "bare_mount self prefix point = \<lparr>mi_self = self, mi_prefix = point, mi_prefixPtr = prefix, mi_device = (),
     mi_interface = bare_device, mi_prefixLen = of_nat (length point), mi_permissions = 1\<rparr>"

definition managed_context :: "(unit, memory_os world) file_context" where
  "managed_context = \<lparr>fc_self = 0x1000, fc_interfaces = [(0x5000, bare_device)],
     fc_mounts = [bare_mount 0x6000 0x7000 ''/a'', bare_mount 0x8000 0x9000 ''/b''],
     fc_workItemPool = pl_new 0x2000 104 2, fc_poolBitmask = 0x3000, fc_items = Map.empty,
     fc_workItemQueueSemaphore = sem_new 0, fc_workItemQueue = rb_new [0, 0] 2 True,
     fc_queueBuffer = 0x4000, fc_processingThread = AtLoop, fc_alloc = list_allocator,
     fc_log = nullptr, fc_processing = True\<rparr>"

definition managed_context_world :: "memory_os world" where
  "managed_context_world = (mem_world [] [])\<lparr>w_heap := (\<lambda>p. if p \<in> set (take 9 block_addresses) then Some [] else None)\<rparr>"

lemma managed_context_holds:
  "holds (\<lambda>d. []) (\<lambda>d. True) used_blocks (heap_room (\<lambda>h. length (free_addresses h))) {} (managed_context, managed_context_world)"
proof -
  have "gives_back bare_device (\<lambda>d. []) (\<lambda>d. True) used_blocks (heap_room (\<lambda>h. length (free_addresses h)))"
    by (simp add: gives_back_def bare_device_def call_ptr_def wp_ret)
  moreover have "owned_blocks (\<lambda>d. []) managed_context = [0x7000, 0x6000, 0x9000, 0x8000, 0x5000, 0x4000, 0x2000, 0x3000, 0x1000]"
    by (simp add: owned_blocks_def managed_context_def bare_mount_def pl_new_def lldiv_def)
  moreover have "used_blocks managed_context_world
      = {0x7000, 0x6000, 0x9000, 0x8000, 0x5000, 0x4000, 0x2000, 0x3000, 0x1000}"
    by (auto simp: used_blocks_def managed_context_world_def block_addresses_def dom_def)
  ultimately show ?thesis
    using list_allocator_accounts by (simp add: holds_def managed_context_def bare_mount_def)
qed

lemma release_takes_out_one_mount_witness:
  "\<exists>fc' w'. releaseMount 0x6000 (managed_context, managed_context_world) = Some (Inr (True, (fc', w')))
    \<and> map mi_prefix (fc_mounts fc') = [''/b''] \<and> pending fc' = []"
proof -
  have stop: "stoppable managed_context"
    by (simp add: stoppable_def managed_context_def thread_inv_def sem_new_def)
  from release_takes_out_one_mount [OF managed_context_holds stop, where p = "0x6000"] show ?thesis
    by (auto simp: same_work_def managed_context_def bare_mount_def rb_contents_def rb_new_def rb_count_def)
qed

end
