(* ===== verification/Write_Read.thy ===== *)
theory Write_Read
  imports Directory_Changes Directory_Overlay Processing
begin

text \<open>
  What is written is read back: a write request and a later read request for the same path, from the queue
  through the mount table and the directory device down to the system calls, and back to the buffer the client
  finds in its work item.
\<close>

subsection \<open>What the host promises\<close>

text \<open>
  A file of the host with a content: it can be opened for reading, its end is at the length of the content,
  and a read from a position gives the bytes from there (for counts up to \<^verbatim>\<open>SSIZE_MAX\<close>; the host decides what
  larger ones do).
\<close>

definition has_file :: "'os posix \<Rightarrow> string \<Rightarrow> u8 list \<Rightarrow> 'os \<Rightarrow> bool" where
  "has_file px path content os \<longleftrightarrow>
     (\<exists>fd os1 os2. px_open px path O_RDONLY 0x1A4 os = (Inr fd, os1)
        \<and> px_lseek px fd 0 SEEK_END os1 = (Inr (of_nat (length content)), os2)
        \<and> (\<forall>off. unat off \<le> length content \<longrightarrow>
             (\<exists>os3. px_lseek px fd off SEEK_SET os2 = (Inr off, os3)
                \<and> (\<forall>n. unat n < 2 ^ 63 \<longrightarrow> fst (px_read px fd n os3) = Inr (take (unat n) (drop (unat off) content))))))"

text \<open>
  A host that takes some bytes at a path: the file can be opened for writing and truncated, all the bytes are
  written at its start, and once it is closed there is a file with this content.
\<close>

definition takes_file :: "'os posix \<Rightarrow> string \<Rightarrow> u8 list \<Rightarrow> 'os \<Rightarrow> bool" where
  "takes_file px path content os \<longleftrightarrow>
     (\<exists>fd os1 os2 os3. px_open px path (or (or O_WRONLY O_CREAT) O_TRUNC) 0x1A4 os = (Inr fd, os1)
        \<and> px_lseek px fd 0 SEEK_SET os1 = (Inr 0, os2)
        \<and> px_write px fd content os2 = (Inr (of_nat (length content)), os3)
        \<and> has_file px path content (snd (px_close px fd os3)))"

lemma has_fileE:
  assumes "has_file px path content os" "unat off \<le> length content"
  obtains fd os1 os2 os3 where "px_open px path O_RDONLY 0x1A4 os = (Inr fd, os1)"
    "px_lseek px fd 0 SEEK_END os1 = (Inr (of_nat (length content)), os2)"
    "px_lseek px fd off SEEK_SET os2 = (Inr off, os3)"
    "\<And>n. unat n < 2 ^ 63 \<Longrightarrow> fst (px_read px fd n os3) = Inr (take (unat n) (drop (unat off) content))"
  using assms unfolding has_file_def by blast

subsection \<open>The mount that serves a path\<close>

text \<open>
  The newest mount the path matches, a directory, with the permissions to read and to write files. (Newer
  mounts may lie anywhere else.)
\<close>

definition serves :: "'os posix \<Rightarrow> string \<Rightarrow> ('os directory_device, 'os world) mount_info
    \<Rightarrow> ('os directory_device, 'os world) mount_info list \<Rightarrow> bool" where
  "serves px path m mounts \<longleftrightarrow>
     (\<exists>older newer. mounts = older @ m # newer \<and> (\<forall>m' \<in> set newer. \<not> mount_matches path m'))
     \<and> mount_matches path m \<and> readable m \<and> mi_permissions m AND LFS_MOUNT_WRITE_FILE \<noteq> 0
     \<and> directory_mount px path m"

lemma serves_lookup:
  assumes "serves px path m mounts"
  shows "findNextMountAndPath path nullptr mounts = Some (m, mount_devicePath path m)"
    and "findMutableMountAndPath path LFS_OP_WRITE mounts = Some (m, mount_devicePath path m)"
proof -
  from assms obtain older newer where ms: "mounts = older @ m # newer"
    and newer: "\<forall>m' \<in> set newer. \<not> mount_matches path m'"
    and m: "mount_matches path m" "readable m" "mi_permissions m AND LFS_MOUNT_WRITE_FILE \<noteq> 0"
    unfolding serves_def by blast
  have "visible_mounts path mounts = m # filter (\<lambda>m. readable m \<and> mount_matches path m) (rev older)"
    using newer m by (simp add: visible_mounts_def ms)
  then show "findNextMountAndPath path nullptr mounts = Some (m, mount_devicePath path m)"
    by (simp add: findNext_first)
  have "List.find (\<lambda>m. mount_matches path m \<and> \<not> mount_denies LFS_OP_WRITE (mi_permissions m)) (rev mounts) = Some m"
    unfolding find_Some_split
    using newer m by (intro exI [of _ "rev newer"] exI [of _ "rev older"]) (auto simp: ms mount_denies_def)
  then show "findMutableMountAndPath path LFS_OP_WRITE mounts = Some (m, mount_devicePath path m)"
    by (simp add: findMutableMountAndPath_def findMutable_scan_find)
qed

lemma process_write_item:
  assumes "serves px path m mounts" "wi_filenameText it = path" "wi_operation it = LFS_OP_WRITE" "wi_offset it = 0"
    and "w_heap w (wi_buffer it) = Some block" "unat (wi_bufferBytes it) \<le> length block"
    and "leaves_alone (dd_alloc (mi_device m)) (wi_buffer it)"
    and "takes_file px (host_path path m) (take (unat (wi_bufferBytes it)) block) (w_os w)"
  shows "\<exists>w'. process_item mounts it w = Some (Inr (it\<lparr>wi_resultCode := LFS_OK\<rparr>, w'))
    \<and> has_file px (host_path path m) (take (unat (wi_bufferBytes it)) block) (w_os w')"
proof -
  let ?bs = "take (unat (wi_bufferBytes it)) block"
  from assms(8) obtain fd os1 os2 os3 where
    host: "px_open px (host_path path m) (open_flags LFS_WRITE_TRUNCATE) 0x1A4 (w_os w) = (Inr fd, os1)"
      "px_lseek px fd 0 SEEK_SET os1 = (Inr 0, os2)" "px_write px fd ?bs os2 = (Inr (of_nat (length ?bs)), os3)"
    and kept: "has_file px (host_path path m) ?bs (snd (px_close px fd os3))"
    by (auto simp: takes_file_def open_flag_defs)
  have dev: "mi_interface m = directory_interface px" "servable_path (mi_device m) (mount_devicePath path m)"
    using assms(1) by (simp_all add: serves_def directory_mount_def)
  have len: "of_nat (length ?bs) = wi_bufferBytes it" using assms(6) by (simp add: min_absorb2)
  from directory_write [OF dev(2) assms(7,5,6) host(1,2), of "wi_bufferBytes it" os3 "wi_resultCode it"] host(3)
  obtain w' where "DirectoryDevice_writeFile px (mi_device m) (mount_devicePath path m) 0 (wi_buffer it)
      (wi_bufferBytes it) LFS_WRITE_TRUNCATE (wi_resultCode it) w = Some (Inr ((wi_bufferBytes it, LFS_OK), w'))"
    "w_os w' = snd (px_close px fd os3)"
    unfolding len by blast
  with kept dev(1) show ?thesis
    using assms(2-4) serves_lookup(2) [OF assms(1)]
    by (simp add: process_item_def process_write_def write_mode_def directory_interface_def call_ptr_def prog_simps)
qed

lemma process_read_item:
  assumes "serves px path m mounts" "wi_filenameText it = path" "wi_operation it = LFS_OP_READ"
    and "gives_blocks (wi_allocator it)" "has_file px (host_path path m) content (w_os w)"
    and "content \<noteq> []" "length content < 2 ^ 63" "unat (wi_offset it) \<le> length content"
    and "data = take (unat (wi_bufferBytes it)) (drop (unat (wi_offset it)) content)"
  shows "\<exists>q w'. process_item mounts it w = Some (Inr (it\<lparr>wi_bufferBytes := of_nat (length data),
      wi_buffer := q, wi_resultCode := LFS_OK\<rparr>, w'))
    \<and> q \<noteq> nullptr \<and> w_heap w' q = Some (data @ (if wi_nullTerminate it then [0] else []))"
proof -
  have dev: "mi_interface m = directory_interface px" "servable_path (mi_device m) (mount_devicePath path m)"
    using assms(1) by (simp_all add: serves_def directory_mount_def)
  from assms(5,8) obtain fd os1 os2 os3 where host: "px_open px (host_path path m) O_RDONLY 0x1A4 (w_os w) = (Inr fd, os1)"
    "px_lseek px fd 0 SEEK_END os1 = (Inr (of_nat (length content)), os2)"
    "px_lseek px fd (wi_offset it) SEEK_SET os2 = (Inr (wi_offset it), os3)"
    "\<And>n. unat n < 2 ^ 63 \<Longrightarrow> fst (px_read px fd n os3) = Inr (take (unat n) (drop (unat (wi_offset it)) content))"
    by (rule has_fileE) (use that in blast)
  from directory_read [OF dev(2) assms(4) host assms(6-9), of "wi_buffer it" "wi_nullTerminate it" LFS_NOT_FOUND]
  obtain q w' where "DirectoryDevice_readFile px (mi_device m) (mount_devicePath path m) (wi_offset it)
      (wi_bufferBytes it) (wi_allocator it) (wi_buffer it) (wi_nullTerminate it) LFS_NOT_FOUND w
      = Some (Inr ((of_nat (length data), q, LFS_OK), w'))"
    "q \<noteq> nullptr" "w_heap w' q = Some (data @ (if wi_nullTerminate it then [0] else []))" by blast
  then show ?thesis
    using dev(1) assms(2,3) serves_lookup(1) [OF assms(1)]
    by (intro exI [of _ q] exI [of _ w'])
      (simp add: process_item_def process_read_def read_loop.simps directory_interface_def call_ptr_def prog_simps)
qed

subsection \<open>Properties\<close>

text \<open>
  C5: a read that is submitted after a write of the same file gives what was written. With a write of a
  non-empty buffer and a read of the same path pending in this order, the thread processes both and waits; both
  items are completed with \<^verbatim>\<open>LFS_OK\<close>; the write reports all its bytes; and the buffer of the read item
  holds the requested part of the bytes written, zero-terminated on request.
\<close>

theorem written_file_is_read_back:
  assumes "ctx_inv fc" "fc_processing fc" "fc_processingThread fc \<noteq> InItem" "pending fc = [a, b]"
    and "fc_items fc a = Some wr" "fc_items fc b = Some rd" "wi_callback wr = nullptr" "wi_callback rd = nullptr"
    and "wi_operation wr = LFS_OP_WRITE" "wi_operation rd = LFS_OP_READ"
    and "wi_filenameText rd = wi_filenameText wr" "serves px (wi_filenameText wr) m (fc_mounts fc)"
    and "wi_offset wr = 0" "w_heap w (wi_buffer wr) = Some block" "unat (wi_bufferBytes wr) \<le> length block"
    and "leaves_alone (dd_alloc (mi_device m)) (wi_buffer wr)" "gives_blocks (wi_allocator rd)"
    and "content = take (unat (wi_bufferBytes wr)) block" "content \<noteq> []" "length content < 2 ^ 63"
    and "unat (wi_offset rd) \<le> length content"
    and "takes_file px (host_path (wi_filenameText wr) m) content (w_os w)"
  shows "\<exists>fc' w' q. processingFunc cbs (fc, w) = Some (Inr (Blocked, (fc', w')))
    \<and> fc_items fc' a = Some (wr\<lparr>wi_resultCode := LFS_OK, wi_completed := True\<rparr>)
    \<and> (\<exists>data. data = take (unat (wi_bufferBytes rd)) (drop (unat (wi_offset rd)) content)
      \<and> fc_items fc' b = Some (rd\<lparr>wi_bufferBytes := of_nat (length data), wi_buffer := q,
          wi_resultCode := LFS_OK, wi_completed := True\<rparr>)
      \<and> q \<noteq> nullptr \<and> w_heap w' q = Some (data @ (if wi_nullTerminate rd then [0] else [])))
    \<and> pending fc' = []"
proof -
  let ?data = "take (unat (wi_bufferBytes rd)) (drop (unat (wi_offset rd)) content)"
  from process_write_item [OF assms(12) refl assms(9,13-16)] assms(18,22) obtain w1 where
    wrote: "process_item (fc_mounts fc) wr w = Some (Inr (wr\<lparr>wi_resultCode := LFS_OK\<rparr>, w1))"
    and kept: "has_file px (host_path (wi_filenameText wr) m) content (w_os w1)" by blast
  from process_read_item [OF assms(12,11,10,17) kept assms(19-21) refl] obtain q w2 where
    reads: "process_item (fc_mounts fc) rd w1 = Some (Inr (rd\<lparr>wi_bufferBytes := of_nat (length ?data),
      wi_buffer := q, wi_resultCode := LFS_OK\<rparr>, w2))"
    and q: "q \<noteq> nullptr" "w_heap w2 q = Some (?data @ (if wi_nullTerminate rd then [0] else []))" by blast
  have ne: "a \<noteq> b" using assms(1,4) by (auto simp: ctx_inv_def items_inv_def)
  have "process_all (fc_mounts fc) (map (\<lambda>a. the (fc_items fc a)) (pending fc)) w
      = Some (Inr ([wr\<lparr>wi_resultCode := LFS_OK\<rparr>, rd\<lparr>wi_bufferBytes := of_nat (length ?data),
          wi_buffer := q, wi_resultCode := LFS_OK\<rparr>], w2))"
    using assms(4-6) wrote reads by (simp add: prog_simps)
  from processingFunc_empties [OF assms(1-3) _ this, of cbs] assms(4-8) ne q show ?thesis
    by (auto simp: completed_def)
qed

text \<open>A context with a write and a read pending, over the memory system.\<close>

definition rw_mount :: "(memory_os directory_device, memory_os world) mount_info" where
  "rw_mount = (root_mount 0x10 ''/a'')\<lparr>mi_permissions := LFS_MOUNT_READ OR LFS_MOUNT_WRITE_FILE\<rparr>"

definition rw_write :: "memory_os world lfs_work_item_t" where
  "rw_write = new_work_item\<lparr>wi_operation := LFS_OP_WRITE, wi_filenameText := ''/f'', wi_buffer := 0x3000,
     wi_bufferBytes := 2\<rparr>"

definition rw_read :: "memory_os world lfs_work_item_t" where
  "rw_read = new_work_item\<lparr>wi_operation := LFS_OP_READ, wi_filenameText := ''/f'', wi_allocator := mem_allocator,
     wi_bufferBytes := 5, wi_offset := 1, wi_nullTerminate := True\<rparr>"

definition rw_context :: "(memory_os directory_device, memory_os world) file_context" where
  "rw_context = \<lparr>fc_self = 16, fc_interfaces = [], fc_mounts = [root_mount 0x20 ''/b'', rw_mount],
     fc_workItemPool = \<lparr>pl_storage = 4096, pl_objSize = 104, pl_bitmask = [0], pl_capacity = 2, pl_bitmaskCount = 1\<rparr>,
     fc_poolBitmask = 24, fc_items = [4096 \<mapsto> rw_write, 4200 \<mapsto> rw_read],
     fc_workItemQueueSemaphore = sem_new 1,
     fc_workItemQueue = (rb_new [4096, 4200] 2 True)\<lparr>rb_full := True\<rparr>,
     fc_queueBuffer = 32, fc_processingThread = AtLoop, fc_alloc = mem_allocator,
     fc_log = nullptr, fc_processing = True\<rparr>"

definition rw_world :: "memory_os world" where
  "rw_world = (mem_world [] [''/a'', ''/b''])\<lparr>w_heap := [0x3000 \<mapsto> [7, 8, 9]]\<rparr>"

lemma rw_pending: "pending rw_context = [4096, 4200]"
  by (simp add: rw_context_def rb_contents_def rb_count_def rb_new_def ring_index_def upt_conv_Cons)

lemma rw_ctx_inv: "ctx_inv rw_context"
proof -
  have "pl_inv (fc_workItemPool rw_context)"
    by (simp add: rw_context_def pl_inv_def pl_bit_def)
  moreover have "wp.used (fc_workItemPool rw_context) = {4096, 4200}"
  proof -
    have "{..<2 :: nat} = {0, 1}" by auto
    moreover have none: "{k :: nat. k < 2 \<and> bit ([0 :: u32] ! (k div 32)) (k mod 32)} = {}" by auto
    ultimately show ?thesis
      by (simp add: none wp.used_def rw_context_def pl_slots_def pl_free_slots_def pl_bit_def pl_addr_def)
  qed
  moreover have "rb_inv (fc_workItemQueue rw_context)" "rb_semaphore (fc_workItemQueue rw_context)"
    by (simp_all add: rw_context_def rb_inv_def rb_new_def)
  moreover have "fc_items rw_context = [4096 \<mapsto> rw_write, 4200 \<mapsto> rw_read]" "thread_inv rw_context"
    by (simp_all add: rw_context_def thread_inv_def)
  ultimately show ?thesis
    by (auto simp: ctx_inv_def items_inv_def rw_pending rw_write_def rw_read_def new_work_item_def)
qed

lemma rw_serves: "serves mem_posix ''/f'' rw_mount (fc_mounts rw_context)"
proof -
  have "fc_mounts rw_context = [root_mount 0x20 ''/b''] @ rw_mount # []" by (simp add: rw_context_def)
  moreover have "mount_matches ''/f'' rw_mount" "readable rw_mount" "mi_permissions rw_mount AND LFS_MOUNT_WRITE_FILE \<noteq> 0"
    "directory_mount mem_posix ''/f'' rw_mount"
    by (simp_all add: rw_mount_def root_mount_def mount_matches_def readable_def directory_mount_def
        servable_path_def mem_device_def mount_devicePath_def mount_permission_values)
  ultimately show ?thesis
    unfolding serves_def by (intro conjI exI [of _ "[root_mount 0x20 ''/b'']"] exI [of _ "[]"]) simp_all
qed

lemma rw_takes_file: "takes_file mem_posix (host_path ''/f'' rw_mount) [7, 8] (w_os rw_world)"
proof -
  let ?os = "\<lambda>bs k. \<lparr>mo_files = [(''/a/f'', bs)], mo_dirs = [''/a'', ''/b''], mo_path = ''/a/f'', mo_pos = k\<rparr>"
  have "has_file mem_posix ''/a/f'' [7, 8] (?os [7, 8] 2)"
    unfolding has_file_def
    by (intro exI [of _ 3] exI [of _ "?os [7, 8] 0"] exI [of _ "?os [7, 8] 2"]) (simp add: mem_simps)
  then have "takes_file mem_posix ''/a/f'' [7, 8] (w_os rw_world)"
    unfolding takes_file_def
    by (intro exI [of _ 3] exI [of _ "?os [] 0"] exI [of _ "?os [7, 8] 2"]) (simp add: mem_simps rw_world_def)
  then show ?thesis
    by (simp add: rw_mount_def root_mount_def mem_device_def mount_devicePath_def)
qed

lemma written_file_is_read_back_witness:
  "\<exists>fc' w' q. processingFunc no_callbacks (rw_context, rw_world) = Some (Inr (Blocked, (fc', w')))
    \<and> map_option wi_resultCode (fc_items fc' 4096) = Some LFS_OK
    \<and> map_option (\<lambda>it. (wi_resultCode it, wi_buffer it)) (fc_items fc' 4200) = Some (LFS_OK, q)
    \<and> w_heap w' q = Some [8, 0]"
proof -
  have items: "fc_items rw_context 4096 = Some rw_write" "fc_items rw_context 4200 = Some rw_read"
    "fc_processing rw_context" "fc_processingThread rw_context \<noteq> InItem"
    by (simp_all add: rw_context_def)
  obtain fc' w' q where run: "processingFunc no_callbacks (rw_context, rw_world) = Some (Inr (Blocked, (fc', w')))"
    and results: "fc_items fc' 4096 = Some (rw_write\<lparr>wi_resultCode := LFS_OK, wi_completed := True\<rparr>)"
      "fc_items fc' 4200 = Some (rw_read\<lparr>wi_bufferBytes := 1, wi_buffer := q, wi_resultCode := LFS_OK, wi_completed := True\<rparr>)"
      "w_heap w' q = Some [8, 0]"
    using written_file_is_read_back [OF rw_ctx_inv items(3,4) rw_pending items(1,2), of mem_posix rw_mount rw_world
        "[7, 8, 9]" "[7, 8]" no_callbacks] rw_serves rw_takes_file
    by (auto simp: rw_write_def rw_read_def new_work_item_def rw_world_def rw_mount_def root_mount_def mem_device_def
        mem_allocator_leaves_alone)
  then show ?thesis by (intro exI [of _ fc'] exI [of _ w'] exI [of _ q]) simp
qed

end
