(* ===== verification/Overlay_Changes.thy ===== *)
theory Overlay_Changes
  imports Directory_Changes Directory_Overlay
begin

text \<open>
  Deleting files and making directories through the overlay: which file of the host goes, what the overlay
  shows at the path afterwards, and which error is reported.
\<close>

subsection \<open>The operations of the device\<close>

text \<open>A system call on the path of the host, between the allocation and the release of the path.\<close>

lemma call_on_device_path:
  assumes "servable_path d p" "f (dd_devicePath d @ p) (w_os w) = (r, os)"
  shows "\<exists>w'. andThen (getDevicePath d p) (\<lambda>(q, diskPath).
      andThen (syscall (f diskPath)) (\<lambda>r.
      andThen (if r = None then andThen get_errno (\<lambda>e. ret (convertError e)) else ret LFS_OK) (\<lambda>code.
      andThen (freeDevicePath d q) (\<lambda>_. ret code)))) w
    = Some (Inr (case r of Inl e \<Rightarrow> convertError e | Inr x \<Rightarrow> LFS_OK, w')) \<and> w_os w' = os"
proof -
  obtain q w1 where path: "getDevicePath d p w = Some (Inr ((q, dd_devicePath d @ p), w1))"
    and w1: "w_os w1 = w_os w" using assms(1) by (rule getDevicePath_exact)
  let ?w2 = "case r of Inl e \<Rightarrow> w1\<lparr>w_os := os, w_errno := e\<rparr> | Inr x \<Rightarrow> w1\<lparr>w_os := os\<rparr>"
  have "steady_allocator (dd_alloc d)" using assms(1) by (simp add: servable_path_def)
  then obtain w3 where free: "call_free (dd_alloc d) q ?w2 = Some (Inr ((), w3))" "w_os w3 = w_os ?w2"
    by (rule steady_freeE)
  show ?thesis
    using path w1 assms(2) free
    by (cases r) (auto simp: syscall_Inl syscall_Inr get_errno_def freeDevicePath_def prog_simps)
qed

lemma deleteFile_result:
  assumes "servable_path d p" "px_unlink px (dd_devicePath d @ p) (w_os w) = (r, os)"
  shows "\<exists>w'. DirectoryDevice_deleteFile px d p w
      = Some (Inr (case r of Inl e \<Rightarrow> convertError e | Inr x \<Rightarrow> LFS_OK, w')) \<and> w_os w' = os"
  unfolding DirectoryDevice_deleteFile_def using assms by (rule call_on_device_path)

lemma createDir_result:
  assumes "servable_path d p" "px_mkdir px (dd_devicePath d @ p) 0x1FF (w_os w) = (r, os)"
  shows "\<exists>w'. DirectoryDevice_createDir px d p w
      = Some (Inr (case r of Inl e \<Rightarrow> convertError e | Inr x \<Rightarrow> LFS_OK, w')) \<and> w_os w' = os"
  unfolding DirectoryDevice_createDir_def
  using assms(1) call_on_device_path [where f = "\<lambda>path. px_mkdir px path 0x1FF"] assms(2) by blast

subsection \<open>The operations through the mount table\<close>

text \<open>The path of the host that a modification of a virtual path goes to.\<close>

definition target :: "('os directory_device, 'os world) mount_info list \<Rightarrow> lfs_file_operation_t \<Rightarrow> string
    \<Rightarrow> string option" where
  "target mounts op path = map_option (host_path path)
     (List.find (\<lambda>m. mount_matches path m \<and> permits op (mi_permissions m)) (rev mounts))"

lemma target_find:
  "target mounts op path =
     map_option (\<lambda>(m, p). dd_devicePath (mi_device m) @ p) (findMutableMountAndPath path op mounts)"
  by (simp add: target_def findMutableMountAndPath_def findMutable_scan_find permits_iff option.map_comp o_def)

lemma targetE:
  assumes "target mounts op path = Some hp" "\<forall>m \<in> set mounts. directory_mount px path m"
  obtains m where "findMutableMountAndPath path op mounts = Some (m, mount_devicePath path m)"
    "mi_interface m = directory_interface px" "servable_path (mi_device m) (mount_devicePath path m)"
    "hp = dd_devicePath (mi_device m) @ mount_devicePath path m"
proof -
  from assms(1) obtain m p where m: "findMutableMountAndPath path op mounts = Some (m, p)"
    "hp = dd_devicePath (mi_device m) @ p" by (auto simp: target_find)
  then have "m \<in> set mounts" "p = mount_devicePath path m"
    by (auto simp: findMutableMountAndPath_def findMutable_scan_find find_Some_split dest!: arg_cong [of _ _ set])
  with m assms(2) that show thesis by (auto simp: directory_mount_def)
qed

lemma process_delete:
  assumes "target mounts LFS_OP_DELETE (wi_filenameText item) = Some hp" "wi_operation item = LFS_OP_DELETE"
    and "\<forall>m \<in> set mounts. directory_mount px (wi_filenameText item) m" "px_unlink px hp (w_os w) = (r, os)"
  shows "\<exists>w'. process_item mounts item w = Some (Inr (item\<lparr>wi_resultCode :=
      case r of Inl e \<Rightarrow> convertError e | Inr x \<Rightarrow> LFS_OK\<rparr>, w')) \<and> w_os w' = os"
proof -
  from assms(1,3) obtain m where m: "findMutableMountAndPath (wi_filenameText item) LFS_OP_DELETE mounts
      = Some (m, mount_devicePath (wi_filenameText item) m)"
    "mi_interface m = directory_interface px" "servable_path (mi_device m) (mount_devicePath (wi_filenameText item) m)"
    "hp = dd_devicePath (mi_device m) @ mount_devicePath (wi_filenameText item) m" by (rule targetE)
  from deleteFile_result [OF m(3) assms(4) [unfolded m(4)]] m(1,2) assms(2) show ?thesis
    by (auto simp: process_item_def process_simple_def directory_interface_def call_ptr_def prog_simps)
qed

lemma process_createDir:
  assumes "target mounts LFS_OP_CREATE_DIR (wi_filenameText item) = Some hp" "wi_operation item = LFS_OP_CREATE_DIR"
    and "\<forall>m \<in> set mounts. directory_mount px (wi_filenameText item) m" "px_mkdir px hp 0x1FF (w_os w) = (r, os)"
  shows "\<exists>w'. process_item mounts item w = Some (Inr (item\<lparr>wi_resultCode :=
      case r of Inl e \<Rightarrow> convertError e | Inr x \<Rightarrow> LFS_OK\<rparr>, w')) \<and> w_os w' = os"
proof -
  from assms(1,3) obtain m where m: "findMutableMountAndPath (wi_filenameText item) LFS_OP_CREATE_DIR mounts
      = Some (m, mount_devicePath (wi_filenameText item) m)"
    "mi_interface m = directory_interface px" "servable_path (mi_device m) (mount_devicePath (wi_filenameText item) m)"
    "hp = dd_devicePath (mi_device m) @ mount_devicePath (wi_filenameText item) m" by (rule targetE)
  from createDir_result [OF m(3) assms(4) [unfolded m(4)]] m(1,2) assms(2) show ?thesis
    by (auto simp: process_item_def process_simple_def directory_interface_def call_ptr_def prog_simps)
qed

subsection \<open>Properties\<close>

text \<open>
  C34: deleting a file and making a directory through the overlay. If no mount permits it the answer is
  \<^verbatim>\<open>LFS_UNSUPPORTED\<close> and the host is untouched. Otherwise the system is called exactly once, for the path in
  the newest mount that permits it, and the answer is \<^verbatim>\<open>LFS_OK\<close> or the code of the call's error; there is no
  second attempt in an older mount.
\<close>

theorem change_goes_to_one_directory:
  assumes "\<forall>m \<in> set mounts. directory_mount px (wi_filenameText item) m"
    and "wi_operation item = LFS_OP_DELETE \<and> call = px_unlink px
      \<or> wi_operation item = LFS_OP_CREATE_DIR \<and> call = (\<lambda>path. px_mkdir px path 0x1FF)"
  shows "\<exists>w'. process_item mounts item w = Some (Inr (item\<lparr>wi_resultCode :=
        case target mounts (wi_operation item) (wi_filenameText item) of
          None \<Rightarrow> LFS_UNSUPPORTED
        | Some hp \<Rightarrow> (case fst (call hp (w_os w)) of Inl e \<Rightarrow> convertError e | Inr x \<Rightarrow> LFS_OK)\<rparr>, w'))
    \<and> w_os w' = (case target mounts (wi_operation item) (wi_filenameText item) of
          None \<Rightarrow> w_os w | Some hp \<Rightarrow> snd (call hp (w_os w)))"
proof (cases "target mounts (wi_operation item) (wi_filenameText item)")
  case None
  then show ?thesis
    using assms(2) by (auto simp: target_find process_item_def process_simple_def prog_simps)
next
  case (Some hp)
  obtain r os where "call hp (w_os w) = (r, os)" by fastforce
  then show ?thesis
    using assms Some process_delete [of mounts item hp px w r os] process_createDir [of mounts item hp px w r os]
    by auto
qed

lemma change_goes_to_one_directory_witness:
  "\<exists>w'. process_item [(root_mount 0x10 ''/a'')\<lparr>mi_permissions := LFS_MOUNT_ALL_PERMISSIONS\<rparr>, root_mount 0x20 ''/b'']
      (new_work_item\<lparr>wi_filenameText := ''/d'', wi_operation := LFS_OP_CREATE_DIR\<rparr>) (mem_world [] [''/a'', ''/b''])
    = Some (Inr (new_work_item\<lparr>wi_filenameText := ''/d'', wi_operation := LFS_OP_CREATE_DIR, wi_resultCode := LFS_OK\<rparr>, w'))
    \<and> mo_dirs (w_os w') = [''/a/d'', ''/a'', ''/b'']"
proof -
  let ?ms = "[(root_mount 0x10 ''/a'')\<lparr>mi_permissions := LFS_MOUNT_ALL_PERMISSIONS\<rparr>, root_mount 0x20 ''/b'']"
  let ?it = "new_work_item\<lparr>wi_filenameText := ''/d'', wi_operation := LFS_OP_CREATE_DIR\<rparr> :: memory_os world lfs_work_item_t"
  have "\<forall>m \<in> set ?ms. directory_mount mem_posix (wi_filenameText ?it) m"
    by (simp add: root_mount_def directory_mount_def servable_path_def mem_device_def mount_devicePath_def)
  moreover have "target ?ms LFS_OP_CREATE_DIR ''/d'' = Some ''/a/d''"
    by (simp add: target_find findMutableMountAndPath_def root_mount_def mount_matches_def mount_denies_def
        mount_permission_values mem_device_def mount_devicePath_def)
  ultimately show ?thesis
    using change_goes_to_one_directory [of ?ms mem_posix ?it "\<lambda>path. px_mkdir mem_posix path 0x1FF"
        "mem_world [] [''/a'', ''/b'']"]
    by (auto simp: mem_simps)
qed

text \<open>
  C28: a file that is deleted is gone, but only from the directory it was deleted in. When the host removes it, the
  request succeeds, and an existence query afterwards succeeds exactly when another mount the path is visible in
  has a file there: the file of an older mount comes to light.
\<close>

theorem delete_uncovers_older_file:
  assumes "mounts_ok mounts" "\<forall>m \<in> set mounts. directory_mount px path m"
    and "wi_operation del = LFS_OP_DELETE" "wi_filenameText del = path"
    and "wi_operation ask = LFS_OP_EXISTS" "wi_filenameText ask = path"
    and "target mounts LFS_OP_DELETE path = Some hp" "px_unlink px hp (w_os w) = (Inr (), os)"
    and "px_stat px hp os = Inl ENOENT" "\<And>m. m \<in> set (visible_mounts path mounts) \<Longrightarrow>
      host_path path m \<noteq> hp \<Longrightarrow> px_stat px (host_path path m) os = px_stat px (host_path path m) (w_os w)"
  shows "\<exists>w1 w2. process_item mounts del w = Some (Inr (del\<lparr>wi_resultCode := LFS_OK\<rparr>, w1))
    \<and> process_item mounts ask w1 = Some (Inr (ask\<lparr>wi_resultCode :=
        if \<exists>m \<in> set (visible_mounts path mounts). host_path path m \<noteq> hp \<and> is_file (host_status px (w_os w) path m)
        then LFS_OK else LFS_NOT_FOUND\<rparr>, w2))"
proof -
  from process_delete [of mounts del hp px w "Inr ()" os] assms(2-4,7,8) obtain w1 where
    del: "process_item mounts del w = Some (Inr (del\<lparr>wi_resultCode := LFS_OK\<rparr>, w1))" and os: "w_os w1 = os"
    by auto
  have "is_file (host_status px (w_os w1) path m) \<longleftrightarrow> host_path path m \<noteq> hp \<and> is_file (host_status px (w_os w) path m)"
    if "m \<in> set (visible_mounts path mounts)" for m
    using assms(9) assms(10) [OF that] os
    by (cases "host_path path m = hp") (auto simp: host_status_def status_of_stat_def is_file_def)
  with process_exists_overlay [OF assms(1), of px ask w1] assms(2,5,6) del show ?thesis by auto
qed

lemma delete_uncovers_older_file_witness:
  "\<exists>w1 w2. process_item [root_mount 0x10 ''/a'', (root_mount 0x20 ''/b'')\<lparr>mi_permissions := LFS_MOUNT_ALL_PERMISSIONS\<rparr>]
      (new_work_item\<lparr>wi_filenameText := ''/f'', wi_operation := LFS_OP_DELETE\<rparr>)
      (mem_world [(''/a/f'', [1]), (''/b/f'', [2])] [''/a'', ''/b''])
    = Some (Inr (new_work_item\<lparr>wi_filenameText := ''/f'', wi_operation := LFS_OP_DELETE, wi_resultCode := LFS_OK\<rparr>, w1))
    \<and> process_item [root_mount 0x10 ''/a'', (root_mount 0x20 ''/b'')\<lparr>mi_permissions := LFS_MOUNT_ALL_PERMISSIONS\<rparr>]
      (new_work_item\<lparr>wi_filenameText := ''/f'', wi_operation := LFS_OP_EXISTS\<rparr>) w1
    = Some (Inr (new_work_item\<lparr>wi_filenameText := ''/f'', wi_operation := LFS_OP_EXISTS, wi_resultCode := LFS_OK\<rparr>, w2))"
proof -
  let ?older = "root_mount 0x10 ''/a''"
  let ?newer = "(root_mount 0x20 ''/b'')\<lparr>mi_permissions := LFS_MOUNT_ALL_PERMISSIONS\<rparr>"
  let ?w = "mem_world [(''/a/f'', [1]), (''/b/f'', [2])] [''/a'', ''/b'']"
  let ?os = "\<lparr>mo_files = [(''/a/f'', [1])], mo_dirs = [''/a'', ''/b''], mo_path = [], mo_pos = 0\<rparr>"
  let ?it = "\<lambda>op. new_work_item\<lparr>wi_filenameText := ''/f'', wi_operation := op\<rparr> :: memory_os world lfs_work_item_t"
  have ok: "mounts_ok [?older, ?newer]" by (simp add: root_mount_def mounts_ok_def mount_ok_def)
  have dirs: "\<forall>m \<in> set [?older, ?newer]. directory_mount mem_posix ''/f'' m"
    by (simp add: root_mount_def directory_mount_def servable_path_def mem_device_def mount_devicePath_def)
  have target: "target [?older, ?newer] LFS_OP_DELETE ''/f'' = Some ''/b/f''"
    by (simp add: target_find findMutableMountAndPath_def root_mount_def mount_matches_def mount_denies_def
        mount_permission_values mem_device_def mount_devicePath_def)
  have unlink: "px_unlink mem_posix ''/b/f'' (w_os ?w) = (Inr (), ?os)" by (simp add: mem_simps)
  have gone: "px_stat mem_posix ''/b/f'' ?os = Inl ENOENT" by (simp add: mem_simps)
  have vis: "visible_mounts ''/f'' [?older, ?newer] = [?newer, ?older]"
    by (simp add: visible_mounts_def readable_def root_mount_def mount_matches_def mount_permission_values)
  have paths: "host_path ''/f'' ?older = ''/a/f''" "host_path ''/f'' ?newer = ''/b/f''"
    by (simp_all add: root_mount_def mem_device_def mount_devicePath_def)
  have same: "px_stat mem_posix (host_path ''/f'' m) ?os = px_stat mem_posix (host_path ''/f'' m) (w_os ?w)"
    if "m \<in> set (visible_mounts ''/f'' [?older, ?newer])" "host_path ''/f'' m \<noteq> ''/b/f''" for m
  proof -
    from that have "m = ?newer \<or> m = ?older" unfolding vis by simp
    with that(2) paths have "host_path ''/f'' m = ''/a/f''" by metis
    then show ?thesis by (simp only:) (simp add: mem_simps)
  qed
  have "is_file (host_status mem_posix (w_os ?w) ''/f'' ?older)"
    unfolding host_status_def paths by (simp add: mem_simps status_of_stat_def is_file_def)
  then have "\<exists>m \<in> set (visible_mounts ''/f'' [?older, ?newer]). host_path ''/f'' m \<noteq> ''/b/f''
      \<and> is_file (host_status mem_posix (w_os ?w) ''/f'' m)"
    unfolding vis using paths(1) by auto
  then show ?thesis
    using delete_uncovers_older_file [OF ok dirs _ _ _ _ target unlink gone same, of "?it LFS_OP_DELETE" "?it LFS_OP_EXISTS"]
    by simp
qed

end
