(* ===== verification/Context_Frame.thy ===== *)
theory Context_Frame
  imports Context_Steps
begin

text \<open>
  What the operations on requests leave alone: the parts of a context that belong to its construction, its
  interfaces and its mounts. The rules in \<open>framing\<close> follow the structure of a program.
\<close>

subsection \<open>What requests leave alone\<close>

text \<open>The parts of a context that only the operations on mounts and interfaces change.\<close>

definition fixtures :: "('d, 'w) file_context \<Rightarrow> addr \<times> (addr \<times> ('d, 'w) device_interface) list
    \<times> ('d, 'w) mount_info list \<times> addr \<times> addr \<times> addr \<times> 'w lfs_allocator_t" where
  "fixtures fc = (fc_self fc, fc_interfaces fc, fc_mounts fc, fc_poolBitmask fc, fc_queueBuffer fc,
     pl_storage (fc_workItemPool fc), fc_alloc fc)"

definition framed :: "('a, ('d, 'w) ctx) prog \<Rightarrow> bool" where
  "framed m \<longleftrightarrow> (\<forall>s. wlp m (\<lambda>_ t. fixtures (fst t) = fixtures (fst s)) s)"

named_theorems framing \<open>programs that leave the fixtures of the context alone\<close>

lemma framedD: "framed m \<Longrightarrow> m s = Some (Inr (x, t)) \<Longrightarrow> fixtures (fst t) = fixtures (fst s)"
  unfolding framed_def by (blast dest: wlpD)

lemma framed_andThen [framing]: "framed m \<Longrightarrow> (\<And>x. framed (k x)) \<Longrightarrow> framed (andThen m k)"
  unfolding framed_def wlp_andThen by (fastforce elim!: wlp_mono)

lemma framed_ret [framing]: "framed (ret x)"
  and framed_fail [framing]: "framed (fail_with e)"
  and framed_get [framing]: "framed (fc_get f)"
  and framed_world [framing]: "framed (on_snd m)"
  and framed_item_at [framing]: "framed (item_at a)"
  and framed_queue [framing]: "framed (on_queue q)"
  by (simp_all add: framed_def wp_simps item_at_def wlp_any fixtures_def split: option.split)

lemma framed_set [framing]: "(\<And>fc. fixtures (f fc) = fixtures fc) \<Longrightarrow> framed (fc_set f)"
  by (simp add: framed_def wp_simps)

lemma framed_if [framing]: "framed m \<Longrightarrow> framed m' \<Longrightarrow> framed (if b then m else m')"
  by simp

lemma framed_case_option [framing]:
  "framed m \<Longrightarrow> (\<And>x. framed (k x)) \<Longrightarrow> framed (case r of None \<Rightarrow> m | Some x \<Rightarrow> k x)"
  by (cases r) simp_all

lemma pl_storage_alloc: "pl_storage (snd (pl_alloc p)) = pl_storage p"
  by (simp add: pl_alloc_def Let_def split: option.split)

lemma pl_storage_free: "pl_storage (pl_free a p) = pl_storage p"
  by (simp add: pl_free_def Let_def split: prod.split)

lemma framed_basic [framing]:
  "framed (fc_allocate n al)" "framed (fc_deallocate p)" "framed (update_item a f)" "framed (push_work_item a)"
  "framed (workItemPool_free a)" "framed (set_thread t)"
  unfolding fc_allocate_def fc_deallocate_def update_item_def push_work_item_def workItemPool_free_def set_thread_def
  by (auto simp: fixtures_def pl_storage_free intro!: framing)

lemma framed_pool_alloc [framing]: "framed workItemPool_alloc"
  unfolding framed_def workItemPool_alloc_def
  using pl_storage_alloc by (simp add: wp_simps fixtures_def case_prod_beta Let_def)

lemma framed_release [framing]: "framed (releaseWorkItemInternal a)" "framed (releaseWorkItem a)"
  unfolding releaseWorkItem_def releaseWorkItemInternal_def by (intro framing)+

text \<open>Callbacks that do not touch them either: they make and release no mounts and register no interfaces.\<close>

definition framed_callbacks :: "('d, 'w) callbacks \<Rightarrow> bool" where
  "framed_callbacks cbs \<longleftrightarrow> (\<forall>f item u. framed (cbs f item u))"

lemma framed_callback: "framed_callbacks cbs \<Longrightarrow> framed (cbs f item u)"
  by (simp add: framed_callbacks_def)

lemma framed_allocWorkItemCommon:
  "framed_callbacks cbs \<Longrightarrow> framed (allocWorkItemCommon cbs path op cb ud act)"
  unfolding allocWorkItemCommon_def initWorkItem_def Let_def by (intro framing) (rule framed_callback)

lemma framed_item_allocator [framing]: "framed (item_allocator al)"
  unfolding item_allocator_def by (intro framing)

lemma framed_issue:
  assumes "framed_callbacks cbs"
  shows "framed (issue cbs req)" "framed (issue_callback cbs req cb act ud)"
  by (cases req; simp only: issue.simps issue_callback.simps submission_defs writeFile_def make_plain_write_def;
      intro framing framed_allocWorkItemCommon [OF assms])+

lemma framed_processing_step:
  assumes "framed_callbacks cbs"
  shows "framed (processing_step cbs)"
proof -
  have "framed (process_work_item cbs a)" for a
    unfolding process_work_item_def run_callback_def by (intro framing framed_callback [OF assms])
  then show ?thesis
    unfolding processing_step_def
    by (auto simp: fixtures_def split: thread_state.split intro!: framing)
qed

end
