(* ===== verification/Device_Memory.thy ===== *)
theory Device_Memory
  imports Life_Cycle
begin

text \<open>
  What the operations of a device do with the blocks of the allocators: all of them give back what they take,
  except that a read which finds its file leaves the caller one new block, its buffer. This is proved of the
  directory device and carried through the lookups of the overlay.
\<close>

subsection \<open>Programs that keep the blocks in use\<close>

text \<open>
  An allocator that keeps track of the blocks in use and may run out of memory: it gives a new block or none,
  and frees the block it is given.
\<close>

definition new_block :: "addr set \<Rightarrow> addr \<Rightarrow> addr set \<Rightarrow> bool" where
  "new_block L p L' \<longleftrightarrow> (if p = nullptr then L' = L else p \<notin> L \<and> L' = insert p L)"

definition tracks :: "'w lfs_allocator_t \<Rightarrow> ('w \<Rightarrow> addr set) \<Rightarrow> bool" where
  "tracks a live \<longleftrightarrow>
     (\<forall>n k w. wlp (call_alloc a n k) (\<lambda>p w'. new_block (live w) p (live w')) w)
     \<and> (\<forall>p w. p \<in> live w \<longrightarrow> wlp (call_free a p) (\<lambda>_ w'. live w' = live w - {p}) w)"

lemma wlp_track_alloc:
  assumes "tracks a live" "\<And>w'. live w' = live w \<Longrightarrow> Q nullptr w'"
    and "\<And>p w'. p \<noteq> nullptr \<Longrightarrow> p \<notin> live w \<Longrightarrow> live w' = insert p (live w) \<Longrightarrow> Q p w'"
  shows "wlp (call_alloc a n k) Q w"
proof -
  from assms(1) have "wlp (call_alloc a n k) (\<lambda>p w'. new_block (live w) p (live w')) w"
    by (simp add: tracks_def)
  then show ?thesis by (rule wlp_mono) (use assms(2,3) in \<open>auto simp: new_block_def split: if_splits\<close>)
qed

lemma wlp_track_free:
  assumes "tracks a live" "p \<in> live w" "\<And>w'. live w' = live w - {p} \<Longrightarrow> Q () w'"
  shows "wlp (call_free a p) Q w"
proof -
  from assms(1,2) have "wlp (call_free a p) (\<lambda>_ w'. live w' = live w - {p}) w" by (simp add: tracks_def)
  then show ?thesis by (rule wlp_mono) (use assms(3) in auto)
qed

text \<open>
  Programs whose blocks in use before and after, and whose result, are in a relation \<open>R\<close>. The rules in
  \<open>relating\<close> follow the structure of a program.
\<close>

definition relates :: "('w \<Rightarrow> addr set) \<Rightarrow> (addr set \<Rightarrow> 'a \<Rightarrow> addr set \<Rightarrow> bool) \<Rightarrow> ('a, 'w) prog \<Rightarrow> bool" where
  "relates live R m \<longleftrightarrow> (\<forall>w. wlp m (\<lambda>r w'. R (live w) r (live w')) w)"

abbreviation keeps :: "('w \<Rightarrow> addr set) \<Rightarrow> ('a, 'w) prog \<Rightarrow> bool" where
  "keeps live \<equiv> relates live (\<lambda>L r L'. L' = L)"

abbreviation frees :: "('w \<Rightarrow> addr set) \<Rightarrow> addr \<Rightarrow> ('a, 'w) prog \<Rightarrow> bool" where
  "frees live p \<equiv> relates live (\<lambda>L r L'. p \<in> L \<longrightarrow> L' = L - {p})"

named_theorems relating \<open>relations between the blocks before and after a program\<close>

lemma relatesI: "(\<And>w. wlp m (\<lambda>r w'. R (live w) r (live w')) w) \<Longrightarrow> relates live R m"
  by (simp add: relates_def)

lemma relatesD: "relates live R m \<Longrightarrow> wlp m (\<lambda>r w'. R (live w) r (live w')) w"
  by (simp add: relates_def)

lemma relates_mono: "relates live R m \<Longrightarrow> (\<And>L r L'. R L r L' \<Longrightarrow> R' L r L') \<Longrightarrow> relates live R' m"
  unfolding relates_def by (blast intro: wlp_mono)

lemma wlp_keeps:
  assumes "keeps live m" "\<And>x w'. live w' = live w \<Longrightarrow> Q x w'"
  shows "wlp m Q w"
  by (rule wlp_mono [OF relatesD [OF assms(1)]]) (rule assms(2))

lemma relates_ret [relating]: "(\<And>L. R L x L) \<Longrightarrow> relates live R (ret x)"
  and relates_fail [relating]: "relates live R (fail_with e)"
  and relates_gets [relating]: "(\<And>L x. R L x L) \<Longrightarrow> relates live R (gets f)"
  by (simp_all add: relates_def wp_simps)

lemma relates_later [relating]:
  assumes "keeps live m" "\<And>x. relates live R (k x)"
  shows "relates live R (andThen m k)"
proof (rule relatesI, unfold wlp_andThen, rule wlp_keeps [OF assms(1)])
  fix w x w'
  assume "live w' = live w"
  with relatesD [OF assms(2), of x w'] show "wlp (k x) (\<lambda>r t. R (live w) r (live t)) w'" by simp
qed

lemma relates_if [relating]: "relates live R m \<Longrightarrow> relates live R m' \<Longrightarrow> relates live R (if b then m else m')"
  by simp

lemma relates_case_option [relating]:
  "relates live R m \<Longrightarrow> (\<And>x. relates live R (k x)) \<Longrightarrow> relates live R (case r of None \<Rightarrow> m | Some x \<Rightarrow> k x)"
  by (cases r) simp_all

lemma relates_case_prod [relating]:
  "(\<And>x y. relates live R (k x y)) \<Longrightarrow> relates live R (case r of (x, y) \<Rightarrow> k x y)"
  by (cases r) simp

text \<open>A block that is taken at the start, and given back before the result is returned.\<close>

lemma relates_free:
  assumes "tracks a live" "\<And>x. relates live R' (k x)" "\<And>L r L'. p \<in> L \<Longrightarrow> R' (L - {p}) r L' \<Longrightarrow> R L r L'"
  shows "relates live (\<lambda>L r L'. p \<in> L \<longrightarrow> R L r L') (andThen (call_free a p) k)"
proof (rule relatesI, unfold wlp_andThen)
  fix w
  show "wlp (call_free a p) (\<lambda>x. wlp (k x) (\<lambda>r w'. p \<in> live w \<longrightarrow> R (live w) r (live w'))) w"
  proof (cases "p \<in> live w")
    case True
    show ?thesis
    proof (rule wlp_track_free [OF assms(1) True])
      fix w'
      assume "live w' = live w - {p}"
      with relatesD [OF assms(2), of "()" w'] True
      show "wlp (k ()) (\<lambda>r w'. p \<in> live w \<longrightarrow> R (live w) r (live w')) w'"
        by (auto intro: assms(3) elim!: wlp_mono)
    qed
  qed (simp add: wlp_any)
qed

lemma frees_now: "tracks a live \<Longrightarrow> (\<And>x. keeps live (k x)) \<Longrightarrow> frees live p (andThen (call_free a p) k)"
  by (rule relates_free)

lemma keeps_block:
  assumes "tracks a live" "\<And>p. frees live p (m p)"
  shows "keeps live (andThen (call_alloc a n al) (\<lambda>p. if p = nullptr then fail_with NullDeref
    else if b then fail_with OutOfBounds else m p))"
proof (rule relatesI, unfold wlp_andThen, rule wlp_track_alloc [OF assms(1)], goal_cases)
  case (2 w p w1)
  with relatesD [OF assms(2) [of p], of w1] show ?case by (auto simp: wlp_if wlp_fail elim!: wlp_mono)
qed (simp add: wp_simps)

subsection \<open>The contract of a device\<close>

text \<open>
  The read is called with a null buffer, as \<^verbatim>\<open>processingFunc\<close> does for the first mount it asks; it may leave a
  new block there, but then its code is not the one the search goes on after.
\<close>

definition leaves_buffer :: "addr set \<Rightarrow> u64 \<times> addr \<times> lfs_error_code_t \<Rightarrow> addr set \<Rightarrow> bool" where
  "leaves_buffer L r L' \<longleftrightarrow>
     (case r of (bytes, buffer, code) \<Rightarrow>
        new_block L buffer L' \<and> (buffer \<noteq> nullptr \<longrightarrow> code \<noteq> LFS_NOT_FOUND))"

abbreviation leaves :: "('w \<Rightarrow> addr set) \<Rightarrow> (u64 \<times> addr \<times> lfs_error_code_t, 'w) prog \<Rightarrow> bool" where
  "leaves live \<equiv> relates live leaves_buffer"

locale tidy_device =
  fixes di :: "('d, 'w) device_interface"
    and live :: "'w \<Rightarrow> addr set"
    and sound :: "'d \<Rightarrow> bool"
  assumes exists_keeps: "sound d \<Longrightarrow> di_fileExists di = Some f \<Longrightarrow> keeps live (f d p)"
    and size_keeps: "sound d \<Longrightarrow> di_fileSize di = Some g \<Longrightarrow> keeps live (g d p c)"
    and write_keeps: "sound d \<Longrightarrow> di_writeFile di = Some h \<Longrightarrow> keeps live (h d p off buf n mode c)"
    and deleteFile_keeps: "sound d \<Longrightarrow> di_deleteFile di = Some s \<Longrightarrow> keeps live (s d p)"
    and createDir_keeps: "sound d \<Longrightarrow> di_createDir di = Some s \<Longrightarrow> keeps live (s d p)"
    and deleteDir_keeps: "sound d \<Longrightarrow> di_deleteDir di = Some s \<Longrightarrow> keeps live (s d p)"
    and read_leaves: "sound d \<Longrightarrow> di_readFile di = Some r \<Longrightarrow> tracks al live \<Longrightarrow>
      leaves live (r d p off n al nullptr nt c)"
begin

lemma exists_call_keeps: "sound d \<Longrightarrow> keeps live (call_ptr (di_fileExists di) (\<lambda>f. f d p))"
  by (cases "di_fileExists di") (auto simp: prog_simps intro: relating exists_keeps)

lemma size_call_keeps: "sound d \<Longrightarrow> keeps live (call_ptr (di_fileSize di) (\<lambda>f. f d p c))"
  by (cases "di_fileSize di") (auto simp: prog_simps intro: relating size_keeps)

lemma write_call_keeps:
  "sound d \<Longrightarrow> keeps live (call_ptr (di_writeFile di) (\<lambda>f. f d p off buf n mode c))"
  by (cases "di_writeFile di") (auto simp: prog_simps intro: relating write_keeps)

lemma deleteFile_call_keeps: "sound d \<Longrightarrow> keeps live (call_ptr (di_deleteFile di) (\<lambda>f. f d p))"
  by (cases "di_deleteFile di") (auto simp: prog_simps intro: relating deleteFile_keeps)

lemma createDir_call_keeps: "sound d \<Longrightarrow> keeps live (call_ptr (di_createDir di) (\<lambda>f. f d p))"
  by (cases "di_createDir di") (auto simp: prog_simps intro: relating createDir_keeps)

lemma deleteDir_call_keeps: "sound d \<Longrightarrow> keeps live (call_ptr (di_deleteDir di) (\<lambda>f. f d p))"
  by (cases "di_deleteDir di") (auto simp: prog_simps intro: relating deleteDir_keeps)

lemma read_call_leaves:
  assumes "sound d" "tracks al live"
  shows "leaves live (call_ptr (di_readFile di) (\<lambda>f. f d p off n al nullptr nt c))"
  using assms by (cases "di_readFile di") (auto simp: prog_simps intro: relating read_leaves)

end

definition tidy_mount :: "('w \<Rightarrow> addr set) \<Rightarrow> ('d \<Rightarrow> bool) \<Rightarrow> ('d, 'w) mount_info \<Rightarrow> bool" where
  "tidy_mount live sound m \<longleftrightarrow> tidy_device (mi_interface m) live sound \<and> sound (mi_device m)"

subsection \<open>The lookups and the modifications\<close>

lemma ask_exists_keeps:
  "\<forall>m \<in> set ms. tidy_mount live sound m \<Longrightarrow> keeps live (ask_exists path ms)"
  by (induction ms) (auto simp: tidy_mount_def intro!: relating tidy_device.exists_call_keeps)

lemma ask_size_keeps:
  "\<forall>m \<in> set ms. tidy_mount live sound m \<Longrightarrow> keeps live (ask_size path bytes code ms)"
  by (induction ms arbitrary: bytes code)
    (auto simp: tidy_mount_def intro!: relating tidy_device.size_call_keeps)

lemma ask_read_leaves:
  assumes "\<forall>m \<in> set ms. tidy_mount live sound m" "tracks (wi_allocator it) live"
  shows "wlp (ask_read it maxBytes bytes nullptr LFS_NOT_FOUND ms)
    (\<lambda>(bytes, buffer, code) w'. new_block (live w) buffer (live w')) w"
  using assms(1)
proof (induction ms arbitrary: bytes w)
  case Nil
  then show ?case by (simp add: wlp_ret new_block_def)
next
  case (Cons m ms)
  then have "tidy_device (mi_interface m) live sound" "sound (mi_device m)" by (simp_all add: tidy_mount_def)
  from relatesD [OF tidy_device.read_call_leaves [OF this assms(2)]] show ?case
    unfolding ask_read.simps wlp_andThen
  proof (rule wlp_mono, goal_cases)
    case (1 r w1)
    obtain bytes1 buffer1 code1 where r: "r = (bytes1, buffer1, code1)" by (cases r)
    with 1 Cons.IH [of bytes1 w1] Cons.prems show ?case
      by (cases "buffer1 = nullptr"; cases "code1 = LFS_NOT_FOUND")
        (simp_all add: leaves_buffer_def new_block_def [of "live w" nullptr] wlp_ret)
  qed
qed

lemma exists_loop_keeps:
  assumes "mounts_ok mounts" "\<forall>m \<in> set mounts. tidy_mount live sound m"
  shows "keeps live (exists_loop mounts path nullptr)"
proof -
  have "exists_loop mounts path nullptr = ask_exists path (visible_mounts path mounts)"
    using loops_ask(1) [OF assms(1)] by blast
  with assms(2) visible_mounts_subset [of path mounts] show ?thesis by (auto intro!: ask_exists_keeps)
qed

lemma size_loop_keeps:
  assumes "mounts_ok mounts" "\<forall>m \<in> set mounts. tidy_mount live sound m"
  shows "keeps live (size_loop mounts path nullptr bytes code)"
proof -
  have "size_loop mounts path nullptr bytes code = ask_size path bytes code (visible_mounts path mounts)"
    using loops_ask(2) [OF assms(1)] by blast
  with assms(2) visible_mounts_subset [of path mounts] show ?thesis by (auto intro!: ask_size_keeps)
qed

lemma mutable_mount_tidy:
  assumes "findMutableMountAndPath path op mounts = Some (m, p)" "\<forall>m \<in> set mounts. tidy_mount live sound m"
  shows "tidy_device (mi_interface m) live sound" "sound (mi_device m)"
  using findMutable_found [OF assms(1)] assms(2) by (simp_all add: tidy_mount_def)

text \<open>Processing an item keeps the blocks in use, but for the buffer of a read.\<close>

lemma process_write_keeps:
  assumes "\<forall>m \<in> set mounts. tidy_mount live sound m"
  shows "keeps live (process_write mounts item)"
proof (cases "findMutableMountAndPath (wi_filenameText item) (wi_operation item) mounts")
  case (Some r)
  obtain m p where r: "r = (m, p)" by fastforce
  from mutable_mount_tidy [OF Some [unfolded r] assms] show ?thesis
    by (auto simp: process_write_def Some r intro!: relating tidy_device.write_call_keeps)
qed (simp add: process_write_def relating)

lemma process_simple_keeps:
  assumes "\<And>m p. tidy_mount live sound m \<Longrightarrow> keeps live (call_ptr (operation (mi_interface m)) (\<lambda>f. f (mi_device m) p))"
    and "\<forall>m \<in> set mounts. tidy_mount live sound m"
  shows "keeps live (process_simple operation mounts item)"
proof (cases "findMutableMountAndPath (wi_filenameText item) (wi_operation item) mounts")
  case (Some r)
  obtain m p where r: "r = (m, p)" by fastforce
  with findMutable_found [of _ _ mounts m p] Some assms(2) have "tidy_mount live sound m" by blast
  then show ?thesis
    by (auto simp: process_simple_def Some r intro!: relating assms(1))
qed (simp add: process_simple_def relating)

lemma process_item_keeps:
  assumes "mounts_ok mounts" "\<forall>m \<in> set mounts. tidy_mount live sound m" "wi_operation item \<noteq> LFS_OP_READ"
  shows "keeps live (process_item mounts item)"
proof -
  have "keeps live (process_simple di_deleteFile mounts item)"
    "keeps live (process_simple di_createDir mounts item)" "keeps live (process_simple di_deleteDir mounts item)"
    by (rule process_simple_keeps [OF _ assms(2)],
        unfold tidy_mount_def, blast intro: tidy_device.deleteFile_call_keeps
          tidy_device.createDir_call_keeps tidy_device.deleteDir_call_keeps)+
  moreover have "keeps live (process_exists mounts item)" "keeps live (process_size mounts item)"
    unfolding process_exists_def process_size_def
    by (auto intro!: relating exists_loop_keeps [OF assms(1,2)] size_loop_keeps [OF assms(1,2)])
  ultimately show ?thesis
    using process_write_keeps [OF assms(2)] assms(3) by (cases "wi_operation item") (simp_all add: process_item_def)
qed

lemma process_read_leaves:
  assumes "mounts_ok mounts" "\<forall>m \<in> set mounts. tidy_mount live sound m"
    and "wi_operation item = LFS_OP_READ" "tracks (wi_allocator item) live" "wi_buffer item = nullptr"
  shows "wlp (process_item mounts item) (\<lambda>item' w'. new_block (live w) (wi_buffer item') (live w')) w"
proof -
  have "read_loop mounts item (wi_bufferBytes item) nullptr 0 nullptr LFS_NOT_FOUND
      = ask_read item (wi_bufferBytes item) 0 nullptr LFS_NOT_FOUND (visible_mounts (wi_filenameText item) mounts)"
    using loops_ask(3) [OF assms(1)] by blast
  moreover have "\<forall>m \<in> set (visible_mounts (wi_filenameText item) mounts). tidy_mount live sound m"
    using assms(2) visible_mounts_subset by blast
  ultimately show ?thesis
    using ask_read_leaves [OF _ assms(4)] assms(3,5)
    unfolding process_item_def process_read_def wlp_andThen
    by (fastforce simp: process_read_def wlp_andThen wlp_ret elim!: wlp_mono)
qed

subsection \<open>The directory device\<close>

lemma keeps_syscall [relating]: "keeps used_blocks (syscall f)"
  by (rule relatesI) (auto simp: wlp_def syscall_def used_blocks_def split: option.split sum.split prod.split)

lemma keeps_errno [relating]: "keeps used_blocks get_errno" "keeps used_blocks (set_errno e)"
  by (auto intro!: relatesI simp: get_errno_def set_errno_def used_blocks_def wp_simps)

lemma keeps_store_bytes [relating]: "keeps used_blocks (store_bytes p i bs)"
  by (rule relatesI) (auto simp: wlp_def store_bytes_def used_blocks_def split: option.split)

lemma keeps_load_bytes [relating]: "keeps used_blocks (load_bytes p n)"
  by (rule relatesI) (auto simp: wlp_def load_bytes_def split: option.split)

lemma retry_keeps:
  assumes "retry call w = Some y"
  shows "keeps live call \<longrightarrow> (\<forall>x w'. y = Inr (x, w') \<longrightarrow> live w' = live w)"
proof (rule retry.raw_induct [where P = "\<lambda>call w y. keeps live call \<longrightarrow> (\<forall>x w'. y = Inr (x, w') \<longrightarrow> live w' = live w)",
    OF _ assms], intro impI allI)
  fix f :: "('a option, 'b world) prog \<Rightarrow> 'b world \<Rightarrow> (fault + 'a option \<times> 'b world) option"
    and call w y x w'
  assume IH: "\<And>call w y. f call w = Some y \<Longrightarrow> keeps live call \<longrightarrow> (\<forall>x w'. y = Inr (x, w') \<longrightarrow> live w' = live w)"
    and step: "andThen call (\<lambda>x w'. if x = None \<and> w_errno w' = EINTR then f call w'
      else Some (Inr (x, w'))) w = Some y" and call: "keeps live call" and y: "y = Inr (x, w')"
  from andThen_returnD [OF step [unfolded y]] obtain x1 w1 where x1: "call w = Some (Inr (x1, w1))"
    "(if x1 = None \<and> w_errno w1 = EINTR then f call w1 else Some (Inr (x1, w1))) = Some (Inr (x, w'))" by blast
  then have "live w1 = live w" using call by (auto simp: relates_def wlp_iff)
  with x1(2) IH [of call w1 "Inr (x, w')"] call show "live w' = live w" by (auto split: if_splits)
qed

lemma keeps_retry [relating]: "keeps live call \<Longrightarrow> keeps live (retry call)"
  by (rule relatesI) (auto simp: wlp_iff dest: retry_keeps)

lemma delete_walk_keeps:
  assumes "delete_walk px fts w = Some y"
  shows "\<forall>x w'. y = Inr (x, w') \<longrightarrow> used_blocks w' = used_blocks w"
proof (rule delete_walk.raw_induct [where P = "\<lambda>px fts w y. \<forall>x w'. y = Inr (x, w') \<longrightarrow> used_blocks w' = used_blocks w",
    OF _ assms])
  fix f and px :: "'os posix" and fts w y
  assume IH: "\<And>px fts w y. f px fts w = Some y \<Longrightarrow> \<forall>x w'. y = Inr (x, w') \<longrightarrow> used_blocks w' = used_blocks w"
    and step: "andThen (syscall (px_fts_read px fts)) (\<lambda>ent. case ent of None \<Rightarrow> ret False
      | Some e \<Rightarrow> andThen (delete_entry px e) (\<lambda>error w'.
          if error then Some (Inr (True, w')) else f px fts w')) w = Some y"
  have entry: "keeps used_blocks (delete_entry px e)" for e
    unfolding delete_entry_def by (cases "fts_info e") (auto intro!: relating)
  show "\<forall>x w'. y = Inr (x, w') \<longrightarrow> used_blocks w' = used_blocks w"
  proof (intro allI impI)
    fix x w'
    assume y: "y = Inr (x, w')"
    from andThen_returnD [OF step [unfolded y]] obtain ent w1 where
      w1: "syscall (px_fts_read px fts) w = Some (Inr (ent, w1))"
      and rest: "(case ent of None \<Rightarrow> ret False | Some e \<Rightarrow> andThen (delete_entry px e) (\<lambda>error w'.
          if error then Some (Inr (True, w')) else f px fts w')) w1 = Some (Inr (x, w'))" by blast
    have "used_blocks w1 = used_blocks w"
      using keeps_syscall [of "px_fts_read px fts"] w1 by (auto simp: relates_def wlp_iff)
    with rest entry IH show "used_blocks w' = used_blocks w"
      by (cases ent) (fastforce simp: ret_def relates_def wlp_iff dest!: andThen_returnD split: if_splits)+
  qed
qed

lemma keeps_delete_walk [relating]: "keeps used_blocks (delete_walk px fts)"
  by (rule relatesI) (auto simp: wlp_iff dest: delete_walk_keeps)

lemma keeps_getDevicePath:
  assumes "tracks (dd_alloc d) live" "\<And>q path. frees live q (m q path)"
  shows "keeps live (andThen (getDevicePath d p) (\<lambda>(q, path). m q path))"
proof -
  have "andThen (getDevicePath d p) (\<lambda>(q, path). m q path)
    = andThen (call_alloc (dd_alloc d) n 1) (\<lambda>q. if q = nullptr then fail_with NullDeref
        else if b then fail_with OutOfBounds else m q (take (unat (dd_pathLen d)) (dd_devicePath d) @ p))"
    if "n = ucast (ucast (ucast (dd_pathLen d) + of_nat (length p) + 1 :: u64) :: u32)"
      "b \<longleftrightarrow> unat (ucast (ucast (dd_pathLen d) + of_nat (length p) + 1 :: u64) :: u32) < length (dd_devicePath d) + 1
        \<or> unat (ucast (ucast (dd_pathLen d) + of_nat (length p) + 1 :: u64) :: u32) < unat (dd_pathLen d) + length p + 1"
    for n b
    unfolding getDevicePath_def Let_def andThen_assoc that
    by (rule ext, rule andThen_cong_fun) (simp add: prog_simps)
  with keeps_block [OF assms(1), of "\<lambda>q. m q (take (unat (dd_pathLen d)) (dd_devicePath d) @ p)"] assms(2)
  show ?thesis by simp
qed

lemma directory_keeps:
  assumes "tracks (dd_alloc d) used_blocks"
  shows "keeps used_blocks (openFile px d p flags)"
    and "keeps used_blocks (DirectoryDevice_fileExists px d p)"
    and "keeps used_blocks (DirectoryDevice_fileSize px d p c)"
    and "keeps used_blocks (DirectoryDevice_deleteFile px d p)"
    and "keeps used_blocks (DirectoryDevice_createDir px d p)"
    and "keeps used_blocks (DirectoryDevice_deleteDir px d p)"
  unfolding openFile_def open_loop_def DirectoryDevice_fileExists_def DirectoryDevice_fileSize_def
    DirectoryDevice_deleteFile_def DirectoryDevice_createDir_def DirectoryDevice_deleteDir_def freeDevicePath_def
  by (intro keeps_getDevicePath assms frees_now relating; simp)+

lemma directory_write_keeps:
  assumes "tracks (dd_alloc d) used_blocks"
  shows "keeps used_blocks (DirectoryDevice_writeFile px d p offset buffer n mode c)"
  unfolding DirectoryDevice_writeFile_def write_call_def
  by (intro relating directory_keeps(1) [OF assms]) simp_all

text \<open>The read: the buffer is taken from the allocator of the request, and freed again when the read fails.\<close>

abbreviation fills :: "('w \<Rightarrow> addr set) \<Rightarrow> addr \<Rightarrow> (u64 \<times> addr \<times> lfs_error_code_t, 'w) prog \<Rightarrow> bool" where
  "fills live p \<equiv> relates live (\<lambda>L r L'. p \<in> L \<longrightarrow> (case r of (bytes, buffer, code) \<Rightarrow>
     buffer = p \<and> code \<noteq> LFS_NOT_FOUND \<and> L' = L \<or> buffer = nullptr \<and> L' = L - {p}))"

lemma fills_free:
  assumes "tracks a live" "\<And>x. relates live (\<lambda>L (bytes, buffer, code) L'. buffer = nullptr \<and> L' = L) (k x)"
  shows "fills live p (andThen (call_free a p) k)"
  using assms by (rule relates_free) auto

lemma leaves_alloc:
  assumes "tracks a live" "leaves live m" "\<And>p. fills live p (k p)"
  shows "leaves live (andThen (call_alloc a n al) (\<lambda>p. if p \<noteq> nullptr then k p else m))"
proof (rule relatesI, unfold wlp_andThen, rule wlp_track_alloc [OF assms(1)], goal_cases)
  case (1 w w')
  with relatesD [OF assms(2), of w'] show ?case by simp
next
  case (2 w p w')
  with relatesD [OF assms(3) [of p], of w'] show ?case
    by (auto simp: leaves_buffer_def new_block_def elim!: wlp_mono)
qed

lemma directory_read_leaves:
  assumes "tracks (dd_alloc d) used_blocks" "tracks al used_blocks"
  shows "leaves used_blocks (DirectoryDevice_readFile px d p offset n al nullptr nt c)"
  unfolding DirectoryDevice_readFile_def read_open_file_def read_call_def Let_def
  by (intro leaves_alloc fills_free relating directory_keeps(1) [OF assms(1)] assms(2))
    (simp_all add: leaves_buffer_def new_block_def)

text \<open>The contract, for directory devices whose allocator keeps track of its blocks.\<close>

interpretation directory_memory:
  tidy_device "directory_interface px" used_blocks "\<lambda>d. tracks (dd_alloc d) used_blocks" for px :: "'os posix"
  by unfold_locales
    (auto simp: directory_interface_def directory_keeps directory_write_keeps directory_read_leaves)

text \<open>The allocator over a list of addresses keeps track of its blocks.\<close>

lemma list_allocator_calls:
  "call_alloc list_allocator n k w = (case free_addresses (w_heap w) of
     [] \<Rightarrow> Some (Inr (nullptr, w))
   | p # ps \<Rightarrow> Some (Inr (p, w\<lparr>w_heap := (w_heap w)(p \<mapsto> replicate (unat n) 0)\<rparr>)))"
  "call_free list_allocator p w = Some (Inr ((), w\<lparr>w_heap := (w_heap w)(p := None)\<rparr>))"
  by (simp_all add: list_allocator_def call_alloc_def call_free_def call_ptr_def)

lemma list_allocator_tracks: "tracks list_allocator used_blocks"
  unfolding tracks_def
proof (intro conjI allI impI)
  fix n k and w :: "'a world"
  show "wlp (call_alloc list_allocator n k) (\<lambda>p w'. new_block (used_blocks w) p (used_blocks w')) w"
  proof (cases "free_addresses (w_heap w)")
    case (Cons p ps)
    with free_addresses_take [OF Cons] show ?thesis
      by (auto simp: wlp_def list_allocator_calls new_block_def used_blocks_def)
  qed (simp add: wlp_def list_allocator_calls new_block_def)
qed (auto simp: wlp_def list_allocator_calls used_blocks_def)

end
