(* ===== verification/Item_Memory.thy ===== *)
theory Item_Memory
  imports Device_Memory Context_Frame "HOL-Library.Disjoint_Sets"
begin

text \<open>
  The memory of work items over their life. A submission takes one block, the name of the file; a read that
  finds its file takes another one, the buffer; the buffer is freed by the client, or after the callback, or
  it is passed on to the client, and the name is freed with the item. In every state that can be reached each
  block in use has exactly one owner: one work item, or someone outside.
\<close>

subsection \<open>Owners\<close>

definition divided :: "('i \<Rightarrow> 'a set) \<Rightarrow> 'a set \<Rightarrow> 'a set \<Rightarrow> bool" where
  "divided f others L \<longleftrightarrow>
     disjoint_family f \<and> (\<forall>i. f i \<inter> others = {}) \<and> L = others \<union> (\<Union>i. f i)"

lemma divided_take:
  assumes "divided f others L" "x \<notin> L"
  shows "divided (f(i := insert x (f i))) others (insert x L)"
proof -
  from assms have x: "x \<notin> others" "\<And>j. x \<notin> f j" and f: "\<And>j k. j \<noteq> k \<Longrightarrow> f j \<inter> f k = {}"
    by (auto simp: divided_def disjoint_family_on_def)
  have "(\<Union>j. (f(i := insert x (f i))) j) = insert x (\<Union>j. f j)"
    by (auto split: if_splits)
  moreover have "disjoint_family (f(i := insert x (f i)))"
    unfolding disjoint_family_on_def using x f by auto
  ultimately show ?thesis using assms(1) x by (auto simp: divided_def)
qed

lemma divided_give:
  assumes "divided f others L" "B \<subseteq> f i"
  shows "divided (f(i := f i - B)) others (L - B)"
proof -
  from assms(1) have f: "\<And>j k. j \<noteq> k \<Longrightarrow> f j \<inter> f k = {}" and o: "\<And>j. f j \<inter> others = {}"
    by (simp_all add: divided_def disjoint_family_on_def)
  with assms(2) have x: "B \<inter> others = {}" "\<And>j. j \<noteq> i \<Longrightarrow> B \<inter> f j = {}" by blast+
  have "(f(i := f i - B)) j = f j - B" for j
    using x(2) [of j] by auto
  then have "(\<Union>j. (f(i := f i - B)) j) = (\<Union>j. f j - B)" by (simp only:)
  also have "\<dots> = (\<Union>j. f j) - B" by blast
  finally have "(\<Union>j. (f(i := f i - B)) j) = (\<Union>j. f j) - B" .
  moreover have "disjoint_family (f(i := f i - B))"
    unfolding disjoint_family_on_def using f by auto
  ultimately show ?thesis using assms(1) x by (auto simp: divided_def)
qed

text \<open>A part that an owner hands over to the outside, and blocks the outside takes and gives back.\<close>

lemma divided_hand_over:
  assumes "divided f others L" "B \<subseteq> f i"
  shows "divided (f(i := f i - B)) (others \<union> B) L"
proof -
  from assms(1) have f: "\<And>j k. j \<noteq> k \<Longrightarrow> f j \<inter> f k = {}" and o: "\<And>j. f j \<inter> others = {}"
    by (simp_all add: divided_def disjoint_family_on_def)
  with assms(2) have x: "\<And>j. j \<noteq> i \<Longrightarrow> B \<inter> f j = {}" by blast
  have "disjoint_family (f(i := f i - B))"
    unfolding disjoint_family_on_def using f by auto
  moreover have "(f(i := f i - B)) j \<inter> (others \<union> B) = {}" for j using o [of j] x [of j] by auto
  moreover have "L = (others \<union> B) \<union> (\<Union>j. (f(i := f i - B)) j)"
    using assms by (auto simp: divided_def split: if_splits)
  ultimately show ?thesis by (simp add: divided_def)
qed

lemma divided_outside:
  "divided f others L \<Longrightarrow> p \<notin> L \<Longrightarrow> divided f (insert p others) (insert p L)"
  "divided f (insert p others) L \<Longrightarrow> p \<notin> others \<Longrightarrow> divided f others (L - {p})"
  by (auto simp: divided_def)

lemma divided_mem: "divided f others L \<Longrightarrow> x \<in> f i \<Longrightarrow> x \<in> L"
  by (auto simp: divided_def)

text \<open>What a work item owns: the block of its name and, if it is a read with a buffer, the buffer.\<close>

definition buffer_blocks :: "'w lfs_work_item_t \<Rightarrow> addr set" where
  "buffer_blocks item =
     (if wi_operation item = LFS_OP_READ \<and> wi_buffer item \<noteq> nullptr then {wi_buffer item} else {})"

definition item_blocks :: "'w lfs_work_item_t \<Rightarrow> addr set" where
  "item_blocks item = insert (wi_filename item) (buffer_blocks item)"

definition context_blocks :: "('d, 'w) file_context \<Rightarrow> addr \<Rightarrow> addr set" where
  "context_blocks fc a = (case fc_items fc a of None \<Rightarrow> {} | Some item \<Rightarrow> item_blocks item)"

text \<open>
  Reads have an allocator that keeps track of its blocks and no buffer before they are done. Other requests have
  no allocator.
\<close>

definition item_ok :: "('w \<Rightarrow> addr set) \<Rightarrow> 'w lfs_work_item_t \<Rightarrow> bool" where
  "item_ok live item \<longleftrightarrow>
     (if wi_operation item = LFS_OP_READ
      then tracks (wi_allocator item) live \<and> (\<not> wi_completed item \<longrightarrow> wi_buffer item = nullptr)
        \<and> (wi_buffer item \<noteq> nullptr \<longrightarrow> wi_filename item \<noteq> wi_buffer item)
      else wi_allocator item = null_allocator)"

definition memory_inv :: "('w \<Rightarrow> addr set) \<Rightarrow> ('d \<Rightarrow> bool) \<Rightarrow> addr set \<Rightarrow> ('d, 'w) ctx \<Rightarrow> bool" where
  "memory_inv live sound others s \<longleftrightarrow>
     ctx_inv (fst s) \<and> tracks (fc_alloc (fst s)) live
     \<and> mounts_ok (fc_mounts (fst s)) \<and> (\<forall>m \<in> set (fc_mounts (fst s)). tidy_mount live sound m)
     \<and> (\<forall>a item. fc_items (fst s) a = Some item \<longrightarrow> item_ok live item)
     \<and> divided (context_blocks (fst s)) others (live (snd s))"

text \<open>
  What is asked of callbacks: they may use the context, as long as each block still has exactly one owner
  afterwards and what is outside stays outside (so they may submit further requests); they leave the mounts, the
  thread and the items with a callback outside the queue alone, one of which is their own.
\<close>

definition orderly :: "('d, 'w) callbacks \<Rightarrow> ('w \<Rightarrow> addr set) \<Rightarrow> ('d \<Rightarrow> bool) \<Rightarrow> bool" where
  "orderly cbs live sound \<longleftrightarrow> framed_callbacks cbs \<and>
     (\<forall>f item u others s. memory_inv live sound others s \<longrightarrow>
       wlp (cbs f item u) (\<lambda>_ t. memory_inv live sound others t
         \<and> fc_processingThread (fst t) = fc_processingThread (fst s)
         \<and> (\<forall>a i. fc_items (fst s) a = Some i \<and> wi_callback i \<noteq> nullptr \<and> a \<notin> set (pending (fst s)) \<longrightarrow>
              fc_items (fst t) a = Some i \<and> a \<notin> set (pending (fst t)))) s)"

lemma wlp_orderly:
  assumes "orderly cbs live sound" "memory_inv live sound others s"
    and "\<And>t. memory_inv live sound others t \<Longrightarrow> fc_processingThread (fst t) = fc_processingThread (fst s) \<Longrightarrow>
      (\<And>a i. fc_items (fst s) a = Some i \<Longrightarrow> wi_callback i \<noteq> nullptr \<Longrightarrow> a \<notin> set (pending (fst s)) \<Longrightarrow>
        fc_items (fst t) a = Some i \<and> a \<notin> set (pending (fst t))) \<Longrightarrow> Q () t"
  shows "wlp (cbs f item u) Q s"
proof -
  have "wlp (cbs f item u) (\<lambda>_ t. memory_inv live sound others t
      \<and> fc_processingThread (fst t) = fc_processingThread (fst s)
      \<and> (\<forall>a i. fc_items (fst s) a = Some i \<and> wi_callback i \<noteq> nullptr \<and> a \<notin> set (pending (fst s)) \<longrightarrow>
           fc_items (fst t) a = Some i \<and> a \<notin> set (pending (fst t)))) s"
    using assms(1,2) unfolding orderly_def by blast
  then show ?thesis by (rule wlp_mono) (use assms(3) in auto)
qed

lemma memory_inv_eq:
  "fst t = fst s \<Longrightarrow> live (snd t) = live (snd s) \<Longrightarrow> memory_inv live sound others s \<Longrightarrow> memory_inv live sound others t"
  by (simp add: memory_inv_def)

lemma memory_inv_world:
  "memory_inv live sound others (fc, w) \<Longrightarrow> p \<notin> live w \<Longrightarrow> live w' = insert p (live w) \<Longrightarrow>
     memory_inv live sound (insert p others) (fc, w')"
  "memory_inv live sound (insert p others) (fc, w) \<Longrightarrow> p \<notin> others \<Longrightarrow> live w' = live w - {p} \<Longrightarrow>
     memory_inv live sound others (fc, w')"
  by (simp_all add: memory_inv_def divided_outside)

lemma wlp_fc_allocate_track:
  assumes "tracks (fc_alloc (fst s)) live" "\<And>w. live w = live (snd s) \<Longrightarrow> Q nullptr (fst s, w)"
    and "\<And>p w. p \<noteq> nullptr \<Longrightarrow> p \<notin> live (snd s) \<Longrightarrow> live w = insert p (live (snd s)) \<Longrightarrow> Q p (fst s, w)"
  shows "wlp (fc_allocate n al) Q s"
  unfolding fc_allocate_def wp_simps by (rule wlp_track_alloc [OF assms(1)]) (simp_all add: assms(2,3))

lemma wlp_fc_deallocate_track:
  assumes "tracks (fc_alloc (fst s)) live" "p \<in> live (snd s)"
    and "\<And>w. live w = live (snd s) - {p} \<Longrightarrow> Q () (fst s, w)"
  shows "wlp (fc_deallocate p) Q s"
  unfolding fc_deallocate_def wp_simps by (rule wlp_track_free [OF assms(1,2)]) (simp add: assms(3))

subsection \<open>Submissions\<close>

text \<open>
  A submission puts an item in the queue, whose name is a new block; or it leaves the context and the blocks
  as they were.
\<close>

definition enters :: "('w \<Rightarrow> addr set) \<Rightarrow> ('d, 'w) ctx \<Rightarrow> lfs_file_operation_t \<Rightarrow> addr \<Rightarrow> ('d, 'w) ctx \<Rightarrow> bool" where
  "enters live s op a t \<longleftrightarrow>
     (\<exists>item. wi_operation item = op \<and> submitted (fst s) a item (fst t) \<and> ctx_inv (fst t) \<and> item_ok live item \<and> \<not> wi_completed item
       \<and> wi_filename item \<notin> live (snd s) \<and> live (snd t) = insert (wi_filename item) (live (snd s)))"

lemma entersI:
  "submitted (fst s) a item (fst t) \<Longrightarrow> wi_operation item = op \<Longrightarrow> ctx_inv (fst t) \<Longrightarrow> item_ok live item \<Longrightarrow>
   \<not> wi_completed item \<Longrightarrow> wi_filename item \<notin> live (snd s) \<Longrightarrow>
   live (snd t) = insert (wi_filename item) (live (snd s)) \<Longrightarrow> enters live s op a t"
  unfolding enters_def by blast

definition stays :: "('w \<Rightarrow> addr set) \<Rightarrow> ('d, 'w) ctx \<Rightarrow> ('d, 'w) ctx \<Rightarrow> bool" where
  "stays live s t \<longleftrightarrow> fst t = fst s \<and> live (snd t) = live (snd s)"

definition ready :: "('d, 'w) callbacks \<Rightarrow> ('w \<Rightarrow> addr set) \<Rightarrow> ('d \<Rightarrow> bool) \<Rightarrow> addr set \<Rightarrow> ('d, 'w) ctx \<Rightarrow> bool" where
  "ready cbs live sound others s \<longleftrightarrow> memory_inv live sound others s \<and> orderly cbs live sound
     \<and> sem_value (fc_workItemQueueSemaphore (fst s)) \<noteq> - 1"

lemma readyD:
  "ready cbs live sound others s \<Longrightarrow> ctx_inv (fst s) \<and> tracks (fc_alloc (fst s)) live
    \<and> sem_value (fc_workItemQueueSemaphore (fst s)) \<noteq> - 1"
  by (simp add: ready_def memory_inv_def)

text \<open>A submission that finds the pool empty: its callback, if there is one, has been called.\<close>

definition exhausted :: "('w \<Rightarrow> addr set) \<Rightarrow> ('d \<Rightarrow> bool) \<Rightarrow> addr set \<Rightarrow> ('d, 'w) ctx \<Rightarrow> addr \<Rightarrow> ('d, 'w) ctx \<Rightarrow> bool" where
  "exhausted live sound others s cb t \<longleftrightarrow> memory_inv live sound others t \<and> (cb = nullptr \<longrightarrow> stays live s t)"

text \<open>The item on the stack that reports the exhausted pool: its name is taken and given back.\<close>

lemma wlp_report_exhaustion:
  fixes s :: "('d, 'w) ctx"
  assumes rd: "ready cbs live sound others s" and post: "\<And>t. memory_inv live sound others t \<Longrightarrow> Q nullptr t"
  shows "wlp (andThen (initWorkItem new_work_item path op cb ud act) (\<lambda>item.
       let errorItem = item\<lparr>wi_completed := True, wi_resultCode := LFS_OUT_OF_WORK_ITEMS\<rparr>
       in andThen (cbs cb errorItem ud) (\<lambda>_.
          andThen (fc_deallocate (wi_filename errorItem)) (\<lambda>_. ret nullptr)))) Q s"
proof -
  have inv: "memory_inv live sound others (fst s, snd s)" and cbs: "orderly cbs live sound"
    using rd by (simp_all add: ready_def)
  then have tr: "tracks (fc_alloc (fst s)) live" by (simp add: memory_inv_def)
  show ?thesis
    unfolding initWorkItem_def Let_def wlp_andThen
  proof (rule wlp_fc_allocate_track [OF tr], goal_cases)
    case (1 w)
    then show ?case by (simp add: wp_simps)
  next
    case (2 p w)
    have "p \<notin> others" using 2(2) inv by (auto simp: memory_inv_def divided_def)
    show ?case
      unfolding if_not_P [OF 2(1)] wlp_andThen wlp_fc_get wlp_ret
    proof (rule wlp_orderly [OF cbs memory_inv_world(1) [OF inv 2(2,3)]], goal_cases)
      case (1 t)
      have t: "tracks (fc_alloc (fst t)) live" "p \<in> live (snd t)"
        using 1(1) by (auto simp: memory_inv_def divided_def)
      have "memory_inv live sound (insert p others) (fst t, snd t)" using 1(1) by simp
      note given = post [OF memory_inv_world(2) [OF this \<open>p \<notin> others\<close>]]
      show ?case
        by (rule wlp_fc_deallocate_track [where live = live]) (simp_all add: t given wlp_ret)
    qed
  qed
qed

lemma wlp_alloc_item:
  fixes s :: "('d, 'w) ctx"
  assumes rd: "ready cbs live sound others s"
    and taken: "\<And>a name fc' w. a \<noteq> nullptr \<Longrightarrow> name \<notin> live (snd s) \<Longrightarrow> live w = insert name (live (snd s)) \<Longrightarrow>
      took (fst s) a (prepared_item (fc_self (fst s)) name path op cb ud act) fc' \<Longrightarrow> Q a (fc', w)"
    and none: "\<And>t. exhausted live sound others s cb t \<Longrightarrow> Q nullptr t"
  shows "wlp (allocWorkItemCommon cbs path op cb ud act) Q s"
  unfolding allocWorkItemCommon_def wlp_andThen [of workItemPool_alloc]
proof (rule wp_wlp, rule wp_workItemPool_alloc, goal_cases)
  case 1
  then show ?case using rd by (simp add: ready_def memory_inv_def ctx_inv_def)
next
  case (2 a fc')
  show ?case
  proof (cases "a = nullptr")
    case True
    with 2 have fc': "fc' = fst s" by (auto simp: pool_took_def split: if_splits)
    show ?thesis
    proof (cases "cb = nullptr")
      case True
      with rd none [of s] \<open>a = nullptr\<close> fc' show ?thesis
        by (simp add: wlp_ret stays_def exhausted_def ready_def)
    next
      case False
      with wlp_report_exhaustion [OF rd, where Q = Q and path = path and op = op and cb = cb and ud = ud and act = act]
        none \<open>a = nullptr\<close> fc'
      show ?thesis by (simp add: exhausted_def)
    qed
  next
    case False
    note t = pool_took_took [OF 2 False] and f = took_fields [OF pool_took_took [OF 2 False]]
    have tr: "tracks (fc_alloc fc') live" using rd f by (simp add: ready_def memory_inv_def)
    have "wlp (initWorkItem new_work_item path op cb ud act)
        (\<lambda>item'. wlp (update_item a (\<lambda>_. item')) (\<lambda>_. wlp (ret a) Q)) (fc', snd s)"
      unfolding initWorkItem_def wlp_andThen
    proof (rule wlp_fc_allocate_track [where live = live], goal_cases)
      case 1
      then show ?case using tr by simp
    next
      case (3 name w)
      have item: "new_work_item\<lparr>wi_operation := op, wi_filename := name, wi_filenameText := normalize path,
          wi_callback := cb, wi_callbackUserData := ud, wi_callbackBufferAction := act,
          wi_completed := False, wi_context := fc_self (fst s)\<rparr>
        = prepared_item (fc_self (fst s)) name path op cb ud act"
        by (simp add: prepared_item_def new_work_item_def)
      show ?case
        using taken [OF False _ _ took_update [OF t]] f(1,8) 3
        by (simp add: wp_simps item)
    qed (simp add: wp_simps)
    with False f(1) show ?thesis unfolding wp_simps by simp
  qed
qed

text \<open>The three shapes of a submission: nothing to fill in, fields to fill in, and a read.\<close>

lemma prepared_fields [simp]:
  "wi_operation (prepared_item this name path op cb ud act) = op"
  "wi_filename (prepared_item this name path op cb ud act) = name"
  "wi_buffer (prepared_item this name path op cb ud act) = nullptr"
  "wi_callback (prepared_item this name path op cb ud act) = cb"
  "wi_callbackBufferAction (prepared_item this name path op cb ud act) = act"
  "wi_completed (prepared_item this name path op cb ud act) = False"
  "wi_allocator (prepared_item this name path op cb ud act) = null_allocator"
  by (simp_all add: prepared_item_def new_work_item_def)

lemma wlp_enter_plain:
  assumes "ready cbs live sound others s" "op \<noteq> LFS_OP_READ"
    and "\<And>a t. enters live s op a t \<Longrightarrow> Q (g a) t" "\<And>t. exhausted live sound others s cb t \<Longrightarrow> Q (h nullptr) t"
  shows "wlp (andThen (allocWorkItemCommon cbs path op cb ud act)
    (\<lambda>a. if a \<noteq> nullptr then andThen (push_work_item a) (\<lambda>_. ret (g a)) else ret (h a))) Q s"
  unfolding wlp_andThen wlp_if wlp_ret
proof (rule wlp_alloc_item [OF assms(1)], goal_cases)
  case (1 a name fc1 w)
  have "wlp (push_work_item a) (\<lambda>x. Q (g a)) (fc1, w)"
    by (rule wlp_push_ctx [OF _ 1(4)])
      (use readyD [OF assms(1)] assms(2) 1 in \<open>auto simp: item_ok_def intro!: assms(3) entersI\<close>)
  with 1 show ?case by simp
qed (simp add: assms(4))

lemma wlp_enter_fields:
  assumes "ready cbs live sound others s"
    and "\<And>item. wi_operation (f item) = wi_operation item \<and> wi_filename (f item) = wi_filename item
      \<and> wi_allocator (f item) = wi_allocator item \<and> wi_completed (f item) = wi_completed item"
    and "op \<noteq> LFS_OP_READ"
    and "\<And>a t. enters live s op a t \<Longrightarrow> Q (g a) t" "\<And>t. exhausted live sound others s cb t \<Longrightarrow> Q (h nullptr) t"
  shows "wlp (andThen (allocWorkItemCommon cbs path op cb ud act)
    (\<lambda>a. if a \<noteq> nullptr then andThen (update_item a f) (\<lambda>_. andThen (push_work_item a) (\<lambda>_. ret (g a)))
      else ret (h a))) Q s"
  unfolding wlp_andThen wlp_if wlp_ret
proof (rule wlp_alloc_item [OF assms(1)], goal_cases)
  case (1 a name fc1 w)
  have "wlp (update_item a f) (\<lambda>x. wlp (push_work_item a) (\<lambda>x. Q (g a))) (fc1, w)"
    by (rule wlp_update_push_ctx [OF _ 1(4)])
      (use readyD [OF assms(1)] assms(2,3) 1 in \<open>auto simp: item_ok_def intro!: assms(4) entersI\<close>)
  with 1 show ?case by simp
qed (simp add: assms(5))

lemma wlp_enter_read:
  assumes "ready cbs live sound others s"
    and "\<And>al item. wi_operation (f al item) = wi_operation item \<and> wi_filename (f al item) = wi_filename item
      \<and> wi_allocator (f al item) = al \<and> wi_completed (f al item) = wi_completed item
      \<and> wi_buffer (f al item) = wi_buffer item"
    and "\<And>x. al = Some x \<Longrightarrow> tracks x live"
    and "\<And>a t. enters live s LFS_OP_READ a t \<Longrightarrow> Q (g a) t" "\<And>t. exhausted live sound others s cb t \<Longrightarrow> Q (h nullptr) t"
  shows "wlp (andThen (allocWorkItemCommon cbs path LFS_OP_READ cb ud act)
    (\<lambda>a. if a \<noteq> nullptr then andThen (item_allocator al) (\<lambda>al'. andThen (update_item a (f al'))
        (\<lambda>_. andThen (push_work_item a) (\<lambda>_. ret (g a)))) else ret (h a))) Q s"
  unfolding wlp_andThen wlp_if wlp_item_allocator wlp_ret
proof (rule wlp_alloc_item [OF assms(1)], goal_cases)
  case (1 a name fc1 w)
  let ?al = "case_option (fc_alloc (fst (fc1, w))) id al"
  have "tracks ?al live"
    using readyD [OF assms(1)] assms(3) took_fields(3) [OF 1(4)] by (cases al) auto
  then have "wlp (update_item a (f ?al)) (\<lambda>x. wlp (push_work_item a) (\<lambda>x. Q (g a))) (fc1, w)"
    by (intro wlp_update_push_ctx [OF _ 1(4)])
      (use readyD [OF assms(1)] assms(2) 1 in \<open>auto simp: item_ok_def intro!: assms(4) entersI\<close>)
  with 1 show ?case by simp
qed (simp add: assms(5))

lemmas wlp_enters = wlp_enter_plain wlp_enter_fields wlp_enter_read

text \<open>The change of operation at the end of a plain write.\<close>

lemma enters_plain_write:
  assumes "enters live s LFS_OP_WRITE_SEGMENT a (fc, w)" "fc_items fc a = Some item"
  shows "enters live s LFS_OP_WRITE a
    (fc\<lparr>fc_items := (fc_items fc)(a \<mapsto> item\<lparr>wi_operation := LFS_OP_WRITE\<rparr>)\<rparr>, w)"
proof -
  from assms(1) obtain item' where e: "submitted (fst s) a item' fc" "ctx_inv fc" "item_ok live item'"
    "\<not> wi_completed item'" "wi_filename item' \<notin> live (snd s)" "wi_operation item' = LFS_OP_WRITE_SEGMENT"
    "live w = insert (wi_filename item') (live (snd s))" by (auto simp: enters_def)
  with assms(2) have "item' = item" by (simp add: submitted_def)
  with e assms(2) ctx_inv_update [OF e(2) assms(2), of "item\<lparr>wi_operation := LFS_OP_WRITE\<rparr>"] show ?thesis
    by (intro entersI [where item = "item\<lparr>wi_operation := LFS_OP_WRITE\<rparr>"])
      (auto simp: submitted_def item_ok_def ctx_inv_def)
qed

text \<open>The requests this is about: a read uses an allocator that keeps track of its blocks.\<close>

fun request_tracked :: "('w \<Rightarrow> addr set) \<Rightarrow> 'w request \<Rightarrow> bool" where
  "request_tracked live (ReadFile path nt (Some al)) = tracks al live"
| "request_tracked live (ReadFileSegment path off n nt (Some al)) = tracks al live"
| "request_tracked live req = True"

lemma context_blocks_upd:
  assumes "fc_items fc' = (fc_items fc)(a := x)"
  shows "context_blocks fc' = (context_blocks fc)(a := case x of None \<Rightarrow> {} | Some item \<Rightarrow> item_blocks item)"
  by (rule ext) (simp add: context_blocks_def assms)

lemma context_blocks_same: "fc_items fc' = fc_items fc \<Longrightarrow> context_blocks fc' = context_blocks fc"
  by (rule ext) (simp add: context_blocks_def)

lemma memory_inv_enters:
  assumes "memory_inv live sound others s" "enters live s op a t"
  shows "memory_inv live sound others t"
proof -
  from assms(2) obtain item where e: "submitted (fst s) a item (fst t)" "ctx_inv (fst t)" "item_ok live item"
    "\<not> wi_completed item" "wi_filename item \<notin> live (snd s)"
    "live (snd t) = insert (wi_filename item) (live (snd s))" by (auto simp: enters_def)
  have none: "context_blocks (fst s) a = {}" using e(1) by (simp add: submitted_def context_blocks_def)
  have "item_blocks item = {wi_filename item}"
    using e(3,4) by (auto simp: item_blocks_def buffer_blocks_def item_ok_def split: if_splits)
  then have "context_blocks (fst t) = (context_blocks (fst s))(a := insert (wi_filename item) (context_blocks (fst s) a))"
    using e(1) context_blocks_upd [of "fst t" "fst s" a "Some item"] none by (simp add: submitted_def)
  with assms(1) e divided_take [of "context_blocks (fst s)" others "live (snd s)" "wi_filename item" a] show ?thesis
    by (auto simp: memory_inv_def submitted_def)
qed

text \<open>
  A request without a callback either stays out and changes nothing, or enters; one with a callback may, besides,
  have had its callback called.
\<close>

definition submits :: "('w \<Rightarrow> addr set) \<Rightarrow> ('d, 'w) ctx \<Rightarrow> ('d, 'w) ctx \<Rightarrow> bool" where
  "submits live s t \<longleftrightarrow> stays live s t \<or> (\<exists>op a. enters live s op a t)"

lemma submitsI: "stays live s t \<Longrightarrow> submits live s t" "enters live s op a t \<Longrightarrow> submits live s t"
  "exhausted live sound others s nullptr t \<Longrightarrow> submits live s t"
  unfolding submits_def exhausted_def by blast+

lemma memory_inv_submits: "memory_inv live sound others s \<Longrightarrow> submits live s t \<Longrightarrow> memory_inv live sound others t"
  unfolding submits_def stays_def by (auto intro: memory_inv_enters memory_inv_eq)

lemma wlp_issue_submits:
  assumes "ready cbs live sound others s" "request_tracked live req"
  shows "wlp (issue cbs req) (\<lambda>_ t. submits live s t) s"
proof (cases req)
  case (WriteFile path buffer n)
  have seg: "wlp (writeFileSegment cbs path 0 buffer n) (\<lambda>a t. if a = nullptr then stays live s t
      else enters live s LFS_OP_WRITE_SEGMENT a t) s"
    unfolding submission_defs
    by (rule wlp_enter_fields [OF assms(1)]) (auto simp: enters_def submitted_def exhausted_def)
  show ?thesis
    unfolding WriteFile issue.simps writeFile_def wlp_andThen wlp_ret
    by (rule wlp_mono [OF seg])
      (auto simp: make_plain_write_def wp_simps submitsI(1) intro!: submitsI(2) [OF enters_plain_write])
next
  case (ReadFile path nt al)
  show ?thesis
    unfolding ReadFile issue.simps submission_defs
    by (rule wlp_enter_read [OF assms(1)]) (use assms(2) in \<open>auto simp: ReadFile intro: submitsI\<close>)
next
  case (ReadFileSegment path off n nt al)
  show ?thesis
    unfolding ReadFileSegment issue.simps submission_defs
    by (rule wlp_enter_read [OF assms(1)]) (use assms(2) in \<open>auto simp: ReadFileSegment intro: submitsI\<close>)
qed (simp only: issue.simps submission_defs; rule wlp_enters [OF assms(1)]; auto intro: submitsI)+

lemma wlp_issue_callback_memory:
  assumes "ready cbs live sound others s" "request_tracked live req"
  shows "wlp (issue_callback cbs req cb act ud) (\<lambda>_ t. memory_inv live sound others t) s"
proof -
  have inv: "memory_inv live sound others s" using assms(1) by (simp add: ready_def)
  note post = memory_inv_enters [OF inv] and none = exhausted_def [of live sound others]
  show ?thesis
  proof (cases req)
    case (ReadFile path nt al)
    show ?thesis
      unfolding ReadFile issue_callback.simps submission_defs
      by (rule wlp_enter_read [OF assms(1)]) (use assms(2) in \<open>auto simp: ReadFile none intro: post\<close>)
  next
    case (ReadFileSegment path off n nt al)
    show ?thesis
      unfolding ReadFileSegment issue_callback.simps submission_defs
      by (rule wlp_enter_read [OF assms(1)]) (use assms(2) in \<open>auto simp: ReadFileSegment none intro: post\<close>)
  qed (simp only: issue_callback.simps submission_defs; rule wlp_enters [OF assms(1)]; auto simp: none intro: post)+
qed

text \<open>Callbacks that only look, and callbacks that submit a further request, are orderly.\<close>

lemma quiet_orderly:
  assumes "\<And>f item u s. wlp (cbs f item u) (\<lambda>_ t. fst t = fst s \<and> live (snd t) = live (snd s)) s"
  shows "orderly cbs live sound"
proof -
  have "framed_callbacks cbs"
    unfolding framed_callbacks_def framed_def by (intro allI wlp_mono [OF assms]) simp
  moreover have "wlp (cbs f item u) (\<lambda>_ t. memory_inv live sound others t
         \<and> fc_processingThread (fst t) = fc_processingThread (fst s)
         \<and> (\<forall>a i. fc_items (fst s) a = Some i \<and> wi_callback i \<noteq> nullptr \<and> a \<notin> set (pending (fst s)) \<longrightarrow>
              fc_items (fst t) a = Some i \<and> a \<notin> set (pending (fst t)))) s"
    if "memory_inv live sound others s" for f item u others s
    using that by (intro wlp_mono [OF assms]) (auto intro: memory_inv_eq)
  ultimately show ?thesis by (simp add: orderly_def)
qed

definition submit_again :: "'w request \<Rightarrow> ('d, 'w) callbacks" where
  "submit_again req = (\<lambda>f item u. andThen (fc_get (\<lambda>fc. sem_value (fc_workItemQueueSemaphore fc))) (\<lambda>v.
     if v = - 1 then ret () else andThen (issue (\<lambda>f item u. ret ()) req) (\<lambda>_. ret ())))"

lemma submit_again_orderly:
  fixes live :: "'w \<Rightarrow> addr set" and sound :: "'d \<Rightarrow> bool"
  assumes "request_tracked live req"
  shows "orderly (submit_again req) live sound"
proof -
  have silent: "orderly (\<lambda>f item u. ret ()) live sound" for sound :: "'d \<Rightarrow> bool" by (rule quiet_orderly) (simp add: wlp_ret)
  have "framed_callbacks ((\<lambda>f item u. ret ()) :: ('d, 'w) callbacks)" by (simp add: framed_callbacks_def framed_ret)
  then have "framed (submit_again req f item u :: (unit, ('d, 'w) ctx) prog)" for f item u
    unfolding submit_again_def by (auto intro!: framing framed_issue)
  then have "framed_callbacks (submit_again req :: ('d, 'w) callbacks)" by (simp add: framed_callbacks_def)
  moreover have "wlp (submit_again req f item u) (\<lambda>_ t. memory_inv live sound others t
         \<and> fc_processingThread (fst t) = fc_processingThread (fst s)
         \<and> (\<forall>a i. fc_items (fst s) a = Some i \<and> wi_callback i \<noteq> nullptr \<and> a \<notin> set (pending (fst s)) \<longrightarrow>
              fc_items (fst t) a = Some i \<and> a \<notin> set (pending (fst t)))) s"
    if inv: "memory_inv live sound others s" for f item u others s
  proof (cases "sem_value (fc_workItemQueueSemaphore (fst s)) = - 1")
    case True
    with inv show ?thesis by (simp add: submit_again_def wp_simps)
  next
    case False
    then have rd: "ready (\<lambda>f item u. ret ()) live sound others s" using inv silent by (simp add: ready_def)
    have "wlp (issue (\<lambda>f item u. ret ()) req) (\<lambda>_ t. memory_inv live sound others t
         \<and> fc_processingThread (fst t) = fc_processingThread (fst s)
         \<and> (\<forall>a i. fc_items (fst s) a = Some i \<and> wi_callback i \<noteq> nullptr \<and> a \<notin> set (pending (fst s)) \<longrightarrow>
              fc_items (fst t) a = Some i \<and> a \<notin> set (pending (fst t)))) s"
    proof (rule wlp_mono [OF wlp_issue_submits [OF rd assms]], goal_cases)
      case (1 x t)
      then have "memory_inv live sound others t" by (rule memory_inv_submits [OF inv])
      with 1 show ?case by (auto simp: submits_def stays_def enters_def submitted_def)
    qed
    then show ?thesis using False by (auto simp: submit_again_def wp_simps elim!: wlp_mono)
  qed
  ultimately show ?thesis by (simp add: orderly_def)
qed

subsection \<open>Every step keeps the division of the memory\<close>

text \<open>Giving a block of an item back: the buffer, or the name together with the item.\<close>

lemma wlp_free_buffer:
  assumes "item_ok live item" "wi_completed item" "wi_operation item = LFS_OP_READ \<Longrightarrow> wi_buffer item \<noteq> nullptr \<Longrightarrow> wi_buffer item \<in> live w"
    and "\<And>w'. live w' = live w - buffer_blocks item \<Longrightarrow> Q (Some (item\<lparr>wi_buffer := nullptr\<rparr>)) w'"
  shows "wlp (WorkItemFreeBuffer (Some item)) Q w"
proof (cases "wi_buffer item = nullptr")
  case True
  then have "item\<lparr>wi_buffer := nullptr\<rparr> = item" by simp
  with True assms(4) [of w] show ?thesis by (simp add: WorkItemFreeBuffer_def wlp_ret buffer_blocks_def)
next
  case False
  show ?thesis
  proof (cases "wi_operation item = LFS_OP_READ")
    case True
    with assms(1) False have "tracks (wi_allocator item) live" "buffer_blocks item = {wi_buffer item}"
      by (auto simp: item_ok_def buffer_blocks_def)
    with False assms(3) [OF True False] assms(4) show ?thesis
      by (auto simp: WorkItemFreeBuffer_def wp_simps intro!: wlp_track_free [where live = live])
  next
    case nr: False
    with False assms(1) show ?thesis
      by (simp add: item_ok_def WorkItemFreeBuffer_def wp_simps null_allocator_def call_free_def prog_simps)
  qed
qed

lemma memory_inv_free_buffer:
  assumes "memory_inv live sound others (fc, w)" "fc_items fc a = Some item" "wi_completed item"
    and "live w' = live w - buffer_blocks item"
  shows "memory_inv live sound others (fc\<lparr>fc_items := (fc_items fc)(a \<mapsto> item\<lparr>wi_buffer := nullptr\<rparr>)\<rparr>, w')"
proof -
  let ?fc = "fc\<lparr>fc_items := (fc_items fc)(a \<mapsto> item\<lparr>wi_buffer := nullptr\<rparr>)\<rparr>"
  let ?B = "buffer_blocks item"
  have ok: "item_ok live item" using assms(1,2) by (auto simp: memory_inv_def)
  have f: "context_blocks fc a = item_blocks item" using assms(2) by (simp add: context_blocks_def)
  have b: "context_blocks ?fc = (context_blocks fc)(a := context_blocks fc a - ?B)"
  proof -
    have "item_blocks (item\<lparr>wi_buffer := nullptr\<rparr>) = {wi_filename item}"
      "item_blocks item - ?B = {wi_filename item}"
      using ok by (auto simp: item_blocks_def buffer_blocks_def item_ok_def)
    with context_blocks_upd [of ?fc fc a "Some (item\<lparr>wi_buffer := nullptr\<rparr>)"] f show ?thesis by simp
  qed
  have d: "divided (context_blocks fc) others (live w)" using assms(1) by (simp add: memory_inv_def)
  have "divided (context_blocks ?fc) others (live w')"
    unfolding b assms(4) by (rule divided_give [OF d]) (auto simp: f item_blocks_def)
  moreover have "ctx_inv ?fc"
    using assms(1-3) by (intro ctx_inv_update) (simp_all add: memory_inv_def)
  moreover have "item_ok live (item\<lparr>wi_buffer := nullptr\<rparr>)"
    using assms(1,2,3) by (fastforce simp: memory_inv_def item_ok_def)
  ultimately show ?thesis using assms(1) by (auto simp: memory_inv_def)
qed

text \<open>
  The release of an item frees its name; a buffer that was not freed before stays in use, outside the context.
\<close>

lemma wlp_release_memory:
  assumes inv: "memory_inv live sound others s" and item: "fc_items (fst s) a = Some item" "a \<notin> set (pending (fst s))"
    and post: "\<And>t. memory_inv live sound (others \<union> buffer_blocks item) t \<Longrightarrow>
      fc_processingThread (fst t) = fc_processingThread (fst s) \<Longrightarrow> Q () t"
  shows "wlp (releaseWorkItemInternal a) Q s"
proof -
  let ?B = "buffer_blocks item" and ?name = "wi_filename item"
  let ?f = "context_blocks (fst s)"
  have f: "?f a = insert ?name ?B" using item(1) by (simp add: context_blocks_def item_blocks_def)
  have a: "a \<noteq> nullptr" using inv item(1) items_inv_not_null by (auto simp: memory_inv_def ctx_inv_def)
  from inv have d: "divided ?f others (live (snd s))" and tr: "tracks (fc_alloc (fst s)) live"
    and ok: "item_ok live item"
    using item(1) by (auto simp: memory_inv_def)
  have name: "?name \<notin> ?B" using ok by (auto simp: buffer_blocks_def item_ok_def)
  let ?fc = "(fst s)\<lparr>fc_workItemPool := pl_free a (fc_workItemPool (fst s)), fc_items := (fc_items (fst s))(a := None)\<rparr>"
  have step: "memory_inv live sound (others \<union> ?B) (?fc, w)" if "live w = live (snd s) - {?name}" for w
  proof -
    have "divided (?f(a := ?f a - ?B)) (others \<union> ?B) (live (snd s))"
      by (rule divided_hand_over [OF d]) (auto simp: f)
    from divided_give [OF this, of "{?name}" a]
    have "divided (?f(a := ?f a - ?B - {?name})) (others \<union> ?B) (live w)" using f name that by simp
    moreover have "?f a - ?B - {?name} = {}" using f by auto
    moreover have "context_blocks ?fc = ?f(a := {})" using context_blocks_upd [of ?fc "fst s" a None] by simp
    moreover have "ctx_inv ?fc"
      using inv item by (intro ctx_inv_free) (simp_all add: memory_inv_def)
    ultimately show ?thesis using inv by (simp add: memory_inv_def)
  qed
  show ?thesis
    unfolding releaseWorkItemInternal_def workItemPool_free_def wp_simps
    using item(1) f divided_mem [OF d, of ?name a] a
    by (auto simp: wp_simps intro!: wlp_fc_deallocate_track [OF tr] post step)
qed

text \<open>Processing an item adds the buffer of a read to its blocks.\<close>

lemma memory_inv_processed:
  assumes inv: "memory_inv live sound others (fc, w)" and item: "fc_items fc a = Some item" "\<not> wi_completed item"
    and idle: "a \<notin> set (pending fc)" and same: "same_request item item'"
    and blocks: "if wi_operation item = LFS_OP_READ then new_block (live w) (wi_buffer item') (live w') else live w' = live w"
  shows "memory_inv live sound others (fc\<lparr>fc_items := (fc_items fc)(a \<mapsto> item'\<lparr>wi_completed := True\<rparr>)\<rparr>, w')"
proof -
  let ?it = "item'\<lparr>wi_completed := True\<rparr>"
  let ?fc = "fc\<lparr>fc_items := (fc_items fc)(a \<mapsto> ?it)\<rparr>"
  note fields = same_request_fields [OF same]
  have ok: "item_ok live item" and d: "divided (context_blocks fc) others (live w)"
    using inv item(1) by (auto simp: memory_inv_def)
  have f: "context_blocks fc a = {wi_filename item}"
    using item ok by (auto simp: context_blocks_def item_blocks_def buffer_blocks_def item_ok_def)
  have name: "wi_filename item \<in> live w" using divided_mem [OF d, of _ a] f by simp
  have b: "context_blocks ?fc = (context_blocks fc)(a := item_blocks ?it)"
    using context_blocks_upd [of ?fc fc a "Some ?it"] by simp
  have "divided (context_blocks ?fc) others (live w') \<and> item_ok live ?it"
  proof (cases "wi_operation item = LFS_OP_READ \<and> wi_buffer item' \<noteq> nullptr")
    case True
    with blocks have new: "wi_buffer item' \<notin> live w" "live w' = insert (wi_buffer item') (live w)"
      by (simp_all add: new_block_def)
    have "item_blocks ?it = insert (wi_buffer item') (context_blocks fc a)"
      unfolding f using True fields by (auto simp: item_blocks_def buffer_blocks_def)
    with divided_take [OF d new(1), of a] have "divided (context_blocks ?fc) others (live w')"
      by (simp add: b new(2))
    moreover have "item_ok live ?it"
      using ok True fields item(2) new(1) name by (auto simp: item_ok_def)
    ultimately show ?thesis by simp
  next
    case False
    then have "live w' = live w" using blocks by (auto simp: new_block_def split: if_splits)
    moreover have "item_blocks ?it = context_blocks fc a"
      unfolding f using False fields by (auto simp: item_blocks_def buffer_blocks_def)
    moreover have "item_ok live ?it" using ok False fields item(2) by (auto simp: item_ok_def)
    ultimately show ?thesis using d by (simp add: b)
  qed
  moreover have "ctx_inv ?fc"
    using inv item(1) idle by (intro ctx_inv_update_idle) (simp_all add: memory_inv_def)
  ultimately show ?thesis using inv by (auto simp: memory_inv_def)
qed

text \<open>The thread at work on the item at \<open>a\<close>.\<close>

definition working :: "('w \<Rightarrow> addr set) \<Rightarrow> ('d \<Rightarrow> bool) \<Rightarrow> addr set \<Rightarrow> addr \<Rightarrow> ('d, 'w) ctx \<Rightarrow> bool" where
  "working live sound others a s \<longleftrightarrow> memory_inv live sound others s
     \<and> fc_processingThread (fst s) = InItem \<and> a \<notin> set (pending (fst s))"

definition resting :: "('w \<Rightarrow> addr set) \<Rightarrow> ('d \<Rightarrow> bool) \<Rightarrow> addr set \<Rightarrow> ('d, 'w) ctx \<Rightarrow> bool" where
  "resting live sound others s \<longleftrightarrow> memory_inv live sound others s \<and> fc_processingThread (fst s) = InItem"

text \<open>The buffer that goes to the client with the callback: it is not to be freed after it.\<close>

definition passed_on :: "'w lfs_work_item_t \<Rightarrow> addr set" where
  "passed_on item =
     (if wi_callback item \<noteq> nullptr \<and> wi_callbackBufferAction item \<noteq> LFS_FREE_BUFFER then buffer_blocks item else {})"

text \<open>The thread done with an item, when the blocks in \<open>B\<close> have been passed on.\<close>

definition rests :: "('w \<Rightarrow> addr set) \<Rightarrow> ('d \<Rightarrow> bool) \<Rightarrow> addr set \<Rightarrow> addr set \<Rightarrow> ('d, 'w) ctx \<Rightarrow> bool" where
  "rests live sound others B s \<longleftrightarrow> resting live sound (others \<union> B) s \<and> B \<inter> others = {}"

lemma wlp_free_and_release:
  fixes s :: "('d, 'w) ctx"
  assumes s: "working live sound others a s" and item: "fc_items (fst s) a = Some item" "wi_completed item"
    and cb: "wi_callback item \<noteq> nullptr"
  shows "wlp (andThen
      (if wi_callbackBufferAction item = LFS_FREE_BUFFER then
         andThen (on_snd (WorkItemFreeBuffer (Some item))) (\<lambda>freed. update_item a (\<lambda>_. the freed))
       else ret ()) (\<lambda>_. releaseWorkItemInternal a)) (\<lambda>_ t. rests live sound others (passed_on item) t) s"
proof -
  have inv: "memory_inv live sound others s" and idle: "a \<notin> set (pending (fst s))" "fc_processingThread (fst s) = InItem"
    using s by (simp_all add: working_def)
  have ok: "item_ok live item" and d: "divided (context_blocks (fst s)) others (live (snd s))"
    using inv item(1) by (auto simp: memory_inv_def)
  have "context_blocks (fst s) a \<inter> others = {}" using d by (simp add: divided_def)
  then have outside: "buffer_blocks item \<inter> others = {}"
    using item(1) by (auto simp: context_blocks_def item_blocks_def)
  have release: "wlp (releaseWorkItemInternal a) (\<lambda>_ t. rests live sound others (passed_on item) t) u"
    if "memory_inv live sound others u" "fc_items (fst u) a = Some it" "a \<notin> set (pending (fst u))"
      "fc_processingThread (fst u) = InItem" "buffer_blocks it = passed_on item"
    for u :: "('d, 'w) ctx" and it
    using that(4,5) outside
    by (intro wlp_release_memory [OF that(1-3)]) (auto simp: resting_def rests_def passed_on_def split: if_splits)
  show ?thesis
  proof (cases "wi_callbackBufferAction item = LFS_FREE_BUFFER")
    case True
    have mem: "wi_buffer item \<in> live (snd s)" if "wi_operation item = LFS_OP_READ" "wi_buffer item \<noteq> nullptr"
      by (rule divided_mem [OF d, of _ a])
        (use that item(1) in \<open>simp add: context_blocks_def item_blocks_def buffer_blocks_def\<close>)
    have "wlp (WorkItemFreeBuffer (Some item)) (\<lambda>freed w'. wlp (update_item a (\<lambda>_. the freed))
        (\<lambda>_. wlp (releaseWorkItemInternal a) (\<lambda>_ t. rests live sound others (passed_on item) t)) (fst s, w')) (snd s)"
    proof (rule wlp_free_buffer [OF ok item(2) mem], assumption, assumption, goal_cases)
      case (1 w')
      from memory_inv_free_buffer [of live sound others "fst s" "snd s", OF _ item 1] inv
      have "memory_inv live sound others ((fst s)\<lparr>fc_items := (fc_items (fst s))(a \<mapsto> item\<lparr>wi_buffer := nullptr\<rparr>)\<rparr>, w')"
        by simp
      from release [OF this, of "item\<lparr>wi_buffer := nullptr\<rparr>"] idle True show ?case
        unfolding wlp_update_item by (simp add: passed_on_def buffer_blocks_def)
    qed
    with True show ?thesis by (simp add: wp_simps)
  next
    case False
    with release [OF inv item(1) idle] cb show ?thesis by (simp add: wp_simps passed_on_def)
  qed
qed

lemma wlp_run_callback_memory:
  assumes cbs: "orderly cbs live sound" and s: "working live sound others a s"
    and item: "fc_items (fst s) a = Some item" "wi_completed item"
  shows "wlp (run_callback cbs a) (\<lambda>_ t. rests live sound others (passed_on item) t) s"
proof (cases "wi_callback item = nullptr")
  case True
  with item s show ?thesis
    by (simp add: run_callback_def wp_simps working_def resting_def rests_def passed_on_def)
next
  case False
  have inv: "memory_inv live sound others s" and idle: "a \<notin> set (pending (fst s))" "fc_processingThread (fst s) = InItem"
    using s by (simp_all add: working_def)
  have "wlp (cbs (wi_callback item) item (wi_callbackUserData item)) (\<lambda>_. wlp (andThen (item_at a) (\<lambda>item'.
      andThen (if wi_callbackBufferAction item' = LFS_FREE_BUFFER then
         andThen (on_snd (WorkItemFreeBuffer (Some item'))) (\<lambda>freed. update_item a (\<lambda>_. the freed))
       else ret ()) (\<lambda>_. releaseWorkItemInternal a))) (\<lambda>_ t. rests live sound others (passed_on item) t)) s"
  proof (rule wlp_orderly [OF cbs inv], goal_cases)
    case (1 t)
    have own: "fc_items (fst t) a = Some item" "a \<notin> set (pending (fst t))"
      using 1(3) [OF item(1) False idle(1)] by simp_all
    then have "working live sound others a t" using 1(1,2) idle(2) by (simp add: working_def)
    from wlp_free_and_release [OF this own(1) item(2) False] own(1) show ?case
      unfolding wlp_andThen [of "item_at a"] wlp_item_at by simp
  qed
  with False item(1) show ?thesis
    by (simp add: run_callback_def wlp_andThen wlp_item_at)
qed

text \<open>What processing an item passes on, read off the item the callback is given.\<close>

definition passes :: "('d, 'w) mount_info list \<Rightarrow> 'w lfs_work_item_t \<Rightarrow> 'w \<Rightarrow> addr set" where
  "passes mounts item w =
     (case process_item mounts item w of Some (Inr (item', w')) \<Rightarrow> passed_on item' | _ \<Rightarrow> {})"

lemma wlp_process_work_item_memory:
  assumes cbs: "orderly cbs live sound" and s: "working live sound others a s"
    and item: "fc_items (fst s) a = Some it" "\<not> wi_completed it"
  shows "wlp (process_work_item cbs a) (\<lambda>_ t. rests live sound others (passes (fc_mounts (fst s)) it (snd s)) t) s"
proof -
  have inv: "memory_inv live sound others (fst s, snd s)" and idle: "a \<notin> set (pending (fst s))"
    using s by (simp_all add: working_def)
  have ms: "mounts_ok (fc_mounts (fst s))" "\<forall>m \<in> set (fc_mounts (fst s)). tidy_mount live sound m"
    and ok: "item_ok live it"
    using inv item(1) by (auto simp: memory_inv_def)
  have "wlp (process_item (fc_mounts (fst s)) it) (\<lambda>it' w'. same_request it it'
      \<and> (if wi_operation it = LFS_OP_READ then new_block (live (snd s)) (wi_buffer it') (live w')
         else live w' = live (snd s))
      \<and> passes (fc_mounts (fst s)) it (snd s) = passed_on (it'\<lparr>wi_completed := True\<rparr>)) (snd s)"
    using process_item_same_request [of "fc_mounts (fst s)" it "snd s"]
      process_read_leaves [OF ms, of it "snd s"] process_item_keeps [OF ms, of it] ok item(2)
    by (cases "wi_operation it = LFS_OP_READ")
      (auto simp: wlp_iff relates_def item_ok_def passes_def passed_on_def buffer_blocks_def)
  then have "wlp (process_item (fc_mounts (fst s)) it)
      (\<lambda>x w. wlp (update_item a (\<lambda>_. x\<lparr>wi_completed := True\<rparr>))
        (\<lambda>y. wlp (run_callback cbs a) (\<lambda>_ t. rests live sound others (passes (fc_mounts (fst s)) it (snd s)) t))
        (fst s, w)) (snd s)"
  proof (rule wlp_mono, goal_cases)
    case (1 it' w')
    let ?it = "it'\<lparr>wi_completed := True\<rparr>"
    let ?fc = "(fst s)\<lparr>fc_items := (fc_items (fst s))(a \<mapsto> ?it)\<rparr>"
    have "memory_inv live sound others (?fc, w')"
      using memory_inv_processed [OF inv item idle] 1 by blast
    with s have "working live sound others a (?fc, w')" by (simp add: working_def)
    from wlp_run_callback_memory [OF cbs this, of ?it] 1 show ?case unfolding wlp_update_item by simp
  qed
  then show ?thesis
    unfolding process_work_item_def wlp_andThen wlp_item_at wlp_fc_get wlp_on_snd using item(1) by simp
qed

lemma memory_inv_same:
  assumes "memory_inv live sound others (fc, w)" "ctx_inv fc'" "fc_items fc' = fc_items fc"
    "fc_mounts fc' = fc_mounts fc" "fc_alloc fc' = fc_alloc fc"
  shows "memory_inv live sound others (fc', w)"
  using assms context_blocks_same [OF assms(3)] by (simp add: memory_inv_def)

lemma resting_loop:
  assumes "rests live sound others B s"
  shows "memory_inv live sound (others \<union> B) ((fst s)\<lparr>fc_processingThread := AtLoop\<rparr>, snd s)"
proof -
  from assms have inv: "memory_inv live sound (others \<union> B) (fst s, snd s)" and t: "fc_processingThread (fst s) = InItem"
    by (simp_all add: rests_def resting_def)
  then have "ctx_inv (fst s)" by (simp add: memory_inv_def)
  with t show ?thesis
    by (intro memory_inv_same [OF inv]) (auto intro!: ctx_inv_thread ctx_inv_InItem)
qed

text \<open>The buffer that the next step of the thread passes on to a client: it processes the first item of the queue.\<close>

definition handed :: "('d, 'w) ctx \<Rightarrow> addr set" where
  "handed s =
     (if fc_processingThread (fst s) = AtLoop \<and> fc_processing (fst s) then
        (case pending (fst s) of [] \<Rightarrow> {}
         | a # rest \<Rightarrow> (case fc_items (fst s) a of None \<Rightarrow> {} | Some it \<Rightarrow> passes (fc_mounts (fst s)) it (snd s)))
      else {})"

lemma wlp_thread_loop_memory:
  assumes inv: "memory_inv live sound others s" and cbs: "orderly cbs live sound"
    and thread: "fc_processingThread (fst s) = AtLoop" "fc_processing (fst s)" and pop: "popped (fst s) a fc'"
  shows "wlp (if a \<noteq> nullptr then andThen (set_thread InItem) (\<lambda>_. andThen (process_work_item cbs a)
         (\<lambda>_. andThen (set_thread AtLoop) (\<lambda>_. ret Moved)))
       else andThen (set_thread InWait) (\<lambda>_. ret Moved))
     (\<lambda>_ t. memory_inv live sound (others \<union> handed s) t \<and> handed s \<inter> others = {}) (fc', snd s)"
proof -
  have ci: "ctx_inv (fst s)" using inv by (simp add: memory_inv_def)
  note p = popped_ctx_inv [OF ci pop thread(1)]
  have f: "fc_items fc' = fc_items (fst s)" "fc_mounts fc' = fc_mounts (fst s)" "fc_alloc fc' = fc_alloc (fst s)"
    using pop by (auto simp: popped_def split: list.splits)
  have same: "memory_inv live sound others (fc'\<lparr>fc_processingThread := t\<rparr>, snd s)"
    if "ctx_inv (fc'\<lparr>fc_processingThread := t\<rparr>)" for t
    using memory_inv_same [of live sound others "fst s" "snd s"] inv f that by simp
  show ?thesis
  proof (cases "a = nullptr")
    case True
    then have "handed s = {}"
      using pop items_inv_not_null [of "fst s"] ci
      by (auto simp: handed_def popped_def ctx_inv_def split: list.splits option.splits)
    with True show ?thesis
      using p thread f unfolding set_thread_def wp_simps by (auto intro!: same ctx_inv_thread)
  next
    case False
    then obtain rest where queue: "pending (fst s) = a # rest"
      using pop by (auto simp: popped_def split: list.splits)
    then obtain it where it: "fc_items (fst s) a = Some it" "\<not> wi_completed it"
      using ci by (fastforce simp: ctx_inv_def items_inv_def dom_def)
    have "handed s = passes (fc_mounts (fst s)) it (snd s)"
      using thread queue it by (simp add: handed_def)
    moreover have "wlp (process_work_item cbs a) (\<lambda>_ t. rests live sound others (passes (fc_mounts fc') it (snd s)) t)
        (fc'\<lparr>fc_processingThread := InItem\<rparr>, snd s)"
      using wlp_process_work_item_memory [OF cbs, of others a "(fc'\<lparr>fc_processingThread := InItem\<rparr>, snd s)" it]
        p thread f it False by (auto simp: working_def intro!: same ctx_inv_thread)
    ultimately show ?thesis
      using False f unfolding set_thread_def wp_simps
      by (auto elim!: wlp_mono intro: resting_loop simp: rests_def)
  qed
qed

lemma wlp_processing_step_memory:
  assumes inv: "memory_inv live sound others s" and cbs: "orderly cbs live sound"
  shows "wlp (processing_step cbs) (\<lambda>_ t. memory_inv live sound (others \<union> handed s) t \<and> handed s \<inter> others = {}) s"
proof (cases "fc_processingThread (fst s)")
  case AtLoop
  have ci: "ctx_inv (fst s)" using inv by (simp add: memory_inv_def)
  then have proc: "fc_processing (fst s)" using AtLoop by (simp add: ctx_inv_def thread_inv_def)
  have "wlp (on_queue (rb_pop nullptr)) (\<lambda>x. wlp
      (if x \<noteq> nullptr then andThen (set_thread InItem) (\<lambda>_. andThen (process_work_item cbs x)
         (\<lambda>_. andThen (set_thread AtLoop) (\<lambda>_. ret Moved)))
       else andThen (set_thread InWait) (\<lambda>_. ret Moved))
      (\<lambda>_ t. memory_inv live sound (others \<union> handed s) t \<and> handed s \<inter> others = {})) s"
    by (rule wp_wlp, rule wp_pop [OF ctx_inv_items [OF ci]])
      (rule wlp_thread_loop_memory [OF inv cbs AtLoop proc])
  then show ?thesis using AtLoop proc by (simp add: processing_step_def wlp_fc_get wlp_andThen)
next
  case InWait
  have keep: "memory_inv live sound others (fc', snd s)"
    if "ctx_inv fc'" "fc_items fc' = fc_items (fst s)" "fc_mounts fc' = fc_mounts (fst s)" "fc_alloc fc' = fc_alloc (fst s)"
    for fc' using memory_inv_same [of live sound others "fst s" "snd s"] inv that by simp
  have "ctx_inv (fst s)" using inv by (simp add: memory_inv_def)
  with InWait inv show ?thesis
    by (auto simp: handed_def processing_step_def wp_simps sem_wait_def ctx_inv_def thread_inv_def items_inv_def
        intro!: keep split: option.split)
qed (use inv in \<open>simp_all add: processing_step_def wp_simps handed_def\<close>)

end
