(* ===== verification/Request_Memory.thy ===== *)
theory Request_Memory
  imports Item_Memory
begin

text \<open>
  Requests from their submission to the release of their items, in any order and interleaving, with the blocks
  that clients hold: who owns the blocks in use, and that nothing is left when all items are released and the
  clients have freed what they were given.
\<close>

subsection \<open>The life of requests\<close>

text \<open>A client that releases an item without freeing the buffer of its read keeps the buffer.\<close>

definition kept :: "addr \<Rightarrow> ('d, 'w) ctx \<Rightarrow> addr set" where
  "kept a s = (case fc_items (fst s) a of
     None \<Rightarrow> {}
   | Some item \<Rightarrow> if wi_callback item = nullptr then buffer_blocks item else {})"

text \<open>
  What clients, the processing thread and the world around do, with the set \<open>K\<close> of the blocks that clients hold:
  submit requests, without and with a callback; process an item, whose callback may be given a buffer to keep;
  free the buffer of a completed item; release a completed item, with or without its buffer; free a block they
  hold, and allocate one. The world may change in any way that leaves the blocks as they are.
\<close>

inductive memory_step :: "('d, 'w) callbacks \<Rightarrow> ('w \<Rightarrow> addr set) \<Rightarrow> addr set \<Rightarrow> ('d, 'w) ctx
    \<Rightarrow> addr set \<Rightarrow> ('d, 'w) ctx \<Rightarrow> bool" for cbs live where
  Submit: "issue cbs req s = Some (Inr (a, t)) \<Longrightarrow> request_tracked live req \<Longrightarrow>
     sem_value (fc_workItemQueueSemaphore (fst s)) \<noteq> - 1 \<Longrightarrow> memory_step cbs live K s K t"
| Submit_callback: "issue_callback cbs req cb act ud s = Some (Inr ((), t)) \<Longrightarrow> request_tracked live req \<Longrightarrow>
     sem_value (fc_workItemQueueSemaphore (fst s)) \<noteq> - 1 \<Longrightarrow> memory_step cbs live K s K t"
| Work: "processing_step cbs s = Some (Inr (r, t)) \<Longrightarrow> memory_step cbs live K s (K \<union> handed s) t"
| Free_buffer: "fc_items fc a = Some item \<Longrightarrow> wi_completed item \<Longrightarrow>
     WorkItemFreeBuffer (Some item) w = Some (Inr (Some item', w')) \<Longrightarrow>
     memory_step cbs live K (fc, w) K (fc\<lparr>fc_items := (fc_items fc)(a \<mapsto> item')\<rparr>, w')"
| Release_item: "releaseWorkItem a s = Some (Inr ((), t)) \<Longrightarrow>
     (\<And>item. fc_items (fst s) a = Some item \<Longrightarrow> wi_completed item) \<Longrightarrow>
     memory_step cbs live K s (K \<union> kept a s) t"
| Free_block: "p \<in> K \<Longrightarrow> tracks al live \<Longrightarrow> call_free al p w = Some (Inr ((), w')) \<Longrightarrow>
     memory_step cbs live K (fc, w) (K - {p}) (fc, w')"
| Take_block: "tracks al live \<Longrightarrow> call_alloc al n k w = Some (Inr (p, w')) \<Longrightarrow> p \<noteq> nullptr \<Longrightarrow>
     memory_step cbs live K (fc, w) (insert p K) (fc, w')"
| Outside: "live w' = live w \<Longrightarrow> memory_step cbs live K (fc, w) K (fc, w')"

inductive memory_run :: "('d, 'w) callbacks \<Rightarrow> ('w \<Rightarrow> addr set) \<Rightarrow> addr set \<Rightarrow> ('d, 'w) ctx
    \<Rightarrow> addr set \<Rightarrow> ('d, 'w) ctx \<Rightarrow> bool" for cbs live K s where
  run_start: "memory_run cbs live K s K s"
| run_step: "memory_run cbs live K s L t \<Longrightarrow> memory_step cbs live L t M u \<Longrightarrow> memory_run cbs live K s M u"

text \<open>The blocks clients hold are not among those of others, and each block in use has one owner.\<close>

definition clients_inv :: "('w \<Rightarrow> addr set) \<Rightarrow> ('d \<Rightarrow> bool) \<Rightarrow> addr set \<Rightarrow> addr set \<Rightarrow> ('d, 'w) ctx \<Rightarrow> bool" where
  "clients_inv live sound others K s \<longleftrightarrow> memory_inv live sound (others \<union> K) s \<and> K \<inter> others = {}"

lemma clients_inv_issue:
  assumes "clients_inv live sound others K s" "orderly cbs live sound"
    and "request_tracked live req" "sem_value (fc_workItemQueueSemaphore (fst s)) \<noteq> - 1"
  shows "wlp (issue cbs req) (\<lambda>_ t. clients_inv live sound others K t) s"
    and "wlp (issue_callback cbs req cb act ud) (\<lambda>_ t. clients_inv live sound others K t) s"
proof -
  have inv: "memory_inv live sound (others \<union> K) s" and K: "K \<inter> others = {}"
    using assms(1) by (simp_all add: clients_inv_def)
  with assms(2,4) have rd: "ready cbs live sound (others \<union> K) s" by (simp add: ready_def)
  show "wlp (issue cbs req) (\<lambda>_ t. clients_inv live sound others K t) s"
    by (rule wlp_mono [OF wlp_issue_submits [OF rd assms(3)]])
      (simp add: clients_inv_def K memory_inv_submits [OF inv])
  show "wlp (issue_callback cbs req cb act ud) (\<lambda>_ t. clients_inv live sound others K t) s"
    by (rule wlp_mono [OF wlp_issue_callback_memory [OF rd assms(3)]]) (simp add: clients_inv_def K)
qed

lemma clients_inv_work:
  assumes "clients_inv live sound others K s" "orderly cbs live sound"
  shows "wlp (processing_step cbs) (\<lambda>_ t. clients_inv live sound others (K \<union> handed s) t) s"
  using assms
  by (intro wlp_mono [OF wlp_processing_step_memory [of live sound "others \<union> K"]])
    (auto simp: clients_inv_def Un_assoc)

lemma clients_inv_free_buffer:
  assumes "clients_inv live sound others K (fc, w)" "fc_items fc a = Some item" "wi_completed item"
  shows "wlp (WorkItemFreeBuffer (Some item)) (\<lambda>r v. \<forall>it. r = Some it \<longrightarrow>
      clients_inv live sound others K (fc\<lparr>fc_items := (fc_items fc)(a \<mapsto> it)\<rparr>, v)) w"
proof -
  have inv: "memory_inv live sound (others \<union> K) (fc, w)" and K: "K \<inter> others = {}"
    using assms(1) by (simp_all add: clients_inv_def)
  have ok: "item_ok live item" and d: "divided (context_blocks fc) (others \<union> K) (live w)"
    using inv assms(2) by (auto simp: memory_inv_def)
  have mem: "wi_buffer item \<in> live w" if "wi_operation item = LFS_OP_READ" "wi_buffer item \<noteq> nullptr"
    by (rule divided_mem [OF d, of _ a])
      (use that assms(2) in \<open>simp add: context_blocks_def item_blocks_def buffer_blocks_def\<close>)
  show ?thesis
    by (rule wlp_free_buffer [OF ok assms(3) mem], assumption, assumption)
      (auto simp: clients_inv_def K intro: memory_inv_free_buffer [OF inv assms(2,3)])
qed

lemma clients_inv_release:
  assumes "clients_inv live sound others K s" "\<And>item. fc_items (fst s) a = Some item \<Longrightarrow> wi_completed item"
  shows "wlp (releaseWorkItem a) (\<lambda>_ t. clients_inv live sound others (K \<union> kept a s) t) s"
proof (cases "fc_items (fst s) a")
  case None
  with assms(1) show ?thesis by (simp add: releaseWorkItem_def wp_simps kept_def)
next
  case (Some item)
  have inv: "memory_inv live sound (others \<union> K) s" and K: "K \<inter> others = {}"
    using assms(1) by (simp_all add: clients_inv_def)
  have "a \<notin> set (pending (fst s))"
    using assms(2) [OF Some] inv Some by (auto simp: memory_inv_def ctx_inv_def)
  note release = wlp_release_memory [OF inv Some this]
  have "context_blocks (fst s) a \<inter> (others \<union> K) = {}" using inv by (simp add: memory_inv_def divided_def)
  then have "buffer_blocks item \<inter> others = {}"
    using Some by (auto simp: context_blocks_def item_blocks_def)
  moreover have "a \<noteq> nullptr"
    using inv Some items_inv_not_null by (auto simp: memory_inv_def ctx_inv_def)
  ultimately show ?thesis
    using Some K assms(1)
    by (auto simp: releaseWorkItem_def wp_simps kept_def clients_inv_def Un_assoc intro!: release)
qed

lemma memory_step_inv:
  assumes "memory_step cbs live K s L t" "orderly cbs live sound" "clients_inv live sound others K s"
  shows "clients_inv live sound others L t"
  using assms(1)
proof cases
  case (Submit req a)
  with clients_inv_issue(1) [OF assms(3,2) Submit(3,4)] show ?thesis by (blast dest: wlpD)
next
  case (Submit_callback req cb act ud)
  with clients_inv_issue(2) [OF assms(3,2) Submit_callback(3,4)] show ?thesis by (blast dest: wlpD)
next
  case (Work r)
  with clients_inv_work [OF assms(3,2)] show ?thesis by (blast dest: wlpD)
next
  case (Free_buffer fc a item w item' w')
  with clients_inv_free_buffer [of live sound others K fc w a item] assms(3) show ?thesis by (blast dest: wlpD)
next
  case (Release_item a)
  with clients_inv_release [OF assms(3), of a] show ?thesis by (blast dest: wlpD)
next
  case (Free_block p al w w' fc)
  then have K: "p \<notin> others \<union> (K - {p})" "others \<union> K = insert p (others \<union> (K - {p}))"
    and inv: "memory_inv live sound (others \<union> K) (fc, w)" "K \<inter> others = {}"
    using assms(3) by (auto simp: clients_inv_def)
  have "p \<in> live w" using inv(1) Free_block(4) by (auto simp: memory_inv_def divided_def)
  from wlpD [OF wlp_track_free [OF Free_block(5) this, where Q = "\<lambda>_ w'. live w' = live w - {p}"] Free_block(6)]
  have "live w' = live w - {p}" by simp
  from memory_inv_world(2) [OF inv(1) [unfolded K(2)] K(1) this] inv(2) show ?thesis
    by (auto simp: clients_inv_def Free_block)
next
  case (Take_block al n k w p w' fc)
  have inv: "memory_inv live sound (others \<union> K) (fc, w)" "K \<inter> others = {}"
    using assms(3) Take_block by (simp_all add: clients_inv_def)
  have "wlp (call_alloc al n k) (\<lambda>p w'. p \<noteq> nullptr \<longrightarrow> p \<notin> live w \<and> live w' = insert p (live w)) w"
    by (rule wlp_track_alloc [OF Take_block(4)]) auto
  from wlpD [OF this Take_block(5)] Take_block(6) have p: "p \<notin> live w" "live w' = insert p (live w)" by simp_all
  moreover have "p \<notin> others" using inv(1) p(1) by (auto simp: memory_inv_def divided_def)
  ultimately show ?thesis
    using memory_inv_world(1) [OF inv(1) p] inv(2) by (simp add: clients_inv_def Take_block)
qed (use assms(3) in \<open>simp add: clients_inv_def memory_inv_def\<close>)

lemma memory_run_inv:
  "memory_run cbs live K s L t \<Longrightarrow> orderly cbs live sound \<Longrightarrow> clients_inv live sound others K s \<Longrightarrow>
     clients_inv live sound others L t"
  by (induction rule: memory_run.induct) (auto intro: memory_step_inv)

subsection \<open>A life to apply the property to\<close>

text \<open>
  A context with a mounted directory. A file is read with a callback that keeps the buffer and asks for the file
  to be deleted, which the mount does not permit; the item of that request is released and the buffer freed.
\<close>

definition life_mount :: "(memory_os directory_device, memory_os world) mount_info" where
  "life_mount = \<lparr>mi_self = 0xB000, mi_prefix = ''/'', mi_prefixPtr = 0xC000,
     mi_device = (mem_device ''/a'')\<lparr>dd_alloc := list_allocator\<rparr>, mi_interface = directory_interface mem_posix,
     mi_prefixLen = 1, mi_permissions = LFS_MOUNT_READ\<rparr>"

definition life_context :: "(memory_os directory_device, memory_os world) file_context" where
  "life_context = \<lparr>fc_self = 0xD000, fc_interfaces = [], fc_mounts = [life_mount],
     fc_workItemPool = pl_new 0x20000 104 2, fc_poolBitmask = 0xE000, fc_items = Map.empty,
     fc_workItemQueueSemaphore = sem_new 0, fc_workItemQueue = rb_new [0, 0] 2 True,
     fc_queueBuffer = 0xF000, fc_processingThread = AtLoop, fc_alloc = list_allocator,
     fc_log = nullptr, fc_processing = True\<rparr>"

definition life_item :: "memory_os world lfs_work_item_t" where
  "life_item = new_work_item\<lparr>wi_operation := LFS_OP_READ, wi_filename := 0x1000, wi_filenameText := ''/f'',
     wi_callback := 0x7000, wi_callbackBufferAction := LFS_DO_NOT_FREE_BUFFER,
     wi_context := 0xD000, wi_allocator := list_allocator, wi_bufferBytes := - 1\<rparr>"

definition life_next :: "memory_os world lfs_work_item_t" where
  "life_next = new_work_item\<lparr>wi_operation := LFS_OP_DELETE, wi_filename := 0x3000, wi_filenameText := ''/f'',
     wi_callbackBufferAction := LFS_DO_NOT_FREE_BUFFER, wi_context := 0xD000\<rparr>"

abbreviation life_callbacks :: "(memory_os directory_device, memory_os world) callbacks" where
  "life_callbacks \<equiv> submit_again (DeleteFile ''/f'')"

abbreviation life_world :: "(addr \<Rightarrow> u8 list option) \<Rightarrow> memory_os world" where
  "life_world heap \<equiv> (mem_world [(''/a/f'', [7])] [''/a''])\<lparr>w_heap := heap\<rparr>"

lemma life_pool: "pl_new 0x20000 104 2 = \<lparr>pl_storage = 0x20000, pl_objSize = 104, pl_bitmask = [3],
    pl_capacity = 2, pl_bitmaskCount = 1\<rparr>" "ffs 3 = 1" "ffs 2 = 2"
  by code_simp+

lemma life_path: "normalize ''/f'' = ''/f''"
  by code_simp

definition life_queued :: "(memory_os directory_device, memory_os world) file_context" where
  "life_queued = life_context\<lparr>fc_workItemPool := (pl_new 0x20000 104 2)\<lparr>pl_bitmask := [2]\<rparr>,
    fc_items := [0x20000 \<mapsto> life_item], fc_workItemQueueSemaphore := sem_notify (sem_new 0),
    fc_workItemQueue := (rb_new [0x20000, 0] 2 True)\<lparr>rb_writePos := 1\<rparr>\<rparr>"

lemma life_submit:
  "issue_callback life_callbacks (ReadFile ''/f'' False None) 0x7000 LFS_DO_NOT_FREE_BUFFER nullptr
      (life_context, life_world Map.empty)
    = Some (Inr ((), (life_queued, life_world [0x1000 \<mapsto> replicate 3 0])))"
  by (simp add: submission_defs allocWorkItemCommon_def workItemPool_alloc_def fc_get_def fc_set_def pl_alloc_def
      item_at_def initWorkItem_def fc_allocate_def on_snd_def update_item_def push_work_item_def on_queue_def
      rb_push.simps rb_push_locked_def new_work_item_def item_allocator_def life_context_def life_queued_def
      life_item_def life_pool life_path rb_new_def list_allocator_calls free_addresses_def block_addresses_def
      prog_simps andThen_def Let_def mem_world_def)

lemma life_read:
  "\<exists>os. DirectoryDevice_readFile mem_posix ((mem_device ''/a'')\<lparr>dd_alloc := list_allocator\<rparr>) ''/f'' 0 (- 1)
      list_allocator nullptr False LFS_NOT_FOUND (life_world [0x1000 \<mapsto> name])
    = Some (Inr ((1, 0x2000, LFS_OK), (life_world [0x1000 \<mapsto> name, 0x2000 \<mapsto> [7]])\<lparr>w_os := os\<rparr>))"
  by (simp add: DirectoryDevice_readFile_def openFile_def getDevicePath_def Let_def prog_simps list_allocator_calls
      free_addresses_def block_addresses_def open_loop_def retry.simps syscall_def freeDevicePath_def
      read_open_file_def read_call_def store_bytes_def off_result_def mem_simps andThen_def)

lemma life_process:
  "\<exists>os. process_item [life_mount] life_item (life_world [0x1000 \<mapsto> name])
    = Some (Inr (life_item\<lparr>wi_bufferBytes := 1, wi_buffer := 0x2000, wi_resultCode := LFS_OK\<rparr>,
        (life_world [0x1000 \<mapsto> name, 0x2000 \<mapsto> [7]])\<lparr>w_os := os\<rparr>))"
proof -
  have ok: "mounts_ok [life_mount]" by (simp add: life_mount_def mounts_ok_def mount_ok_def)
  have vis: "visible_mounts ''/f'' [life_mount] = [life_mount]"
    by (simp add: visible_mounts_def readable_def life_mount_def mount_matches_def mount_permission_values)
  obtain os where "DirectoryDevice_readFile mem_posix (mi_device life_mount) ''/f'' 0 (- 1)
      list_allocator nullptr False LFS_NOT_FOUND (life_world [0x1000 \<mapsto> name])
    = Some (Inr ((1, 0x2000, LFS_OK), (life_world [0x1000 \<mapsto> name, 0x2000 \<mapsto> [7]])\<lparr>w_os := os\<rparr>))"
    using life_read [of name] by (auto simp: life_mount_def)
  moreover have "mount_devicePath ''/f'' life_mount = ''/f''" "mi_interface life_mount = directory_interface mem_posix"
    by (simp_all add: life_mount_def mount_devicePath_def)
  ultimately show ?thesis
    by (intro exI [of _ os])
      (simp add: process_item_def process_read_def loops_ask(3) [OF ok] life_item_def new_work_item_def vis
        directory_interface_def prog_simps)
qed

text \<open>The call of the callback, and the steps of the life.\<close>

definition life_done :: "memory_os world lfs_work_item_t" where
  "life_done = life_item\<lparr>wi_bufferBytes := 1, wi_buffer := 0x2000, wi_resultCode := LFS_OK, wi_completed := True\<rparr>"

abbreviation life_called :: "(memory_os directory_device, memory_os world) file_context" where
  "life_called \<equiv> life_queued\<lparr>fc_processingThread := InItem,
     fc_workItemPool := (pl_new 0x20000 104 2)\<lparr>pl_bitmask := [0]\<rparr>,
     fc_items := [0x20000 \<mapsto> life_done, 0x20068 \<mapsto> life_next],
     fc_workItemQueueSemaphore := sem_notify (sem_notify (sem_new 0)),
     fc_workItemQueue := (rb_new [0x20000, 0x20068] 2 True)\<lparr>rb_readPos := 1\<rparr>\<rparr>"

lemma life_callback:
  "life_callbacks f it u (life_queued\<lparr>fc_processingThread := InItem,
      fc_workItemQueue := (fc_workItemQueue life_queued)\<lparr>rb_readPos := 1\<rparr>,
      fc_items := [0x20000 \<mapsto> life_done]\<rparr>, (life_world [0x1000 \<mapsto> name, 0x2000 \<mapsto> [7]])\<lparr>w_os := os\<rparr>)
    = Some (Inr ((), (life_called,
        (life_world [0x1000 \<mapsto> name, 0x2000 \<mapsto> [7], 0x3000 \<mapsto> replicate 3 0])\<lparr>w_os := os\<rparr>)))"
  by (simp add: submit_again_def submission_defs allocWorkItemCommon_def workItemPool_alloc_def fc_get_def fc_set_def pl_alloc_def
      item_at_def initWorkItem_def fc_allocate_def on_snd_def update_item_def push_work_item_def on_queue_def
      rb_push.simps rb_push_locked_def new_work_item_def life_context_def life_queued_def sem_notify_def sem_new_def
      life_next_def life_pool life_path rb_new_def list_allocator_calls free_addresses_def block_addresses_def
      prog_simps andThen_def Let_def)

abbreviation life_kept :: "pool \<Rightarrow> (memory_os directory_device, memory_os world) file_context" where
  "life_kept pool \<equiv> life_called\<lparr>fc_processingThread := AtLoop, fc_workItemPool := pool, fc_items := [0x20068 \<mapsto> life_next]\<rparr>"

lemma life_done_fields:
  "wi_callback life_done = 0x7000" "wi_callbackBufferAction life_done = LFS_DO_NOT_FREE_BUFFER" "wi_filename life_done = 0x1000"
  by (simp_all add: life_done_def life_item_def)

lemma life_work:
  "\<exists>os pool. processing_step life_callbacks (life_queued, life_world [0x1000 \<mapsto> replicate 3 0])
      = Some (Inr (Moved, (life_kept pool, (life_world [0x2000 \<mapsto> [7], 0x3000 \<mapsto> replicate 3 0])\<lparr>w_os := os\<rparr>)))
    \<and> handed (life_queued, life_world [0x1000 \<mapsto> replicate 3 0]) = {0x2000}"
proof -
  obtain os where p: "process_item [life_mount] life_item (life_world [0x1000 \<mapsto> replicate 3 0])
    = Some (Inr (life_item\<lparr>wi_bufferBytes := 1, wi_buffer := 0x2000, wi_resultCode := LFS_OK\<rparr>,
        (life_world [0x1000 \<mapsto> replicate 3 0, 0x2000 \<mapsto> [7]])\<lparr>w_os := os\<rparr>))"
    using life_process by blast
  have "pending life_queued = [0x20000]"
    by (simp add: life_queued_def rb_new_def rb_contents_def rb_count_def ring_index_def)
  then have "handed (life_queued, life_world [0x1000 \<mapsto> replicate 3 0]) = {0x2000}"
    by (simp add: handed_def passes_def p life_queued_def life_context_def)
      (simp add: passed_on_def buffer_blocks_def life_item_def new_work_item_def)
  moreover have "\<exists>pool. processing_step life_callbacks (life_queued, life_world [0x1000 \<mapsto> replicate 3 0])
      = Some (Inr (Moved, (life_kept pool, (life_world [0x2000 \<mapsto> [7], 0x3000 \<mapsto> replicate 3 0])\<lparr>w_os := os\<rparr>)))"
  proof -
    note step = processing_step_def fc_get_def fc_set_def set_thread_def on_queue_def rb_pop_def process_work_item_def
        item_at_def update_item_def run_callback_def on_snd_def life_queued_def life_context_def rb_new_def prog_simps
        andThen_def
    show ?thesis
      using life_callback [where name = "replicate 3 0" and os = os and it = life_done]
      by (simp add: step p life_done_fields releaseWorkItemInternal_def workItemPool_free_def fc_deallocate_def
          list_allocator_calls flip: life_done_def)
  qed
  ultimately show ?thesis by blast
qed

text \<open>The request to delete the file is answered and its item released.\<close>

abbreviation life_answered :: "pool \<Rightarrow> (memory_os directory_device, memory_os world) file_context" where
  "life_answered pool \<equiv> (life_kept pool)\<lparr>fc_workItemQueue := rb_new [0x20000, 0x20068] 2 True,
     fc_items := [0x20068 \<mapsto> life_next\<lparr>wi_resultCode := LFS_UNSUPPORTED, wi_completed := True\<rparr>]\<rparr>"

lemma life_answer:
  "processing_step life_callbacks (life_kept pool, w) = Some (Inr (Moved, (life_answered pool, w)))"
  "handed (life_kept pool, w) = {}"
proof -
  have p: "process_item [life_mount] life_next w = Some (Inr (life_next\<lparr>wi_resultCode := LFS_UNSUPPORTED\<rparr>, w))" for w
    by (simp add: process_item_def process_simple_def findMutableMountAndPath_def life_next_def life_mount_def
        mount_denies_def mount_permission_values prog_simps)
  show "processing_step life_callbacks (life_kept pool, w) = Some (Inr (Moved, (life_answered pool, w)))"
    by (simp add: processing_step_def fc_get_def fc_set_def set_thread_def on_queue_def rb_pop_def process_work_item_def
        item_at_def update_item_def run_callback_def on_snd_def life_queued_def life_context_def rb_new_def prog_simps
        andThen_def p) (simp add: life_next_def new_work_item_def)
  have "pending (life_kept pool) = [0x20068]"
    by (simp add: rb_new_def rb_contents_def rb_count_def ring_index_def)
  then show "handed (life_kept pool, w) = {}"
    by (simp add: handed_def passes_def p life_queued_def life_context_def)
      (simp add: passed_on_def life_next_def new_work_item_def)
qed

lemma life_released:
  "\<exists>pool'. releaseWorkItem 0x20068 (life_answered pool, (life_world [0x2000 \<mapsto> [7], 0x3000 \<mapsto> name])\<lparr>w_os := os\<rparr>)
    = Some (Inr ((), ((life_answered pool)\<lparr>fc_workItemPool := pool', fc_items := Map.empty\<rparr>,
        (life_world [0x2000 \<mapsto> [7]])\<lparr>w_os := os\<rparr>)))"
  by (simp add: releaseWorkItem_def releaseWorkItemInternal_def workItemPool_free_def item_at_def fc_get_def fc_set_def
      fc_deallocate_def on_snd_def life_queued_def life_context_def life_next_def new_work_item_def
      list_allocator_calls prog_simps andThen_def)

lemma life_run:
  "\<exists>t u. memory_run life_callbacks used_blocks {} (life_context, life_world Map.empty) {0x2000} t
    \<and> fc_items (fst t) = Map.empty
    \<and> memory_run life_callbacks used_blocks {} (life_context, life_world Map.empty) {} u
    \<and> fc_items (fst u) = Map.empty"
proof -
  let ?run = "memory_run life_callbacks used_blocks {} (life_context, life_world Map.empty)"
  obtain os pool where work: "processing_step life_callbacks (life_queued, life_world [0x1000 \<mapsto> replicate 3 0])
      = Some (Inr (Moved, (life_kept pool, (life_world [0x2000 \<mapsto> [7], 0x3000 \<mapsto> replicate 3 0])\<lparr>w_os := os\<rparr>)))"
    and handed: "handed (life_queued, life_world [0x1000 \<mapsto> replicate 3 0]) = {0x2000}" using life_work by blast
  let ?w = "\<lambda>h. (life_world h)\<lparr>w_os := os\<rparr>"
  obtain pool' where release: "releaseWorkItem 0x20068 (life_answered pool, ?w [0x2000 \<mapsto> [7], 0x3000 \<mapsto> replicate 3 0])
    = Some (Inr ((), ((life_answered pool)\<lparr>fc_workItemPool := pool', fc_items := Map.empty\<rparr>, ?w [0x2000 \<mapsto> [7]])))"
    using life_released by blast
  let ?fc = "(life_answered pool)\<lparr>fc_workItemPool := pool', fc_items := Map.empty\<rparr>"
  have "?run {} (life_queued, life_world [0x1000 \<mapsto> replicate 3 0])"
    by (rule run_step [OF run_start], rule Submit_callback [OF life_submit]) (simp_all add: life_context_def sem_new_def)
  from run_step [OF this Work [OF work]] handed
  have "?run {0x2000} (life_kept pool, ?w [0x2000 \<mapsto> [7], 0x3000 \<mapsto> replicate 3 0])" by simp
  from run_step [OF this Work [OF life_answer(1)]] life_answer(2)
  have "?run {0x2000} (life_answered pool, ?w [0x2000 \<mapsto> [7], 0x3000 \<mapsto> replicate 3 0])" by simp
  from run_step [OF this Release_item [OF release]]
  have kept: "?run {0x2000} (?fc, ?w [0x2000 \<mapsto> [7]])"
    by (simp add: kept_def buffer_blocks_def life_next_def new_work_item_def)
  have "call_free list_allocator 0x2000 (?w [0x2000 \<mapsto> [7]]) = Some (Inr ((), ?w Map.empty))"
    by (simp add: list_allocator_calls)
  from run_step [OF kept Free_block [OF _ list_allocator_tracks this]] have "?run {} (?fc, ?w Map.empty)" by simp
  with kept show ?thesis by (intro exI conjI) auto
qed

lemma life_hypotheses:
  "ctx_inv life_context" "mounts_ok (fc_mounts life_context)"
  "\<forall>m \<in> set (fc_mounts life_context). tidy_mount used_blocks (\<lambda>d. tracks (dd_alloc d) used_blocks) m"
  "orderly no_callbacks live sound"
proof -
  have p: "pl_inv (pl_new 0x20000 104 2)"
    "pl_free_slots (pl_new 0x20000 104 2) = pl_slots (pl_new 0x20000 104 2)"
    using pl_new_inv [of "0x20000" 104 2] by simp_all
  then show "ctx_inv life_context"
    by (simp add: ctx_inv_def items_inv_def thread_inv_def life_context_def wp.used_def rb_new_inv)
  show "mounts_ok (fc_mounts life_context)"
    by (simp add: life_context_def life_mount_def mounts_ok_def mount_ok_def)
  show "\<forall>m \<in> set (fc_mounts life_context). tidy_mount used_blocks (\<lambda>d. tracks (dd_alloc d) used_blocks) m"
    by (simp add: life_context_def life_mount_def tidy_mount_def directory_memory.tidy_device_axioms
        list_allocator_tracks)
  show "orderly no_callbacks live sound" by (rule quiet_orderly) (simp add: no_callbacks_def wlp_ret)
qed

subsection \<open>Properties\<close>

text \<open>
  C7: the memory of requests. From a context without work items, in any order of submissions, processing,
  callbacks and releases, every block in use is either one of the blocks there were before, or a block of exactly
  one work item, its name or the buffer of a read, or one that clients hold (\<open>K\<close>): a buffer that a callback was
  given to keep or that was left at the release of its item, or a block they allocated. No two owners share a
  block. When all items are released, exactly the blocks of the start and those that clients hold are in use, so
  nothing is leaked by the code and nothing freed twice; and when the clients have freed theirs, exactly the
  blocks of the start. (The allocators may run out of memory, the devices may fail. Clients release and free
  completed items only, read with no allocator of their own or with one that gives new blocks, and submit no
  request while the semaphore's counter is at its maximum. Callbacks may use the context, for instance to submit
  further requests, but they leave the mounts, the thread and the items with a callback, their own among them, as
  they are, and keep each block with one owner; so they free what they were given only after they have returned.)
\<close>

theorem requests_give_back_their_memory:
  assumes "memory_run cbs live {} (fc, w) K t" "orderly cbs live sound"
    and "ctx_inv fc" "fc_items fc = Map.empty" "tracks (fc_alloc fc) live"
    and "mounts_ok (fc_mounts fc)" "\<forall>m \<in> set (fc_mounts fc). tidy_mount live sound m"
  shows "live (snd t) = live w \<union> K \<union> (\<Union>a. context_blocks (fst t) a)
    \<and> K \<inter> live w = {} \<and> (\<forall>a. context_blocks (fst t) a \<inter> (live w \<union> K) = {})
    \<and> disjoint_family (context_blocks (fst t))
    \<and> (fc_items (fst t) = Map.empty \<longrightarrow> live (snd t) = live w \<union> K)"
proof -
  have "context_blocks fc = (\<lambda>a. {})" using assms(4) by (auto simp: context_blocks_def)
  then have "clients_inv live sound (live w) {} (fc, w)"
    using assms(3-7) by (simp add: clients_inv_def memory_inv_def divided_def disjoint_family_on_def)
  with memory_run_inv [OF assms(1,2)] have "clients_inv live sound (live w) K t" by blast
  then show ?thesis by (auto simp: clients_inv_def memory_inv_def divided_def context_blocks_def)
qed

text \<open>The callback keeps the buffer and asks for another request; the client frees the buffer in the end.\<close>

lemma requests_give_back_their_memory_witness:
  "\<exists>t u. memory_run life_callbacks used_blocks {} (life_context, life_world Map.empty) {0x2000} t
    \<and> used_blocks (snd t) = {0x2000}
    \<and> memory_run life_callbacks used_blocks {} (life_context, life_world Map.empty) {} u
    \<and> w_heap (snd u) = Map.empty"
proof -
  obtain t u where t: "memory_run life_callbacks used_blocks {} (life_context, life_world Map.empty) {0x2000} t"
      "fc_items (fst t) = Map.empty"
    and u: "memory_run life_callbacks used_blocks {} (life_context, life_world Map.empty) {} u"
      "fc_items (fst u) = Map.empty" using life_run by blast
  have "fc_items life_context = Map.empty" "tracks (fc_alloc life_context) used_blocks"
    by (simp_all add: life_context_def list_allocator_tracks)
  note memory = requests_give_back_their_memory [OF _ submit_again_orderly life_hypotheses(1) this life_hypotheses(2,3)]
  from memory [OF t(1)] t(2) have "used_blocks (snd t) = {0x2000}"
    by (simp add: used_blocks_def context_blocks_def)
  moreover from memory [OF u(1)] u(2) have "w_heap (snd u) = Map.empty" by (simp add: used_blocks_def)
  ultimately show ?thesis using t(1) u(1) by blast
qed

end
