(* ===== verification/Whole_Life.thy ===== *)
theory Whole_Life
  imports Mount_Sequences Request_Memory
begin

text \<open>
  The whole life of a context: it is created, then requests are submitted, processed and released and
  directories are mounted and released, in any order and interleaving, and it is destroyed.
\<close>

subsection \<open>What requests leave alone\<close>

lemma memory_step_fixtures:
  assumes "memory_step cbs live K s L t" "framed_callbacks cbs"
  shows "fixtures (fst t) = fixtures (fst s)"
  using assms(1)
  by cases (auto simp: fixtures_def dest: framedD [OF framed_issue(1) [OF assms(2)]]
      framedD [OF framed_issue(2) [OF assms(2)]] framedD [OF framed_processing_step [OF assms(2)]]
      framedD [OF framed_release(2)])

subsection \<open>What the creation makes\<close>

text \<open>The block of the pool lies inside the address space.\<close>

definition pool_fits :: "'w lfs_allocator_t \<Rightarrow> u64 \<Rightarrow> bool" where
  "pool_fits alloc poolSize \<longleftrightarrow>
     (\<forall>w. wlp (call_alloc alloc (104 * poolSize) 8) (\<lambda>p w'. unat p + unat poolSize * 104 < 2 ^ 64) w)"

lemma wlp_account_alloc:
  assumes "accounts a live room" "0 < room w"
    and "\<And>p w'. p \<noteq> nullptr \<Longrightarrow> room w \<le> Suc (room w') \<Longrightarrow> Q p w'"
  shows "wlp (call_alloc a n k) Q w"
  by (rule wp_wlp, rule wp_account_alloc [OF assms(1,2)]) (rule assms(3))

lemma wlp_pool_alloc:
  assumes "accounts a live room" "0 < room w" "pool_fits a poolSize"
    and "\<And>p w'. p \<noteq> nullptr \<Longrightarrow> unat p + unat poolSize * 104 < 2 ^ 64 \<Longrightarrow> room w \<le> Suc (room w') \<Longrightarrow> Q p w'"
  shows "wlp (call_alloc a (104 * poolSize) 8) Q w"
proof -
  have "wlp (call_alloc a (104 * poolSize) 8) (\<lambda>p w'. p \<noteq> nullptr \<and> room w \<le> Suc (room w')) w"
    by (rule wlp_account_alloc [OF assms(1,2)]) blast
  with assms(3,4) show ?thesis unfolding pool_fits_def wlp_iff by blast
qed

lemma new_context_inv:
  assumes "storage \<noteq> nullptr" "unat storage + unat poolSize * 104 < 2 ^ 64" "0 < queueSize"
    "unat queueSize < 2 ^ 61"
    and "fc_workItemPool fc = pl_new storage 104 poolSize" "fc_items fc = Map.empty"
    and "fc_workItemQueue fc = rb_new (replicate (unat (8 * queueSize) div 8) nullptr) queueSize True"
    and "fc_processing fc" "fc_processingThread fc = AtLoop"
  shows "ctx_inv fc"
proof -
  have "unat poolSize * 104 < 2 ^ 64" using assms(2) by simp
  then have "pl_inv (pl_new storage 104 poolSize)
    \<and> pl_free_slots (pl_new storage 104 poolSize) = pl_slots (pl_new storage 104 poolSize)"
    using pl_new_inv [of storage 104 poolSize] assms(1,2) by simp
  with assms show ?thesis
    by (simp add: ctx_inv_def items_inv_def thread_inv_def wp.used_def rb_new_inv queue_entries)
qed

lemma wlp_create_inv:
  assumes acc: "accounts alloc live room" and room: "5 \<le> room (snd s)" and dir: "required_pointers dir"
    and fits: "pool_fits alloc poolSize" "0 < queueSize" "unat queueSize < 2 ^ 61"
  shows "wlp (lfs_context_create_capacity contextSize dir alloc queueSize poolSize)
    (\<lambda>_ t. ctx_inv (fst t) \<and> fc_items (fst t) = Map.empty \<and> fc_mounts (fst t) = []) s"
  unfolding lfs_context_create_capacity_def FileContext_init_def Let_def wlp_andThen wlp_on_snd
proof (rule wlp_account_alloc [OF acc], goal_cases)
  case 1
  then show ?case using room by simp
next
  case (2 mem w1)
  note mem = 2
  show ?case
    unfolding if_not_P [OF mem(1)] wlp_andThen wlp_on_snd snd_conv fst_conv
  proof (rule wlp_pool_alloc [OF acc _ fits(1)], goal_cases)
    case 1
    then show ?case using room mem by simp
  next
    case (2 storage w2)
    note storage = 2
    show ?case
      unfolding wlp_andThen wlp_on_snd snd_conv fst_conv
    proof (rule wlp_account_alloc [OF acc], goal_cases)
      case 1
      then show ?case using room mem storage by simp
    next
      case (2 bitmask w3)
      note bitmask = 2
      then have ok: "\<not> (bitmask = nullptr \<and> pl_bitmaskCount (pl_new storage 104 poolSize) \<noteq> 0)" by simp
      show ?case
        unfolding if_not_P [OF ok] wlp_andThen wlp_on_snd wlp_fc_set snd_conv fst_conv
      proof (rule wlp_account_alloc [OF acc], goal_cases)
        case 1
        then show ?case using room mem storage bitmask by simp
      next
        case (2 buffer w4)
        then show ?case
          using dir storage fits(2,3)
          by (auto simp: registerDeviceInterface_def startProcessingThread_def wp_simps
              intro!: wlp_fc_allocate new_context_inv)
      qed
    qed
  qed
qed

subsection \<open>What holds between two calls\<close>

text \<open>
  A context with directories: its mounts are made by it, and each block in use belongs to the context, to one
  of its mounts, to one of its work items or to someone outside.
\<close>

definition settled :: "'os posix \<Rightarrow> 'os world lfs_allocator_t \<Rightarrow> ('os directory_device, 'os world) file_context \<Rightarrow> bool" where
  "settled px alloc fc \<longleftrightarrow>
     fc_alloc fc = alloc \<and> map snd (fc_interfaces fc) = [directory_interface px]
     \<and> (\<forall>m \<in> set (fc_mounts fc). mount_ok m \<and> mi_interface m = directory_interface px \<and> dd_alloc (mi_device m) = alloc)"

abbreviation accounted :: "((addr \<Rightarrow> u8 list option) \<Rightarrow> nat) \<Rightarrow> 'os directory_device \<Rightarrow> bool" where
  "accounted room d \<equiv> accounts (dd_alloc d) used_blocks (heap_room room)"

abbreviation tracked :: "'os directory_device \<Rightarrow> bool" where
  "tracked d \<equiv> tracks (dd_alloc d) used_blocks"

abbreviation holds_blocks :: "((addr \<Rightarrow> u8 list option) \<Rightarrow> nat) \<Rightarrow> addr set
    \<Rightarrow> ('os directory_device, 'os world) ctx \<Rightarrow> bool" where
  "holds_blocks room \<equiv> holds device_blocks (accounted room) used_blocks (heap_room room)"

definition alive :: "'os posix \<Rightarrow> 'os world lfs_allocator_t \<Rightarrow> ((addr \<Rightarrow> u8 list option) \<Rightarrow> nat) \<Rightarrow> addr set
    \<Rightarrow> ('os directory_device, 'os world) ctx \<Rightarrow> bool" where
  "alive px alloc room others s \<longleftrightarrow>
     settled px alloc (fst s) \<and> ctx_inv (fst s) \<and> tracks alloc used_blocks
     \<and> (\<forall>a item. fc_items (fst s) a = Some item \<longrightarrow> item_ok used_blocks item)
     \<and> disjoint_family (context_blocks (fst s)) \<and> (\<forall>a. context_blocks (fst s) a \<inter> others = {})
     \<and> holds_blocks room (others \<union> (\<Union>a. context_blocks (fst s) a)) s"

text \<open>Seen from the requests, the blocks of the context and its mounts are outside.\<close>

lemma holds_distinct_mounts:
  assumes "holds owned sound live room others s"
  shows "distinct (map mi_self (fc_mounts (fst s)))"
proof -
  have "distinct (map mi_self ms)" if "distinct (concat (map (mount_blocks owned) ms))"
    for ms :: "('a, 'b) mount_info list"
    using that by (induction ms) auto
  moreover have "distinct (concat (map (mount_blocks owned) (fc_mounts (fst s))))"
    using assms unfolding holds_def Let_def owned_blocks_def distinct_append by blast
  ultimately show ?thesis by blast
qed

lemma alive_memory_inv:
  assumes "alive px alloc room others s"
  shows "memory_inv used_blocks tracked (set (owned_blocks device_blocks (fst s)) \<union> others) s"
proof -
  have "tidy_mount used_blocks tracked m" if "m \<in> set (fc_mounts (fst s))" for m
    using assms that by (simp add: alive_def settled_def tidy_mount_def directory_memory.tidy_device_axioms)
  moreover have "mounts_ok (fc_mounts (fst s))"
    unfolding mounts_ok_def using assms holds_distinct_mounts
    unfolding alive_def settled_def by blast
  moreover have "divided (context_blocks (fst s)) (set (owned_blocks device_blocks (fst s)) \<union> others) (used_blocks (snd s))"
    using assms by (auto simp: alive_def divided_def holds_def Let_def)
  ultimately show ?thesis using assms by (simp add: memory_inv_def alive_def settled_def)
qed

text \<open>Alive, with the set \<open>K\<close> of the blocks that clients hold.\<close>

definition alive_with :: "'os posix \<Rightarrow> 'os world lfs_allocator_t \<Rightarrow> ((addr \<Rightarrow> u8 list option) \<Rightarrow> nat) \<Rightarrow> addr set
    \<Rightarrow> addr set \<Rightarrow> ('os directory_device, 'os world) ctx \<Rightarrow> bool" where
  "alive_with px alloc room others K s \<longleftrightarrow> alive px alloc room (others \<union> K) s \<and> K \<inter> others = {}"

lemma alive_memory_step:
  assumes "alive_with px alloc room others K s" "memory_step cbs used_blocks K s L t" "orderly cbs used_blocks tracked"
  shows "alive_with px alloc room others L t"
proof -
  let ?own = "\<lambda>s. set (owned_blocks device_blocks (fst s))"
  have a: "alive px alloc room (others \<union> K) s" and K: "K \<inter> others = {}"
    using assms(1) by (simp_all add: alive_with_def)
  have same: "fixtures (fst t) = fixtures (fst s)"
    using assms(2,3) by (intro memory_step_fixtures) (auto simp: orderly_def)
  then have own: "owned_blocks device_blocks (fst t) = owned_blocks device_blocks (fst s)"
    by (simp add: fixtures_def owned_blocks_def)
  have h: "?own s \<inter> (others \<union> K) = {}" using a by (auto simp: alive_def holds_def Let_def)
  have "clients_inv used_blocks tracked (?own s \<union> others) K s"
    using alive_memory_inv [OF a] K h by (auto simp: clients_inv_def Un_assoc)
  from memory_step_inv [OF assms(2,3) this]
  have inv: "memory_inv used_blocks tracked (?own t \<union> (others \<union> L)) t" and L: "L \<inter> (?own s \<union> others) = {}"
    by (simp_all add: clients_inv_def own Un_assoc)
  have "holds_blocks room (others \<union> L \<union> (\<Union>a. context_blocks (fst t) a)) t"
    using a inv same own L
    by (auto simp: alive_def memory_inv_def divided_def holds_def Let_def fixtures_def)
  with a inv same L show ?thesis
    by (auto simp: alive_with_def alive_def memory_inv_def divided_def fixtures_def settled_def)
qed

text \<open>Making and releasing a mount.\<close>

lemma directory_create_alloc:
  "wlp (call_ptr (di_create (directory_interface px)) (\<lambda>create. create alloc path))
     (\<lambda>(code, device) w'. \<forall>d. device = Some d \<longrightarrow> dd_alloc d = alloc) w"
proof -
  have new: "wlp (DirectoryDevice_new self alloc path) (\<lambda>d w'. dd_alloc d = alloc) v" for self v
    unfolding DirectoryDevice_new_def Let_def wlp_andThen by (rule wlp_any) (simp add: wp_simps)
  then show ?thesis
    unfolding directory_interface_def call_ptr_def DirectoryDevice_create_def
    by (auto simp: wlp_andThen wlp_ret wlp_fail wlp_if intro!: wlp_any [of _ "syscall _"] wlp_any [of _ "call_alloc _ _ _"]
        wlp_mono [OF new] split: option.split)
qed

lemma wlp_createMount_devices:
  assumes "\<And>i. i \<in> set (map snd (fc_interfaces (fst s))) \<Longrightarrow>
      \<forall>w. wlp (call_ptr (di_create i) (\<lambda>create. create (fc_alloc (fst s)) dp))
        (\<lambda>(code, device) w'. \<forall>d. device = Some d \<longrightarrow> P d) w"
    and "\<forall>m \<in> set (fc_mounts (fst s)). P (mi_device m)"
  shows "wlp (createMount ty mp dp perm) (\<lambda>_ t. \<forall>m \<in> set (fc_mounts (fst t)). P (mi_device m)) s"
proof (cases "unat ty < length (fc_interfaces (fst s))")
  case True
  with assms(1) have create: "wlp (call_ptr (di_create (snd (fc_interfaces (fst s) ! unat ty)))
      (\<lambda>create. create (fc_alloc (fst s)) dp)) (\<lambda>(code, device) w'. \<forall>d. device = Some d \<longrightarrow> P d) w" for w
    by simp
  from assms(2) show ?thesis
    unfolding createMount_def Let_def wlp_andThen wlp_if wlp_fc_get
    by (auto simp: wp_simps intro!: wlp_fc_allocate wlp_fc_deallocate wlp_mono [OF create]
        split: option.split lfs_error_code_t.split)
qed (use assms(2) in \<open>simp add: createMount_def wp_simps\<close>)

lemma wp_createMount_alive:
  assumes "alive px alloc room others s"
    and "4 \<le> heap_room room (snd s)" "length mp < 2 ^ 32" "length dp + 1 < 2 ^ 32"
  shows "wp (createMount ty mp dp perm) (\<lambda>_ t. alive px alloc room others t
    \<and> (\<exists>ms. fst t = (fst s)\<lparr>fc_mounts := ms\<rparr>)) s"
proof -
  let ?all = "others \<union> (\<Union>a. context_blocks (fst s) a)"
  have st: "settled px alloc (fst s)" and h: "holds_blocks room ?all s" using assms(1) by (simp_all add: alive_def)
  then have acc: "accounts alloc used_blocks (heap_room room)"
    by (simp add: settled_def holds_def Let_def)
  have "wp (createMount ty mp dp perm) (\<lambda>_ t. holds_blocks room ?all t
    \<and> (\<exists>ms. fst t = (fst s)\<lparr>fc_mounts := ms\<rparr>) \<and> heap_room room (snd s) \<le> heap_room room (snd t) + (2 + 2)) s"
    using st directory_takes_blocks [OF acc assms(4)] directory_gives_back assms(2)
    by (intro wp_createMount_holds [OF h]) (auto simp: settled_def)
  then obtain r t where run: "createMount ty mp dp perm s = Some (Inr (r, t))"
    and t: "holds_blocks room ?all t" "\<exists>ms. fst t = (fst s)\<lparr>fc_mounts := ms\<rparr>"
    unfolding wp_iff by blast
  have "wlp (createMount ty mp dp perm) (\<lambda>_ t. \<forall>m \<in> set (fc_mounts (fst t)). dd_alloc (mi_device m) = alloc) s"
    using st directory_create_alloc [of px alloc dp]
    by (intro wlp_createMount_devices) (auto simp: settled_def)
  from wlpD [OF this run] wlpD [OF wlp_createMount_result run] st assms(3) t(2)
  have "settled px alloc (fst t)"
    by (cases "fc_interfaces (fst s)") (auto simp: settled_def mounted_def mount_ok_def)
  moreover have "ctx_inv (fst t)"
    using wlpD [OF wlp_createMount run] assms(1) by (simp add: alive_def)
  moreover have items: "fc_items (fst t) = fc_items (fst s)" using t(2) by auto
  then have "context_blocks (fst t) = context_blocks (fst s)" by (rule context_blocks_same)
  ultimately have "alive px alloc room others t"
    using assms(1) t(1) items by (simp add: alive_def)
  with run t(2) show ?thesis by (auto simp: wp_iff)
qed

lemma wp_releaseMount_alive:
  assumes "alive px alloc room others s" "idle_within n (fst s)" "n < 2 ^ 32 - 1"
  shows "wp (releaseMount p) (\<lambda>_ t. alive px alloc room others t \<and> idle_within (Suc n) (fst t)
    \<and> fc_items (fst t) = fc_items (fst s)) s"
proof -
  let ?all = "others \<union> (\<Union>a. context_blocks (fst s) a)"
  have h: "holds_blocks room ?all s" using assms(1) by (simp add: alive_def)
  from wp_releaseMount_holds [OF h assms(2,3), of p] obtain r t where
    run: "releaseMount p s = Some (Inr (r, t))" and
    t: "holds_blocks room ?all t" "same_work (fst s) (fst t)" "idle_within (Suc n) (fst t)"
    "fc_mounts (fst t) = filter (\<lambda>m. mi_self m \<noteq> p) (fc_mounts (fst s))"
    by (auto simp: wp_iff)
  have items: "fc_items (fst t) = fc_items (fst s)" using t(2) by (simp add: same_work_def)
  then have "context_blocks (fst t) = context_blocks (fst s)" by (rule context_blocks_same)
  moreover have "ctx_inv (fst t)"
    using wlpD [OF wlp_releaseMount run] assms(1) by (simp add: alive_def)
  moreover have "settled px alloc (fst t)"
    using assms(1) t(2,4) by (simp add: alive_def settled_def same_work_def)
  ultimately have "alive px alloc room others t"
    using assms(1) t(1) items by (simp add: alive_def)
  with run t(3) items show ?thesis by (auto simp: wp_iff)
qed

subsection \<open>Lives\<close>

text \<open>
  What happens between the creation of a context and its end: anything that happens to requests, and calls that
  make mounts, while the allocator has room for four blocks, and release them, between two items.
\<close>

inductive life_step :: "('os directory_device, 'os world) callbacks \<Rightarrow> ((addr \<Rightarrow> u8 list option) \<Rightarrow> nat)
    \<Rightarrow> addr set \<Rightarrow> ('os directory_device, 'os world) ctx
    \<Rightarrow> addr set \<Rightarrow> ('os directory_device, 'os world) ctx \<Rightarrow> bool" for cbs room where
  Requests: "memory_step cbs used_blocks K s L t \<Longrightarrow> life_step cbs room K s L t"
| Mount: "lfs_create_mount_with_permissions ty mp dp perm s = Some (Inr (r, t)) \<Longrightarrow>
     4 \<le> heap_room room (snd s) \<Longrightarrow> length mp < 2 ^ 32 \<Longrightarrow> length dp + 1 < 2 ^ 32 \<Longrightarrow> life_step cbs room K s K t"
| Unmount: "lfs_release_mount p s = Some (Inr (r, t)) \<Longrightarrow> stoppable (fst s) \<Longrightarrow> life_step cbs room K s K t"

inductive life_run :: "('os directory_device, 'os world) callbacks \<Rightarrow> ((addr \<Rightarrow> u8 list option) \<Rightarrow> nat)
    \<Rightarrow> addr set \<Rightarrow> ('os directory_device, 'os world) ctx
    \<Rightarrow> addr set \<Rightarrow> ('os directory_device, 'os world) ctx \<Rightarrow> bool" for cbs room K s where
  life_start: "life_run cbs room K s K s"
| life_next: "life_run cbs room K s L t \<Longrightarrow> life_step cbs room L t M u \<Longrightarrow> life_run cbs room K s M u"

lemma alive_life_step:
  assumes "life_step cbs room K s L t" "orderly cbs used_blocks tracked" "alive_with px alloc room others K s"
  shows "alive_with px alloc room others L t"
  using assms(1)
proof cases
  case Requests
  with assms(2,3) show ?thesis by (blast intro: alive_memory_step)
next
  case (Mount ty mp dp perm r)
  have "alive px alloc room (others \<union> K) s" "K \<inter> others = {}" using assms(3) by (simp_all add: alive_with_def)
  with wp_createMount_alive [OF this(1) Mount(3-5), of ty perm] Mount(1,2) show ?thesis
    unfolding lfs_create_mount_with_permissions_def by (auto simp: wp_iff alive_with_def)
next
  case (Unmount p r)
  obtain n where n: "idle_within n (fst s)" "n < 2 ^ 32 - 1" using Unmount(3) by (rule stoppable_idle)
  have "alive px alloc room (others \<union> K) s" "K \<inter> others = {}" using assms(3) by (simp_all add: alive_with_def)
  with wp_releaseMount_alive [OF this(1) n, of p] Unmount(1,2) show ?thesis
    unfolding lfs_release_mount_def by (auto simp: wp_iff alive_with_def)
qed

lemma alive_life_run:
  "life_run cbs room K s L t \<Longrightarrow> orderly cbs used_blocks tracked \<Longrightarrow> alive_with px alloc room others K s \<Longrightarrow>
     alive_with px alloc room others L t"
  by (induction rule: life_run.induct) (auto intro: alive_life_step)

lemma alive_created:
  assumes "accounts alloc used_blocks (heap_room room)" "tracks alloc used_blocks" "5 \<le> heap_room room w"
    and "pool_fits alloc poolSize" "0 < queueSize" "unat queueSize < 2 ^ 61"
  shows "wp (lfs_context_create_capacity contextSize (directory_interface px) alloc queueSize poolSize)
    (\<lambda>_ t. alive px alloc room (used_blocks w) t \<and> fc_items (fst t) = Map.empty \<and> fc_mounts (fst t) = []
      \<and> stoppable (fst t)) (fc, w)"
proof -
  let ?create = "lfs_context_create_capacity contextSize (directory_interface px) alloc queueSize poolSize"
  have "wp ?create (\<lambda>_ t. holds_blocks room (used_blocks w) t \<and> stoppable (fst t)
      \<and> map snd (fc_interfaces (fst t)) = [directory_interface px] \<and> fc_alloc (fst t) = alloc) (fc, w)"
    by (rule wp_mono [OF wp_lfs_context_create_capacity [OF assms(1) _ directory_interface_pointers,
        where s = "(fc, w)"]]) (use assms(3) in auto)
  then obtain ctx t where c: "?create (fc, w) = Some (Inr (ctx, t))"
    and t: "holds_blocks room (used_blocks w) t" "stoppable (fst t)"
      "map snd (fc_interfaces (fst t)) = [directory_interface px]" "fc_alloc (fst t) = alloc"
    unfolding wp_iff by (elim exE conjE) (rule that)
  have i: "ctx_inv (fst t)" "fc_items (fst t) = Map.empty" "fc_mounts (fst t) = []"
    using wlpD [OF wlp_create_inv [OF assms(1) _ directory_interface_pointers assms(4-6), where s = "(fc, w)"] c] assms(3)
    by simp_all
  moreover have "context_blocks (fst t) = (\<lambda>a. {})" using i(2) by (auto simp: context_blocks_def)
  ultimately have "alive px alloc room (used_blocks w) t"
    using t assms(2) by (simp add: alive_def settled_def disjoint_family_on_def)
  with c t i show ?thesis by (auto simp: wp_iff)
qed

text \<open>A mount that is made and released again, as part of a life.\<close>

lemma alive_mount_and_release:
  assumes a: "alive px alloc room others s" and idle: "idle_within n (fst s)" "n < 2 ^ 32 - 1"
    and room: "4 \<le> heap_room room (snd s)" "length mp < 2 ^ 32" "length dp + 1 < 2 ^ 32"
  shows "\<exists>m t r u. lfs_create_mount_with_permissions ty mp dp perm s = Some (Inr (m, t))
    \<and> lfs_release_mount (fst m) t = Some (Inr (r, u)) \<and> life_run cbs room K s K u
    \<and> fc_items (fst u) = fc_items (fst s) \<and> idle_within (Suc n) (fst u)"
proof -
  from wp_createMount_alive [OF a room, of ty perm] obtain m t ms where
    mount: "lfs_create_mount_with_permissions ty mp dp perm s = Some (Inr (m, t))"
    and t: "alive px alloc room others t" "fst t = (fst s)\<lparr>fc_mounts := ms\<rparr>"
    unfolding wp_iff lfs_create_mount_with_permissions_def by blast
  have i: "idle_within n (fst t)" unfolding t(2) using idle(1) by (rule idle_within_mounts)
  from wp_releaseMount_alive [OF t(1) i idle(2), of "fst m"] obtain r u where
    release: "lfs_release_mount (fst m) t = Some (Inr (r, u))"
    and u: "idle_within (Suc n) (fst u)" "fc_items (fst u) = fc_items (fst t)"
    unfolding wp_iff lfs_release_mount_def by blast
  have "life_run cbs room K s K u"
    using life_next [OF life_next [OF life_start Mount [OF mount room]] Unmount [OF release]]
      idle_stoppable [OF i idle(2)] by blast
  with mount release u t(2) show ?thesis
    by (intro exI [of _ m] exI [of _ t] exI [of _ r] exI [of _ u]) simp
qed

lemma life_run_trans: "life_run cbs room L t M u \<Longrightarrow> life_run cbs room K s L t \<Longrightarrow> life_run cbs room K s M u"
  by (induction rule: life_run.induct) (auto intro: life_next)

subsection \<open>A life to apply the property to\<close>

text \<open>
  A context with a pool and a queue of two; a file is asked for before any mount is made, and not found.
\<close>

definition born_context :: "(memory_os directory_device, memory_os world) file_context" where
  "born_context = \<lparr>fc_self = 0x1000, fc_interfaces = [(0x5000, directory_interface mem_posix)], fc_mounts = [],
     fc_workItemPool = pl_new 0x2000 104 2, fc_poolBitmask = 0x3000, fc_items = Map.empty,
     fc_workItemQueueSemaphore = sem_new 0, fc_workItemQueue = rb_new [0, 0] 2 True,
     fc_queueBuffer = 0x4000, fc_processingThread = AtLoop, fc_alloc = list_allocator,
     fc_log = nullptr, fc_processing = True\<rparr>"

lemma born_pool: "pl_new 0x2000 104 2 = \<lparr>pl_storage = 0x2000, pl_objSize = 104, pl_bitmask = [3],
    pl_capacity = 2, pl_bitmaskCount = 1\<rparr>"
  by code_simp

lemma born_creation:
  "\<exists>h. lfs_context_create_capacity 512 (directory_interface mem_posix) list_allocator 2 2 (fc, life_world Map.empty)
    = Some (Inr (0x1000, (born_context, life_world h)))
    \<and> dom h = {0x1000, 0x2000, 0x3000, 0x4000, 0x5000}"
  by (simp add: lfs_context_create_capacity_def FileContext_init_def registerDeviceInterface_def fc_get_def fc_set_def
      startProcessingThread_def fc_allocate_def on_snd_def list_allocator_calls free_addresses_def block_addresses_def
      born_context_def born_pool Let_def prog_simps andThen_def mem_world_def directory_interface_pointers)
    (auto simp: numeral_2_eq_2)

lemma born_free:
  assumes "dom h = {0x1000, 0x2000, 0x3000, 0x4000, 0x5000}"
  shows "free_addresses h = [0x6000, 0x7000, 0x8000, 0x9000, 0xA000]"
proof -
  have "h p = None \<longleftrightarrow> p \<notin> {0x1000, 0x2000, 0x3000, 0x4000, 0x5000}" for p
    by (simp add: domIff flip: assms)
  then show ?thesis by (simp add: free_addresses_def block_addresses_def)
qed

definition born_item :: "memory_os world lfs_work_item_t" where
  "born_item = new_work_item\<lparr>wi_operation := LFS_OP_READ, wi_filename := 0x6000, wi_filenameText := ''/f'',
     wi_context := 0x1000, wi_allocator := list_allocator, wi_bufferBytes := - 1\<rparr>"

definition born_queued :: "(memory_os directory_device, memory_os world) file_context" where
  "born_queued = born_context\<lparr>fc_workItemPool := (pl_new 0x2000 104 2)\<lparr>pl_bitmask := [2]\<rparr>,
    fc_items := [0x2000 \<mapsto> born_item], fc_workItemQueueSemaphore := sem_notify (sem_new 0),
    fc_workItemQueue := (rb_new [0x2000, 0] 2 True)\<lparr>rb_writePos := 1\<rparr>\<rparr>"

lemma born_submit:
  assumes "dom h = {0x1000, 0x2000, 0x3000, 0x4000, 0x5000}"
  shows "issue no_callbacks (ReadFile ''/f'' False None) (born_context, life_world h)
    = Some (Inr (0x2000, (born_queued, life_world (h(0x6000 \<mapsto> replicate 3 0)))))"
  by (simp add: submission_defs allocWorkItemCommon_def workItemPool_alloc_def fc_get_def fc_set_def pl_alloc_def
      item_at_def initWorkItem_def fc_allocate_def on_snd_def update_item_def push_work_item_def on_queue_def
      rb_push.simps rb_push_locked_def new_work_item_def item_allocator_def born_context_def born_queued_def
      born_item_def born_pool life_pool life_path rb_new_def list_allocator_calls born_free [OF assms]
      prog_simps andThen_def Let_def mem_world_def)

definition born_done :: "memory_os world lfs_work_item_t" where
  "born_done = born_item\<lparr>wi_bufferBytes := 0, wi_resultCode := LFS_NOT_FOUND, wi_completed := True\<rparr>"

abbreviation born_worked :: "(memory_os directory_device, memory_os world) file_context" where
  "born_worked \<equiv> born_queued\<lparr>fc_workItemQueue := (fc_workItemQueue born_queued)\<lparr>rb_readPos := 1\<rparr>,
     fc_items := [0x2000 \<mapsto> born_done]\<rparr>"

lemma born_process:
  "process_item ([] :: (memory_os directory_device, memory_os world) mount_info list) born_item (life_world h)
    = Some (Inr (born_item\<lparr>wi_bufferBytes := 0, wi_resultCode := LFS_NOT_FOUND\<rparr>, life_world h))"
  by (simp add: process_item_def process_read_def loops_ask(3) mounts_ok_def visible_mounts_def born_item_def
      new_work_item_def prog_simps)

lemma born_work:
  "processing_step no_callbacks (born_queued, life_world h) = Some (Inr (Moved, (born_worked, life_world h)))"
  by (simp add: processing_step_def fc_get_def fc_set_def set_thread_def on_queue_def rb_pop_def process_work_item_def
      item_at_def update_item_def run_callback_def on_snd_def born_queued_def born_context_def rb_new_def prog_simps
      andThen_def born_done_def born_process) (simp add: born_item_def new_work_item_def)

lemma born_handed: "handed (born_queued, life_world h) = {}"
proof -
  have "pending born_queued = [0x2000]"
    by (simp add: born_queued_def rb_new_def rb_contents_def rb_count_def ring_index_def)
  then show ?thesis
    by (simp add: handed_def passes_def born_process born_queued_def born_context_def)
      (simp add: passed_on_def born_item_def new_work_item_def)
qed

lemma born_release:
  "\<exists>pool. releaseWorkItem 0x2000 (born_worked, life_world h)
    = Some (Inr ((), (born_worked\<lparr>fc_workItemPool := pool, fc_items := Map.empty\<rparr>, life_world (h(0x6000 := None)))))"
  by (simp add: releaseWorkItem_def releaseWorkItemInternal_def workItemPool_free_def item_at_def fc_get_def fc_set_def
      fc_deallocate_def on_snd_def born_queued_def born_context_def born_done_def born_item_def new_work_item_def
      list_allocator_calls prog_simps andThen_def)


text \<open>The life: the context is made, a request is answered and released, a directory is mounted and released.\<close>

lemma born_life:
  assumes "dom h = {0x1000, 0x2000, 0x3000, 0x4000, 0x5000}"
  shows "\<exists>fc. life_run no_callbacks room {} (born_context, life_world h) {} (fc, life_world h)
    \<and> fc_items fc = Map.empty \<and> idle_within 1 fc \<and> sem_value (fc_workItemQueueSemaphore fc) = 1"
proof -
  have "0x6000 \<notin> dom h" unfolding assms by simp
  then have none: "h 0x6000 = None" by (simp add: domIff)
  let ?w = "life_world (h(0x6000 \<mapsto> replicate 3 0))"
  obtain pool where release: "releaseWorkItem 0x2000 (born_worked, ?w)
    = Some (Inr ((), (born_worked\<lparr>fc_workItemPool := pool, fc_items := Map.empty\<rparr>,
        life_world (h(0x6000 \<mapsto> replicate 3 0, 0x6000 := None)))))" using born_release by blast
  let ?fc = "born_worked\<lparr>fc_workItemPool := pool, fc_items := Map.empty\<rparr>"
  let ?run = "life_run no_callbacks room {} (born_context, life_world h) {}"
  have "?run (born_queued, ?w)"
    by (rule life_next [OF life_start Requests], rule Submit [OF born_submit [OF assms]])
      (simp_all add: born_context_def sem_new_def)
  from life_next [OF this Requests [OF Work [OF born_work]]] born_handed have "?run (born_worked, ?w)" by simp
  from life_next [OF this Requests [OF Release_item [OF release]]] none
  have "?run (?fc, life_world h)"
    by (simp add: born_done_def born_item_def new_work_item_def fun_upd_idem kept_def buffer_blocks_def)
  then show ?thesis
    by (intro exI [of _ ?fc])
      (simp add: idle_within_def thread_inv_def born_queued_def born_context_def sem_notify_def sem_new_def)
qed


lemma list_allocator_pool: "pool_fits list_allocator 2"
proof -
  have "unat p + 208 < 2 ^ 64" if "free_addresses f = p # ps" for f p ps
  proof -
    have "p \<in> set (free_addresses f)" using that by simp
    then have "p \<in> set block_addresses" unfolding free_addresses_def by (simp only: set_filter mem_Collect_eq)
    then show ?thesis by (auto simp: block_addresses_def)
  qed
  then show ?thesis
    by (auto simp: pool_fits_def wlp_iff list_allocator_calls split: list.splits)
qed

subsection \<open>Properties\<close>

text \<open>
  C6: the whole life of a context. It is created; then, in any order and interleaving, requests are submitted,
  processed, called back and released, directories are mounted, and mounts are released, also while requests are
  pending. At every moment each block in use is one of those from before, or a block of the context, its queue,
  its pool, an interface or a mount, or one of a work item, or one that clients hold (\<open>K\<close>: buffers of reads they
  were given to keep, and blocks they allocated): nothing leaks. When the work items are released and the thread
  is between two items, destroying the context does not fault, and afterwards exactly the blocks are in use that
  were before and those that clients hold. (The allocator gives new blocks or none, has room for the five of the
  creation, and the block of the pool lies in the address space; the bytes of the queue can be counted in 64
  bits. Callbacks may use the context, for instance to submit requests, but they leave the mounts, the thread and
  the items with a callback as they are, and keep each block with one owner.)
\<close>

theorem whole_life_leaks_nothing:
  assumes "accounts alloc used_blocks (heap_room room)" "tracks alloc used_blocks" "orderly cbs used_blocks tracked"
    and "5 \<le> heap_room room w" "pool_fits alloc poolSize" "0 < queueSize" "unat queueSize < 2 ^ 61"
  shows "\<exists>ctx t.
      lfs_context_create_capacity contextSize (directory_interface px) alloc queueSize poolSize (fc, w)
        = Some (Inr (ctx, t))
    \<and> (\<forall>K u. life_run cbs room {} t K u \<longrightarrow>
        used_blocks (snd u)
          = used_blocks w \<union> K \<union> set (owned_blocks device_blocks (fst u)) \<union> (\<Union>a. context_blocks (fst u) a)
        \<and> K \<inter> used_blocks w = {}
        \<and> (fc_items (fst u) = Map.empty \<and> stoppable (fst u) \<longrightarrow>
            (\<exists>v. lfs_context_destroy u = Some (Inr ((), v)) \<and> used_blocks (snd v) = used_blocks w \<union> K)))"
proof -
  from alive_created [OF assms(1,2,4-7)] obtain ctx t where
    c: "lfs_context_create_capacity contextSize (directory_interface px) alloc queueSize poolSize (fc, w)
      = Some (Inr (ctx, t))" and "alive px alloc room (used_blocks w) t"
    unfolding wp_iff by blast
  then have "alive_with px alloc room (used_blocks w) {} t" by (simp add: alive_with_def)
  then have run: "alive_with px alloc room (used_blocks w) K u" if "life_run cbs room {} t K u" for K u
    using alive_life_run [OF that assms(3)] by blast
  have "used_blocks (snd u)
        = used_blocks w \<union> K \<union> set (owned_blocks device_blocks (fst u)) \<union> (\<Union>a. context_blocks (fst u) a)
      \<and> K \<inter> used_blocks w = {}"
    if "life_run cbs room {} t K u" for K u
    using run [OF that] by (auto simp: alive_with_def alive_def holds_def Let_def)
  moreover have "\<exists>v. lfs_context_destroy u = Some (Inr ((), v)) \<and> used_blocks (snd v) = used_blocks w \<union> K"
    if u: "life_run cbs room {} t K u" "fc_items (fst u) = Map.empty" "stoppable (fst u)" for K u
  proof -
    have "context_blocks (fst u) = (\<lambda>a. {})" using u(2) by (auto simp: context_blocks_def)
    with run [OF u(1)] have "holds_blocks room (used_blocks w \<union> K) u" by (simp add: alive_with_def alive_def)
    from wp_lfs_context_destroy [OF this u(3)] show ?thesis by (auto simp: wp_iff)
  qed
  ultimately show ?thesis using c by blast
qed

text \<open>After the request a directory is mounted and released, and the context destroyed.\<close>

lemma whole_life_leaks_nothing_witness:
  "\<forall>fc. \<exists>ctx t u m t1 r t2 v.
      lfs_context_create_capacity 512 (directory_interface mem_posix) list_allocator 2 2 (fc, life_world Map.empty)
        = Some (Inr (ctx, t))
    \<and> life_run no_callbacks (\<lambda>h. length (free_addresses h)) {} t {} u
    \<and> sem_value (fc_workItemQueueSemaphore (fst u)) \<noteq> sem_value (fc_workItemQueueSemaphore (fst t))
    \<and> lfs_create_mount_with_permissions 0 ''/m'' ''/a'' 1 u = Some (Inr (m, t1))
    \<and> lfs_release_mount (fst m) t1 = Some (Inr (r, t2))
    \<and> lfs_context_destroy t2 = Some (Inr ((), v)) \<and> w_heap (snd v) = Map.empty"
proof
  fix fc
  let ?room = "\<lambda>h :: addr \<Rightarrow> u8 list option. length (free_addresses h)"
  let ?create = "lfs_context_create_capacity 512 (directory_interface mem_posix) list_allocator 2 2"
  let ?w = "life_world Map.empty"
  have five: "5 \<le> heap_room ?room ?w"
    by (simp add: heap_room_def free_addresses_def block_addresses_def)
  note alloc = list_allocator_accounts list_allocator_tracks
    and quiet = life_hypotheses(4) [of used_blocks "tracked :: memory_os directory_device \<Rightarrow> bool"]
  obtain h where create: "?create (fc, ?w) = Some (Inr (0x1000, (born_context, life_world h)))"
    and h: "dom h = {0x1000, 0x2000, 0x3000, 0x4000, 0x5000}" using born_creation by blast
  let ?t = "(born_context, life_world h)"
  obtain fc' where run: "life_run no_callbacks ?room {} ?t {} (fc', life_world h)"
    and fc': "fc_items fc' = Map.empty" "idle_within 1 fc'" "sem_value (fc_workItemQueueSemaphore fc') = 1"
    using born_life [OF h] by blast
  have "alive_with mem_posix list_allocator ?room (used_blocks ?w) {} ?t"
    using alive_created [OF alloc five list_allocator_pool, of 2 512 mem_posix fc] create
    by (auto simp: wp_iff alive_with_def)
  from alive_life_run [OF run quiet this]
  have "alive mem_posix list_allocator ?room (used_blocks ?w) (fc', life_world h)" by (simp add: alive_with_def)
  from alive_mount_and_release [OF this, of 1 "''/m''" "''/a''" 0 1 no_callbacks "{}"] fc' obtain m t1 r t2 where
    mount: "lfs_create_mount_with_permissions 0 ''/m'' ''/a'' 1 (fc', life_world h) = Some (Inr (m, t1))"
    "lfs_release_mount (fst m) t1 = Some (Inr (r, t2))" "life_run no_callbacks ?room {} (fc', life_world h) {} t2"
    and t2: "fc_items (fst t2) = Map.empty" "idle_within (Suc 1) (fst t2)"
    by (simp add: heap_room_def born_free [OF h] del: split_paired_Ex) blast
  have t: "life_run no_callbacks ?room {} ?t {} t2" using mount(3) run by (rule life_run_trans)
  have finished: "stoppable (fst t2)" using t2(2) by (rule idle_stoppable) simp
  have "(0 :: u64) < 2" "unat (2 :: u64) < 2 ^ 61" by simp_all
  from whole_life_leaks_nothing [OF alloc quiet five list_allocator_pool this, of 512 mem_posix fc]
  obtain ctx t where "?create (fc, ?w) = Some (Inr (ctx, t))" and all: "\<And>K u. life_run no_callbacks ?room {} t K u \<Longrightarrow>
      fc_items (fst u) = Map.empty \<and> stoppable (fst u) \<longrightarrow>
        (\<exists>v. lfs_context_destroy u = Some (Inr ((), v)) \<and> used_blocks (snd v) = used_blocks ?w \<union> K)"
    by (elim exE conjE) (rule that, assumption, (drule spec)+, drule mp, assumption, elim conjE, assumption)
  then have "t = ?t" using create by simp
  with all [of "{}" t2] t finished t2(1) obtain v where
    "lfs_context_destroy t2 = Some (Inr ((), v))" "used_blocks (snd v) = used_blocks ?w \<union> {}" by blast
  with create run fc'(3) mount(1,2) show "\<exists>ctx t u m t1 r t2 v.
      ?create (fc, ?w) = Some (Inr (ctx, t))
    \<and> life_run no_callbacks ?room {} t {} u
    \<and> sem_value (fc_workItemQueueSemaphore (fst u)) \<noteq> sem_value (fc_workItemQueueSemaphore (fst t))
    \<and> lfs_create_mount_with_permissions 0 ''/m'' ''/a'' 1 u = Some (Inr (m, t1))
    \<and> lfs_release_mount (fst m) t1 = Some (Inr (r, t2))
    \<and> lfs_context_destroy t2 = Some (Inr ((), v)) \<and> w_heap (snd v) = Map.empty"
    by (intro exI [of _ "0x1000"] exI [of _ ?t] exI [of _ "(fc', life_world h)"] exI [of _ m] exI [of _ t1] exI [of _ r]
        exI [of _ t2] exI [of _ v]) (simp add: used_blocks_def born_context_def sem_new_def)
qed

end
