(* ===== verification/Spec2Isabelle.thy ===== *)
theory Spec2Isabelle
  imports Lfs_Prelude Shared_Types Semaphore Outcome Queue_Interface Ring_Buffer Pool_Interface
    Pool_Allocator Normalize_Path Normalize_Bounds Device_Interface Mounts Work_Item Item_Processing
    File_Context Program_Logic Context_Invariant Requests Processing Context_Steps Mount_Management
    Interleaving Posix Directory_Device Memory_System Null_Calls Directory_Overlay Directory_Files
    Directory_Changes Win32 Directory_Win32 Windows_Files Default_Allocator C_Api Life_Cycle
    Mount_Sequences Write_Read Overlay_Changes
    Context_Frame Device_Memory Item_Memory Request_Memory Whole_Life
begin

text \<open>
  LaminaFS is a virtual file system for programs that load many files. A \<^verbatim>\<open>FileContext\<close> has a table of
  device types, a table of mounts that overlay each other, a pool of work items, a queue of pending ones and
  one processing thread. A client submits requests, which are work items put in the queue; the thread takes
  them out, finds the mount that serves the path and calls the operation of its device through a table of
  function pointers. The program comes with one device type, the directory device, which serves files
  below a directory of the host, and with a C interface.

  \<^bold>\<open>The parts and their theories\<close> (paths below \<^verbatim>\<open>src/\<close>).

  \<^item> \<^verbatim>\<open>shared_types.h\<close>: \<open>Shared_Types\<close> (codes, permissions, operations) and \<open>Device_Interface\<close> (the allocator
    and the device interface, whose function pointers are options).
  \<^item> \<^verbatim>\<open>util/Semaphore.h\<close>: \<open>Semaphore\<close>. \<^verbatim>\<open>util/RingBuffer.h\<close>: \<open>Ring_Buffer\<close>. \<^verbatim>\<open>util/PoolAllocator.h\<close>:
    \<open>Pool_Allocator\<close>. Their contracts are the locales of \<open>Queue_Interface\<close> and \<open>Pool_Interface\<close>, interpreted
    on the code's definitions.
  \<^item> \<^verbatim>\<open>FileContext.cpp\<close>: \<open>Normalize_Path\<close> and \<open>Normalize_Bounds\<close> (\<^verbatim>\<open>normalizePath\<close>, first on natural
    numbers, then on 32-bit positions with checked accesses), \<open>Mounts\<close> (the searches of the mount table),
    \<open>Work_Item\<close> (items and their accessors), \<open>Item_Processing\<close> (the switch of \<^verbatim>\<open>processingFunc\<close>),
    \<open>File_Context\<close> (the state, every operation of the context and the steps of the thread).
  \<^item> \<^verbatim>\<open>device/Directory.cpp\<close>: \<open>Posix\<close> (the system calls the device uses, as a parameter) and
    \<open>Directory_Device\<close> (every operation of the device in its POSIX variant); \<open>Win32\<close> and \<open>Directory_Win32\<close>, the
    same for the variant the preprocessor selects on Windows.
  \<^item> The default allocator of \<^verbatim>\<open>FileContext.cpp\<close> and the allocator adapter of \<^verbatim>\<open>FileContext.h\<close>:
    \<open>Default_Allocator\<close>.
  \<^item> \<^verbatim>\<open>laminaFS_c.cpp\<close>: \<open>C_Api\<close>.

  Programs are functions from a state to nothing (no return), a fault (undefined behaviour or an uncaught
  exception), or a result and a new state; this is \<open>Outcome\<close>, and \<open>Program_Logic\<close> computes preconditions
  over it. A context runs on the pair of its state and the world, which holds what is outside it: the heap,
  the host, the user's data. Machine integers are words of their width. Blocking is the result \<open>None\<close> of the
  semaphore and of the full queue's push.

  \<^bold>\<open>What is shown.\<close>

  \<^item> \<open>Ring_Buffer\<close>, \<open>Pool_Allocator\<close>: the queue is a bounded list, the pool hands out its capacity in distinct
    objects; the blocking push returns exactly when there is room.
  \<^item> \<open>Normalize_Path\<close>, \<open>Normalize_Bounds\<close>: the in-place normalisation computes a specification by segments and
    a stack, is idempotent, and stays inside its buffer.
  \<^item> \<open>Mounts\<close>, \<open>Item_Processing\<close>: which mounts a lookup asks, in which order, and where a modification goes. The
    locale \<open>probing_device\<close> states what a device that can
    be looked up in promises; it is interpreted on the directory device. \<open>Null_Calls\<close>: which function pointers
    processing calls, of devices and allocators, and that they are there; the locale \<open>calling_device\<close>, interpreted on
    the directory device, states what a device has to see to.
  \<^item> \<open>Context_Invariant\<close>, \<open>Requests\<close>: every operation of the client puts the item of its request at the end
    of the queue, or reports that the pool is exhausted.
  \<^item> \<open>Processing\<close>, \<open>Context_Steps\<close>: the thread works off what is pending and then waits; the invariant of the
    context holds in every state reachable by any interleaving of client operations and steps of the
    thread (\<open>reachable\<close>, by rule induction), and no wake-up is lost. \<open>Interleaving\<close> looks inside the one
    operation that is not atomic for the thread, \<^verbatim>\<open>writeFile\<close>.
  \<^item> \<open>Mount_Management\<close>: the constructor, making and releasing mounts, and their errors.
  \<^item> \<open>Directory_Files\<close>, \<open>Directory_Changes\<close>: what reading, writing and deleting do with the system calls,
    on success, on failure, and when calls are interrupted. \<open>Directory_Overlay\<close>: existence and size over
    mounted directories, from the mount table to the host. \<open>Memory_System\<close> is a small system in memory the
    properties are applied to.
  \<^item> \<open>Windows_Files\<close>: what the Windows variant reads and writes, and where it answers differently.
  \<^item> \<open>Write_Read\<close>: a write and a later read of the same file, from the queue down to the system calls and back.
    \<open>Overlay_Changes\<close>: deleting files and making directories through the overlay, down to the host; the file of
    an older mount comes to light when the one above it is deleted.
  \<^item> \<open>C_Api\<close>, \<open>Life_Cycle\<close>, \<open>Mount_Sequences\<close>: the C functions submit the requests they stand for; a context gives
    back every block it took from the user's allocator, whatever mounts are made and released in between; and
    a release takes exactly one mount out of the table.
  \<^item> \<open>Device_Memory\<close>, \<open>Item_Memory\<close>, \<open>Request_Memory\<close>: who owns each block in use over the life of requests,
    those that clients hold included: buffers that a callback is given to keep or that are left at the release of
    an item. The locale \<open>tidy_device\<close> states that a device gives back what it takes, except for the buffer of a
    read; it is interpreted on the directory device. \<open>Context_Frame\<close> shows what requests leave alone.
    \<open>Whole_Life\<close> puts requests, mounts and releases together, in any order, from the creation of a context to
    its end (\<open>life_run\<close>).
  \<^item> \<open>Default_Allocator\<close>: the blocks of the default allocator are aligned as they were asked for.

  \<^bold>\<open>Recursion and bounds.\<close> There is no fuel. Loops whose end is a fact about the data are total functions with a
  measure (the scans of \<open>Normalize_Path\<close>); loops that call devices or the host may not end and are
  partial functions with the result \<open>None\<close>: the three lookup loops, \<^verbatim>\<open>processingFunc\<close>, the repetition of
  interrupted system calls and the walk of a directory tree. That they end is proved where it is claimed.
  Lengths of paths are below \<open>2 ^ 32\<close>, the width the code stores them in, file sizes below \<open>2 ^ 63\<close>, the range of
  \<^verbatim>\<open>off_t\<close>, and so are the counts of reads the host is assumed to answer (\<^verbatim>\<open>SSIZE_MAX\<close>). A queue has fewer than
  \<open>2 ^ 61\<close> entries: beyond, the size of its array wraps around, which the model of the constructor shows.

  \<^bold>\<open>What callers and the environment provide\<close> are parameters with stated assumptions: the user's allocator
  (\<open>total_allocator\<close>, \<open>usable_allocator\<close>, \<open>steady_allocator\<close>, \<open>gives_blocks\<close>, \<open>accounts\<close>, \<open>tracks\<close>, \<open>pool_fits\<close>), the callbacks (\<open>polite\<close>, \<open>orderly\<close>), the devices of
  other types, the memory functions of the C library (\<open>aligns\<close>), and the system calls, of which each
  property names the results it is about (\<open>has_file\<close>, \<open>takes_file\<close>). A system call that succeeds leaves
  \<^verbatim>\<open>errno\<close> as it was.

  \<^bold>\<open>Not modelled.\<close> Memory fences, the condition variable behind \<^verbatim>\<open>WaitForWorkItem\<close> (it returns exactly if the
  item is completed) and the locks themselves: each operation is a step, except where \<open>Interleaving\<close> splits one.
  The allocations of \<^verbatim>\<open>std::vector\<close> and \<^verbatim>\<open>std::thread\<close>, which their library decides. The messages of the log
  function. The comparison of allocator adapters, which would not compile if it were used. The test programs.

  \<^bold>\<open>Plan.\<close> Deleting directories through the overlay, down to the host; the directory overlay over the
  Windows variant; a split of the client operations at their locks.
\<close>

end
